(* ===== verification/ThinBT_Prelude.thy ===== *)
theory ThinBT_Prelude
  imports Main "HOL-Library.Word"
begin

unbundle bit_operations_syntax

text \<open>
  Shared ground of the development: names for the C++ integer types, the generic facts on
  lists, counts and words that several components use, and the fact collections
  (\<open>wire_simps\<close> for byte layouts, \<open>count_simps\<close> for counting marked entries,
  \<open>word_bounds\<close> for reading words as naturals) that their proofs draw on.
\<close>

named_theorems wire_simps "byte layouts of integers and records"
named_theorems count_simps "how updates change the number of marked entries"
named_theorems word_bounds "unsigned readings of word arithmetic"

type_synonym u8 = "8 word"
type_synonym u16 = "16 word"
type_synonym u32 = "32 word"
type_synonym u64 = "64 word"
type_synonym bytes = "u8 list"

subsection \<open>Counting the marked entries of a vector of flags\<close>

abbreviation marked :: "bool list \<Rightarrow> nat" where
  "marked bs \<equiv> count_list bs True"

lemma marked_le_length: "marked bs \<le> length bs"
  by (induction bs) auto

lemma marked_replicate_False [count_simps]: "marked (replicate n False) = 0"
  by (induction n) auto

lemma marked_set_true [count_simps]:
  "i < length bs \<Longrightarrow> \<not> bs ! i \<Longrightarrow> marked (bs[i := True]) = Suc (marked bs)"
proof (induction bs arbitrary: i)
  case (Cons b bs)
  then show ?case by (cases i) auto
qed simp

lemma marked_set_false [count_simps]:
  "i < length bs \<Longrightarrow> bs ! i \<Longrightarrow> Suc (marked (bs[i := False])) = marked bs"
proof (induction bs arbitrary: i)
  case (Cons b bs)
  then show ?case by (cases i) auto
qed simp

lemma marked_set_same: "i < length bs \<Longrightarrow> bs ! i = v \<Longrightarrow> marked (bs[i := v]) = marked bs"
  by (metis list_update_id)

lemma marked_full_iff: "marked bs = length bs \<longleftrightarrow> (\<forall>i < length bs. bs ! i)"
proof (induction bs)
  case (Cons b bs)
  have "marked bs \<le> length bs" by (rule marked_le_length)
  then show ?case using Cons by (cases b) (auto simp: less_Suc_eq_0_disj)
qed simp

subsection \<open>Words read as naturals\<close>

lemma unat_inc_le [word_bounds]: "unat (x + 1 :: 'a::len word) \<le> Suc (unat x)"
  using mod_less_eq_dividend [of "unat x + unat (1 :: 'a word)" "2 ^ LENGTH('a)"]
  by (simp add: unat_word_ariths)

lemma unat_dec [word_bounds]: "x \<noteq> 0 \<Longrightarrow> unat (x - 1 :: 'a::len word) = unat x - 1"
  by (simp add: unat_minus_one)

lemma unat_u32_less [word_bounds]: "unat (x :: u32) < 2 ^ 32"
proof -
  have "unat x < 2 ^ LENGTH(32)" by (rule unsigned_less)
  then show ?thesis by simp
qed

lemma widen_u32: "unat (ucast (x :: u32) :: u64) = unat x"
  by (simp add: unsigned_ucast_eq take_bit_nat_eq_self less_trans[OF unat_u32_less])

lemma unat_of_nat_u32 [word_bounds]: "n < 2 ^ 32 \<Longrightarrow> unat (of_nat n :: u32) = n"
  by (simp add: unat_of_nat take_bit_eq_mod)

lemma filter_update_count [count_simps]:
  "i < length xs \<Longrightarrow> length (filter P (xs[i := y])) + (if P (xs ! i) then 1 else 0)
     = length (filter P xs) + (if P y then 1 else 0)"
proof (induction xs arbitrary: i)
  case (Cons x xs)
  then show ?case by (cases i) auto
qed simp

end
