(* ===== verification/Chunk_Assembler.thy ===== *)
theory Chunk_Assembler
  imports ThinBT_Prelude
begin

unbundle bit_operations_syntax

text \<open>
  \<open>src/src/daemon/chunk_assembler.hpp/.cpp\<close>: the lock-free assembly of one chunk. An
  assembler is a record of the class's fields; the mapped region it writes to is a store from
  addresses to bytes. \<open>on_piece\<close> returns \<open>None\<close> where the C++ code would divide by zero or
  index \<open>completed_mask_\<close> out of bounds (undefined behaviour). Its two atomic operations,
  \<open>fetch_or\<close> on a mask word and \<open>fetch_sub\<close> on the pending counter, are definitions of their
  own, so that the interleavings of several I/O threads can be stepped one atomic operation at
  a time.
\<close>

definition SUB_BLOCK_SIZE :: u32 where
  "SUB_BLOCK_SIZE = 16 * 1024"

record SubBlock =
  sb_begin :: u32
  sb_length :: u32

record ChunkAssembler =
  base :: "nat option"
  chunk_size :: u32
  sub_block_size :: u32
  total_slots :: u32
  completed_mask :: "u32 list"
  mask_words :: u32
  pending_count :: u32
  sub_blocks :: "SubBlock list"

type_synonym store = "nat \<Rightarrow> u8"

definition memcpy :: "store \<Rightarrow> nat \<Rightarrow> bytes \<Rightarrow> store" where
  "memcpy m a bs = (\<lambda>x. if a \<le> x \<and> x < a + length bs then bs ! (x - a) else m x)"

lemma memcpy_Nil [simp]: "memcpy m a [] = m"
  by (auto simp: memcpy_def fun_eq_iff)

subsection \<open>The operations\<close>

definition assembler_init :: "nat option \<Rightarrow> u32 \<Rightarrow> u32 \<Rightarrow> ChunkAssembler option" where
  "assembler_init mmap_base csize sbsize =
     (if sbsize = 0 then None
      else let total = (csize + sbsize - 1) div sbsize;
               words = (total + 31) div 32
           in Some \<lparr>base = mmap_base, chunk_size = csize, sub_block_size = sbsize,
                    total_slots = total, completed_mask = replicate (unat words) 0,
                    mask_words = words, pending_count = total,
                    sub_blocks = map (\<lambda>i. let b = of_nat i * sbsize in
                        \<lparr>sb_begin = b, sb_length = min sbsize (csize - b)\<rparr>) [0..<unat total]\<rparr>)"

definition is_complete :: "ChunkAssembler \<Rightarrow> bool" where
  "is_complete a \<longleftrightarrow> pending_count a = 0"

definition mask_fetch_or :: "u32 list \<Rightarrow> u32 \<Rightarrow> u32 \<times> u32 list" where
  "mask_fetch_or cmask slot =
     (let word = unat (slot div 32);
          bit_mask = push_bit (unat (slot mod 32)) 1;
          old_mask = cmask ! word
      in (old_mask AND bit_mask, cmask[word := old_mask OR bit_mask]))"

definition pending_fetch_sub :: "ChunkAssembler \<Rightarrow> u32 \<times> ChunkAssembler" where
  "pending_fetch_sub a = (pending_count a, a\<lparr>pending_count := pending_count a - 1\<rparr>)"

definition piece_rejected :: "ChunkAssembler \<Rightarrow> u32 \<Rightarrow> bytes \<Rightarrow> bool" where
  "piece_rejected a begin data \<longleftrightarrow>
     base a = None \<or> begin + of_nat (length data) > chunk_size a"

definition on_piece ::
    "ChunkAssembler \<Rightarrow> store \<Rightarrow> u32 \<Rightarrow> bytes \<Rightarrow> (bool \<times> ChunkAssembler \<times> store) option" where
  "on_piece a m begin data =
     (if sub_block_size a = 0 then None
      else let slot = begin div sub_block_size a;
               word = slot div 32
           in if piece_rejected a begin data then Some (False, a, m)
              else if unat word \<ge> length (completed_mask a) then None
              else let m' = memcpy m (the (base a) + unat begin) data;
                       (old, cmask) = mask_fetch_or (completed_mask a) slot;
                       a1 = a\<lparr>completed_mask := cmask\<rparr>
                   in if old = 0
                      then let (before, a2) = pending_fetch_sub a1
                           in Some (before = 1, a2, m')
                      else Some (False, a1, m'))"

subsection \<open>The mask as a set of slots\<close>

definition mask_slots :: "u32 list \<Rightarrow> nat set" where
  "mask_slots ws = {s. s < 32 * length ws \<and> bit (ws ! (s div 32)) (s mod 32)}"

text \<open>What the assembly needs of the completion mask: a set of flags with a test-and-set.\<close>

locale once_flags =
  fixes test_and_set :: "'m \<Rightarrow> u32 \<Rightarrow> u32 \<times> 'm"
    and flag_set :: "'m \<Rightarrow> nat set"
    and room :: "'m \<Rightarrow> nat"
  assumes old_flag: "unat s < room m \<Longrightarrow> fst (test_and_set m s) = 0 \<longleftrightarrow> unat s \<notin> flag_set m"
    and set_flag: "unat s < room m \<Longrightarrow> flag_set (snd (test_and_set m s)) = insert (unat s) (flag_set m)"
    and keep_room: "room (snd (test_and_set m s)) = room m"
    and flags_bounded: "flag_set m \<subseteq> {..<room m}"
begin

lemma finite_flags [simp]: "finite (flag_set m)"
  using finite_subset[OF flags_bounded] by simp

lemma card_after_set:
  assumes "unat s < room m"
  shows "card (flag_set (snd (test_and_set m s)))
       = card (flag_set m) + (if fst (test_and_set m s) = 0 then 1 else 0)"
  using assms by (simp add: old_flag set_flag insert_absorb)

lemma set_flag_idem:
  assumes "unat s < room m"
  shows "fst (test_and_set (snd (test_and_set m s)) s) \<noteq> 0"
  using assms by (simp add: old_flag keep_room set_flag)

end

lemma and_exp_zero_iff:
  "k < 32 \<Longrightarrow> (x AND 2 ^ k = 0) \<longleftrightarrow> \<not> bit (x :: u32) k"
  by (simp add: and_exp_eq_0_iff_not_bit)

lemma bit_or_exp:
  "k < 32 \<Longrightarrow> bit ((x :: u32) OR 2 ^ k) n \<longleftrightarrow> bit x n \<or> n = k"
  by (auto simp: bit_or_iff bit_exp_iff)

interpretation cm: once_flags mask_fetch_or mask_slots "\<lambda>ws. 32 * length ws"
proof unfold_locales
  fix s :: u32 and ws :: "u32 list"
  assume s: "unat s < 32 * length ws"
  have m: "unat (s mod 32) = unat s mod 32" and d: "unat (s div 32) = unat s div 32"
    by (simp_all add: unat_mod unat_div)
  have l: "unat s div 32 < length ws"
    using s by (simp add: less_mult_imp_div_less mult.commute)
  show "fst (mask_fetch_or ws s) = 0 \<longleftrightarrow> unat s \<notin> mask_slots ws"
    using s by (simp add: mask_fetch_or_def mask_slots_def Let_def and_exp_zero_iff m d)
  show "mask_slots (snd (mask_fetch_or ws s)) = insert (unat s) (mask_slots ws)"
  proof (rule set_eqI)
    fix x
    have "x div 32 = unat s div 32 \<Longrightarrow> x mod 32 = unat s mod 32 \<Longrightarrow> x = unat s"
      by (metis div_mult_mod_eq)
    then show "x \<in> mask_slots (snd (mask_fetch_or ws s)) \<longleftrightarrow> x \<in> insert (unat s) (mask_slots ws)"
      using s l by (auto simp: mask_fetch_or_def mask_slots_def Let_def m d
          bit_or_exp nth_list_update)
  qed
next
  fix s :: u32 and ws :: "u32 list"
  show "32 * length (snd (mask_fetch_or ws s)) = 32 * length ws"
    by (simp add: mask_fetch_or_def Let_def)
  show "mask_slots ws \<subseteq> {..<32 * length ws}"
    by (auto simp: mask_slots_def)
qed

subsection \<open>The invariant of one assembler\<close>

definition done_slots :: "ChunkAssembler \<Rightarrow> nat set" where
  "done_slots a = mask_slots (completed_mask a)"

text \<open>The constant part: what \<open>init\<close> computes from the two sizes and never changes again.\<close>

definition asm_geom :: "ChunkAssembler \<Rightarrow> bool" where
  "asm_geom a \<longleftrightarrow> 0 < unat (sub_block_size a)
     \<and> unat (total_slots a) = (unat (chunk_size a) + unat (sub_block_size a) - 1) div unat (sub_block_size a)
     \<and> unat (total_slots a) \<le> 32 * length (completed_mask a)
     \<and> done_slots a \<subseteq> {..<unat (total_slots a)}"

definition asm_inv :: "ChunkAssembler \<Rightarrow> bool" where
  "asm_inv a \<longleftrightarrow> asm_geom a
     \<and> unat (pending_count a) + card (done_slots a) = unat (total_slots a)"

lemma asm_geom_bounded: "asm_geom a \<Longrightarrow> done_slots a \<subseteq> {..<unat (total_slots a)}"
  unfolding asm_geom_def by (elim conjE)

text \<open>A piece as an honest sender cuts it: non-empty and inside the chunk.\<close>

definition piece_inside :: "ChunkAssembler \<Rightarrow> u32 \<Rightarrow> bytes \<Rightarrow> bool" where
  "piece_inside a begin data \<longleftrightarrow> base a \<noteq> None \<and> data \<noteq> []
     \<and> unat begin + length data \<le> unat (chunk_size a)"

definition slot_of :: "ChunkAssembler \<Rightarrow> u32 \<Rightarrow> nat" where
  "slot_of a begin = unat begin div unat (sub_block_size a)"

lemma ceil_div_gt:
  fixes x c s :: nat
  assumes "x < c" "0 < s"
  shows "x div s < (c + s - 1) div s"
proof -
  have "x div s + 1 = (x + s) div s" using assms by (simp add: div_add_self2)
  also have "\<dots> \<le> (c + s - 1) div s" using assms by (intro div_le_mono) simp
  finally show ?thesis by simp
qed

lemma piece_inside_facts:
  assumes "asm_geom a" "piece_inside a begin data"
  shows "\<not> piece_rejected a begin data"
    and "slot_of a begin < unat (total_slots a)"
    and "unat (begin div sub_block_size a) = slot_of a begin"
    and "sub_block_size a \<noteq> 0"
proof -
  have u: "unat begin + length data < 2 ^ 32"
    using assms(2) unat_u32_less[of "chunk_size a"] by (simp add: piece_inside_def)
  then have len: "unat (of_nat (length data) :: u32) = length data"
    by (simp add: unat_of_nat take_bit_eq_mod)
  then have "unat (begin + of_nat (length data)) = unat begin + length data"
    using u by (subst unat_add_lem[THEN iffD1]) (simp_all)
  then show "\<not> piece_rejected a begin data"
    using assms(2) by (auto simp: piece_rejected_def piece_inside_def word_less_nat_alt)
  show "slot_of a begin < unat (total_slots a)"
    using assms ceil_div_gt[of "unat begin" "unat (chunk_size a)" "unat (sub_block_size a)"]
    by (cases data) (auto simp: asm_geom_def piece_inside_def slot_of_def)
  show "unat (begin div sub_block_size a) = slot_of a begin" by (simp add: slot_of_def unat_div)
  show "sub_block_size a \<noteq> 0" using assms by (auto simp: asm_geom_def)
qed

lemma on_piece_inside:
  assumes "asm_geom a" "piece_inside a begin data"
  defines "a' \<equiv> a\<lparr>completed_mask := snd (mask_fetch_or (completed_mask a) (begin div sub_block_size a))\<rparr>"
  shows "on_piece a m begin data =
     Some (slot_of a begin \<notin> done_slots a \<and> pending_count a = 1,
           if slot_of a begin \<in> done_slots a then a' else a'\<lparr>pending_count := pending_count a - 1\<rparr>,
           memcpy m (the (base a) + unat begin) data)"
    and "asm_geom a'" and "done_slots a' = insert (slot_of a begin) (done_slots a)"
proof -
  note f = piece_inside_facts[OF assms(1,2)]
  have room: "unat (begin div sub_block_size a) < 32 * length (completed_mask a)"
    using assms(1) f(2,3) by (simp add: asm_geom_def)
  then have w: "unat (begin div sub_block_size a div 32) < length (completed_mask a)"
    by (subst unat_div) (simp add: less_mult_imp_div_less mult.commute)
  have old: "fst (mask_fetch_or (completed_mask a) (begin div sub_block_size a)) = 0
      \<longleftrightarrow> slot_of a begin \<notin> done_slots a"
    using cm.old_flag[OF room] f(3) by (simp add: done_slots_def)
  show "on_piece a m begin data =
     Some (slot_of a begin \<notin> done_slots a \<and> pending_count a = 1,
           if slot_of a begin \<in> done_slots a then a' else a'\<lparr>pending_count := pending_count a - 1\<rparr>,
           memcpy m (the (base a) + unat begin) data)"
    using f(1,4) w old
    by (auto simp: on_piece_def Let_def pending_fetch_sub_def a'_def split: prod.splits)
  show d: "done_slots a' = insert (slot_of a begin) (done_slots a)"
    using cm.set_flag[OF room] f(3) by (simp add: done_slots_def a'_def)
  have "length (completed_mask a') = length (completed_mask a)"
    using cm.keep_room by (simp add: a'_def)
  then show "asm_geom a'"
    using assms(1) f(2) d unfolding asm_geom_def by (simp only: a'_def) auto
qed

lemma finite_done [simp]: "finite (done_slots a)"
  by (simp add: done_slots_def)

lemma done_slots_pending [simp]:
  "done_slots (a\<lparr>pending_count := p\<rparr>) = done_slots a"
  "asm_geom (a\<lparr>pending_count := p\<rparr>) = asm_geom a"
  by (simp_all add: done_slots_def asm_geom_def)

lemma card_done_le: "asm_geom a \<Longrightarrow> card (done_slots a) \<le> unat (total_slots a)"
  using card_mono[of "{..<unat (total_slots a)}" "done_slots a"] asm_geom_bounded by simp

lemma all_done_iff:
  "asm_geom a \<Longrightarrow> card (done_slots a) = unat (total_slots a) \<longleftrightarrow> done_slots a = {..<unat (total_slots a)}"
  using card_subset_eq[of "{..<unat (total_slots a)}" "done_slots a"] asm_geom_bounded by auto

lemma mask_slots_zero [simp]: "mask_slots (replicate n 0) = {}"
  by (auto simp: mask_slots_def)

lemma ceil_words:
  assumes "unat x + unat s \<le> 2 ^ 32" "0 < unat s"
  shows "unat ((x + s - 1) div (s :: u32)) = (unat x + unat s - 1) div unat s"
proof -
  have "unat (s - 1) = unat s - 1" using assms by (intro unat_dec) auto
  moreover have "unat (x + (s - 1)) = unat x + unat (s - 1)"
    using assms calculation by (subst unat_add_lem[THEN iffD1]) simp_all
  ultimately show ?thesis using assms by (simp add: unat_div add_diff_eq)
qed

lemma assembler_init_inv:
  assumes "0 < unat sbs" "unat cs + unat sbs \<le> 2 ^ 32 - 31"
  obtains a where "assembler_init b cs sbs = Some a" "asm_inv a" "done_slots a = {}"
    "base a = b" "chunk_size a = cs" "sub_block_size a = sbs"
proof -
  define total where "total = (cs + sbs - 1) div sbs"
  have tot: "unat total = (unat cs + unat sbs - 1) div unat sbs"
    unfolding total_def using assms by (intro ceil_words) auto
  have "unat total \<le> unat cs + unat sbs - 1" unfolding tot by (rule div_le_dividend)
  then have "unat (total + 31) = unat total + 31"
    using assms by (subst unat_add_lem[THEN iffD1]) simp_all
  then have w: "unat ((total + 31) div 32) = (unat total + 31) div 32"
    by (simp add: unat_div)
  have "unat total \<le> 32 * ((unat total + 31) div 32)" by arith
  then show thesis
    using assms tot w
    by (intro that[of "the (assembler_init b cs sbs)"])
      (auto simp: assembler_init_def Let_def asm_inv_def asm_geom_def done_slots_def total_def[symmetric])
qed

subsection \<open>Several I/O threads on one chunk\<close>

text \<open>
  \<open>IOWorkerPool\<close> hashes \<open>(chunk, sub-block)\<close> to a worker, so pieces of one chunk are written by
  several threads at once. One call of \<open>on_piece\<close> is three steps: the checks and the copy, the
  \<open>fetch_or\<close>, and, for the first writer of a slot, the \<open>fetch_sub\<close>. Threads interleave between
  these steps in any order.
\<close>

datatype piece_pc = At_check | At_mark | At_count | Returned bool

record piece_call =
  pc_begin :: u32
  pc_data :: bytes
  pc_at :: piece_pc

definition call_step ::
    "ChunkAssembler \<Rightarrow> store \<Rightarrow> piece_call \<Rightarrow> (ChunkAssembler \<times> store \<times> piece_call) option" where
  "call_step a m t =
     (case pc_at t of
        At_check \<Rightarrow>
          if sub_block_size a = 0 then None
          else if piece_rejected a (pc_begin t) (pc_data t) then Some (a, m, t\<lparr>pc_at := Returned False\<rparr>)
          else Some (a, memcpy m (the (base a) + unat (pc_begin t)) (pc_data t), t\<lparr>pc_at := At_mark\<rparr>)
      | At_mark \<Rightarrow>
          let slot = pc_begin t div sub_block_size a
          in if unat (slot div 32) \<ge> length (completed_mask a) then None
             else let (old, cmask) = mask_fetch_or (completed_mask a) slot
                  in Some (a\<lparr>completed_mask := cmask\<rparr>, m,
                           t\<lparr>pc_at := (if old = 0 then At_count else Returned False)\<rparr>)
      | At_count \<Rightarrow>
          let (before, a') = pending_fetch_sub a
          in Some (a', m, t\<lparr>pc_at := Returned (before = 1)\<rparr>)
      | Returned r \<Rightarrow> Some (a, m, t))"

type_synonym assembly = "ChunkAssembler \<times> store \<times> piece_call list"

inductive assembly_run :: "assembly \<Rightarrow> assembly \<Rightarrow> bool" where
  run_start: "assembly_run s s"
| run_step: "assembly_run s (a, m, ts) \<Longrightarrow> i < length ts \<Longrightarrow> call_step a m (ts ! i) = Some (a', m', t')
    \<Longrightarrow> assembly_run s (a', m', ts[i := t'])"

definition call_of :: "u32 \<Rightarrow> bytes \<Rightarrow> piece_call" where
  "call_of begin data = \<lparr>pc_begin = begin, pc_data = data, pc_at = At_check\<rparr>"

text \<open>A thread that runs alone computes exactly \<open>on_piece\<close>, undefined behaviour included.\<close>

primrec call_alone :: "nat \<Rightarrow> ChunkAssembler \<times> store \<times> piece_call \<Rightarrow> (ChunkAssembler \<times> store \<times> piece_call) option" where
  "call_alone 0 s = Some s"
| "call_alone (Suc n) s = (case s of (a, m, t) \<Rightarrow> Option.bind (call_step a m t) (call_alone n))"

lemma call_alone_on_piece:
  "call_alone 3 (a, m, call_of begin data) =
     map_option (\<lambda>(r, a', m'). (a', m', (call_of begin data)\<lparr>pc_at := Returned r\<rparr>)) (on_piece a m begin data)"
  by (simp add: numeral_3_eq_3 call_step_def call_of_def on_piece_def Let_def pending_fetch_sub_def
      split: prod.split)

text \<open>Executes a given interleaving: the list says which call takes the next step.\<close>

fun run_schedule :: "nat list \<Rightarrow> assembly \<Rightarrow> assembly option" where
  "run_schedule [] s = Some s"
| "run_schedule (i # is) (a, m, ts) =
     (if i < length ts
      then case call_step a m (ts ! i) of None \<Rightarrow> None
           | Some (a', m', t') \<Rightarrow> run_schedule is (a', m', ts[i := t'])
      else None)"

lemma run_schedule_run:
  "run_schedule is s = Some s' \<Longrightarrow> assembly_run s0 s \<Longrightarrow> assembly_run s0 s'"
proof (induction "is" arbitrary: s)
  case (Cons i "is")
  obtain a m ts where s: "s = (a, m, ts)" by (cases s) auto
  from Cons.prems(1) obtain a' m' t' where st: "i < length ts" "call_step a m (ts ! i) = Some (a', m', t')"
      "run_schedule is (a', m', ts[i := t']) = Some s'"
    by (auto simp: s split: if_splits option.splits)
  show ?case
    using Cons.IH[OF st(3)] run_step[OF _ st(1,2)] Cons.prems(2) by (simp add: s)
qed simp

text \<open>The pieces of a chunk with contents \<open>chunk\<close>: each holds one whole sub-block of it.\<close>

definition genuine_piece :: "ChunkAssembler \<Rightarrow> bytes \<Rightarrow> u32 \<Rightarrow> bytes \<Rightarrow> bool" where
  "genuine_piece a chunk begin data \<longleftrightarrow> base a \<noteq> None \<and> length chunk = unat (chunk_size a)
     \<and> unat begin mod unat (sub_block_size a) = 0 \<and> unat begin < length chunk
     \<and> data = take (unat (sub_block_size a)) (drop (unat begin) chunk)"

definition holds_range :: "store \<Rightarrow> nat \<Rightarrow> bytes \<Rightarrow> nat \<Rightarrow> nat \<Rightarrow> bool" where
  "holds_range m b chunk lo hi \<longleftrightarrow> (\<forall>x. lo \<le> x \<and> x < hi \<and> x < length chunk \<longrightarrow> m (b + x) = chunk ! x)"

definition holds_slot :: "ChunkAssembler \<Rightarrow> store \<Rightarrow> bytes \<Rightarrow> nat \<Rightarrow> bool" where
  "holds_slot a m chunk s \<longleftrightarrow>
     holds_range m (the (base a)) chunk (s * unat (sub_block_size a)) (Suc s * unat (sub_block_size a))"

abbreviation calls_at :: "piece_pc \<Rightarrow> piece_call list \<Rightarrow> nat" where
  "calls_at p ts \<equiv> length (filter (\<lambda>t. pc_at t = p) ts)"

definition run_inv :: "bytes \<Rightarrow> assembly \<Rightarrow> bool" where
  "run_inv chunk s \<longleftrightarrow> (case s of (a, m, ts) \<Rightarrow>
     asm_geom a
     \<and> (\<forall>t \<in> set ts. genuine_piece a chunk (pc_begin t) (pc_data t))
     \<and> unat (pending_count a) + card (done_slots a) = unat (total_slots a) + calls_at At_count ts
     \<and> calls_at (Returned True) ts = (if pending_count a = 0 then 1 else 0)
     \<and> (\<forall>t \<in> set ts. pc_at t \<noteq> At_check \<longrightarrow> holds_slot a m chunk (slot_of a (pc_begin t)))
     \<and> (\<forall>s \<in> done_slots a. holds_slot a m chunk s)
     \<and> (\<forall>t \<in> set ts. pc_at t \<noteq> At_check \<and> pc_at t \<noteq> At_mark \<longrightarrow> slot_of a (pc_begin t) \<in> done_slots a))"

lemma genuine_inside:
  assumes "asm_geom a" "genuine_piece a chunk begin data"
  shows "piece_inside a begin data"
  using assms by (auto simp: genuine_piece_def piece_inside_def asm_geom_def)

lemma memcpy_genuine:
  fixes m :: store
  assumes "asm_geom a" "genuine_piece a chunk begin data"
  defines "m' \<equiv> memcpy m (the (base a) + unat begin) data"
  shows "holds_slot a m' chunk (slot_of a begin)"
    and "holds_slot a m chunk s \<Longrightarrow> holds_slot a m' chunk s"
proof -
  let ?sb = "unat (sub_block_size a)"
  have al: "slot_of a begin * ?sb = unat begin"
    using assms(2) by (simp add: slot_of_def genuine_piece_def mod_eq_0_iff_dvd)
  have val: "m' (the (base a) + x) = chunk ! x"
    if "unat begin \<le> x" "x < unat begin + ?sb" "x < length chunk" for x
    using assms(2) that by (auto simp: m'_def memcpy_def genuine_piece_def)
  have other: "m' (the (base a) + x) = m (the (base a) + x)"
    if "\<not> (unat begin \<le> x \<and> x < unat begin + ?sb \<and> x < length chunk)" for x
    using assms(2) that by (auto simp: m'_def memcpy_def genuine_piece_def)
  show "holds_slot a m' chunk (slot_of a begin)"
    using val al by (simp add: holds_slot_def holds_range_def)
  show "holds_slot a m' chunk s" if "holds_slot a m chunk s"
    using that val other unfolding holds_slot_def holds_range_def by metis
qed

text \<open>Steps of a call with a genuine piece, one per atomic operation.\<close>

lemma call_step_genuine:
  assumes "asm_geom a" "genuine_piece a chunk (pc_begin t) (pc_data t)"
  shows "pc_at t = At_check \<Longrightarrow> call_step a m t =
           Some (a, memcpy m (the (base a) + unat (pc_begin t)) (pc_data t), t\<lparr>pc_at := At_mark\<rparr>)"
    and "pc_at t = At_mark \<Longrightarrow> \<exists>a'. call_step a m t =
           Some (a', m, t\<lparr>pc_at := (if slot_of a (pc_begin t) \<in> done_slots a then Returned False else At_count)\<rparr>)
         \<and> a' = a\<lparr>completed_mask := completed_mask a'\<rparr> \<and> asm_geom a'
         \<and> done_slots a' = insert (slot_of a (pc_begin t)) (done_slots a)"
    and "pc_at t = At_count \<Longrightarrow> call_step a m t =
           Some (a\<lparr>pending_count := pending_count a - 1\<rparr>, m, t\<lparr>pc_at := Returned (pending_count a = 1)\<rparr>)"
    and "pc_at t = Returned r \<Longrightarrow> call_step a m t = Some (a, m, t)"
proof -
  note ins = genuine_inside[OF assms]
  note f = piece_inside_facts[OF assms(1) ins] and g = on_piece_inside[OF assms(1) ins]
  show "pc_at t = At_check \<Longrightarrow> call_step a m t =
      Some (a, memcpy m (the (base a) + unat (pc_begin t)) (pc_data t), t\<lparr>pc_at := At_mark\<rparr>)"
    using f by (simp add: call_step_def)
  have room: "unat (pc_begin t div sub_block_size a) < 32 * length (completed_mask a)"
    using assms(1) f(2,3) by (simp add: asm_geom_def)
  then have w: "unat (pc_begin t div sub_block_size a div 32) < length (completed_mask a)"
    by (subst unat_div) (simp add: less_mult_imp_div_less mult.commute)
  have old: "fst (mask_fetch_or (completed_mask a) (pc_begin t div sub_block_size a)) = 0
      \<longleftrightarrow> slot_of a (pc_begin t) \<notin> done_slots a"
    using cm.old_flag[OF room] f(3) by (simp add: done_slots_def)
  show "\<exists>a'. call_step a m t =
           Some (a', m, t\<lparr>pc_at := (if slot_of a (pc_begin t) \<in> done_slots a then Returned False else At_count)\<rparr>)
         \<and> a' = a\<lparr>completed_mask := completed_mask a'\<rparr> \<and> asm_geom a'
         \<and> done_slots a' = insert (slot_of a (pc_begin t)) (done_slots a)" if "pc_at t = At_mark"
    using that old w g(2,3)
    by (intro exI[of _ "a\<lparr>completed_mask := snd (mask_fetch_or (completed_mask a) (pc_begin t div sub_block_size a))\<rparr>"])
      (auto simp: call_step_def Let_def split: prod.splits)
qed (simp_all add: call_step_def pending_fetch_sub_def)

lemma count_update:
  assumes "i < length ts" "pc_at (ts ! i) = p" "pc_at t = q"
  shows "calls_at r (ts[i := t]) + (if p = r then 1 else 0) = calls_at r ts + (if q = r then 1 else 0)"
  using filter_update_count[of i ts "\<lambda>t. pc_at t = r" t] assms by simp

lemma run_invI:
  assumes "asm_geom a"
    and "\<And>t. t \<in> set ts \<Longrightarrow> genuine_piece a chunk (pc_begin t) (pc_data t)"
    and "unat (pending_count a) + card (done_slots a) = unat (total_slots a) + calls_at At_count ts"
    and "calls_at (Returned True) ts = (if pending_count a = 0 then 1 else 0)"
    and "\<And>t. t \<in> set ts \<Longrightarrow> pc_at t \<noteq> At_check \<Longrightarrow> holds_slot a m chunk (slot_of a (pc_begin t))"
    and "\<And>s. s \<in> done_slots a \<Longrightarrow> holds_slot a m chunk s"
    and "\<And>t. t \<in> set ts \<Longrightarrow> pc_at t \<noteq> At_check \<Longrightarrow> pc_at t \<noteq> At_mark \<Longrightarrow> slot_of a (pc_begin t) \<in> done_slots a"
  shows "run_inv chunk (a, m, ts)"
  using assms unfolding run_inv_def prod.case by blast

lemma run_invD:
  assumes "run_inv chunk (a, m, ts)"
  shows "asm_geom a"
    and "\<And>t. t \<in> set ts \<Longrightarrow> genuine_piece a chunk (pc_begin t) (pc_data t)"
    and "unat (pending_count a) + card (done_slots a) = unat (total_slots a) + calls_at At_count ts"
    and "calls_at (Returned True) ts = (if pending_count a = 0 then 1 else 0)"
    and "\<And>t. t \<in> set ts \<Longrightarrow> pc_at t \<noteq> At_check \<Longrightarrow> holds_slot a m chunk (slot_of a (pc_begin t))"
    and "\<And>s. s \<in> done_slots a \<Longrightarrow> holds_slot a m chunk s"
    and "\<And>t. t \<in> set ts \<Longrightarrow> pc_at t \<noteq> At_check \<Longrightarrow> pc_at t \<noteq> At_mark \<Longrightarrow> slot_of a (pc_begin t) \<in> done_slots a"
  using assms unfolding run_inv_def prod.case by blast+

lemma in_updated: "x \<in> set (xs[i := y]) \<Longrightarrow> x = y \<or> x \<in> set xs"
  using set_update_subset_insert[of xs i y] by blast

lemma run_inv_copy:
  assumes inv: "run_inv chunk (a, m, ts)" and i: "i < length ts" and pc: "pc_at (ts ! i) = At_check"
    and gen: "genuine_piece a chunk (pc_begin (ts ! i)) (pc_data (ts ! i))"
  shows "run_inv chunk (a, memcpy m (the (base a) + unat (pc_begin (ts ! i))) (pc_data (ts ! i)),
           ts[i := (ts ! i)\<lparr>pc_at := At_mark\<rparr>])"
proof -
  note d = run_invD[OF inv] and w = memcpy_genuine[OF run_invD(1)[OF inv] gen, where m = m]
  note c = count_update[OF i pc, of "(ts ! i)\<lparr>pc_at := At_mark\<rparr>" At_mark]
  show ?thesis
  proof (rule run_invI)
    show "calls_at (Returned True) (ts[i := (ts ! i)\<lparr>pc_at := At_mark\<rparr>]) = (if pending_count a = 0 then 1 else 0)"
      using c[of "Returned True"] d(4) by simp
    show "unat (pending_count a) + card (done_slots a)
        = unat (total_slots a) + calls_at At_count (ts[i := (ts ! i)\<lparr>pc_at := At_mark\<rparr>])"
      using c[of At_count] d(3) by simp
  qed (use d gen w in \<open>auto dest!: in_updated\<close>)
qed

lemma run_inv_mark:
  assumes inv: "run_inv chunk (a, m, ts)" and i: "i < length ts" and pc: "pc_at (ts ! i) = At_mark"
    and b: "b = a\<lparr>completed_mask := completed_mask b\<rparr>" "asm_geom b"
      "done_slots b = insert (slot_of a (pc_begin (ts ! i))) (done_slots a)"
  defines "q \<equiv> if slot_of a (pc_begin (ts ! i)) \<in> done_slots a then Returned False else At_count"
  shows "run_inv chunk (b, m, ts[i := (ts ! i)\<lparr>pc_at := q\<rparr>])"
proof -
  note d = run_invD[OF inv]
  obtain cmk where bb: "b = a\<lparr>completed_mask := cmk\<rparr>" using b(1) by blast
  then have [simp]: "base b = base a" "sub_block_size b = sub_block_size a" "chunk_size b = chunk_size a"
    "total_slots b = total_slots a" "pending_count b = pending_count a"
    by simp_all
  have [simp]: "slot_of b = slot_of a" "genuine_piece b = genuine_piece a" "holds_slot b = holds_slot a"
    by (simp_all add: fun_eq_iff slot_of_def genuine_piece_def holds_slot_def)
  have mem: "ts ! i \<in> set ts" using i by simp
  note c = count_update[OF i pc, of "(ts ! i)\<lparr>pc_at := q\<rparr>" q]
  show ?thesis
  proof (rule run_invI)
    show "calls_at (Returned True) (ts[i := (ts ! i)\<lparr>pc_at := q\<rparr>]) = (if pending_count b = 0 then 1 else 0)"
      using c[of "Returned True"] d(4) by (simp add: q_def)
    show "unat (pending_count b) + card (done_slots b)
        = unat (total_slots b) + calls_at At_count (ts[i := (ts ! i)\<lparr>pc_at := q\<rparr>])"
      using c[of At_count] d(3) b(3) by (simp add: q_def insert_absorb split: if_splits)
  qed (use d(2,5,6,7) mem pc b(2,3) in \<open>auto dest!: in_updated\<close>)
qed

lemma run_inv_count:
  assumes inv: "run_inv chunk (a, m, ts)" and i: "i < length ts" and pc: "pc_at (ts ! i) = At_count"
  defines "q \<equiv> Returned (pending_count a = 1)"
  shows "run_inv chunk (a\<lparr>pending_count := pending_count a - 1\<rparr>, m, ts[i := (ts ! i)\<lparr>pc_at := q\<rparr>])"
proof -
  note d = run_invD[OF inv]
  let ?b = "a\<lparr>pending_count := pending_count a - 1\<rparr>"
  have mem: "ts ! i \<in> set ts" using i by simp
  have eq: "slot_of ?b = slot_of a" "genuine_piece ?b = genuine_piece a" "holds_slot ?b = holds_slot a"
    by (simp_all add: fun_eq_iff slot_of_def genuine_piece_def holds_slot_def)
  note c = count_update[OF i pc, of "(ts ! i)\<lparr>pc_at := q\<rparr>" q]
  have pos: "0 < calls_at At_count ts"
    using mem pc by (auto simp: filter_empty_conv)
  then have nz: "pending_count a \<noteq> 0"
    using d(3) card_done_le[OF d(1)] by auto
  then have p: "Suc (unat (pending_count a - 1)) = unat (pending_count a)"
    by (simp add: unat_dec unat_gt_0)
  have p1: "pending_count a - 1 = 0 \<longleftrightarrow> pending_count a = 1" by auto
  show ?thesis
  proof (rule run_invI)
    show "calls_at (Returned True) (ts[i := (ts ! i)\<lparr>pc_at := q\<rparr>]) = (if pending_count ?b = 0 then 1 else 0)"
      using c[of "Returned True"] d(4) nz by (simp add: q_def p1 split: if_splits)
    show "unat (pending_count ?b) + card (done_slots ?b)
        = unat (total_slots ?b) + calls_at At_count (ts[i := (ts ! i)\<lparr>pc_at := q\<rparr>])"
      using c[of At_count] d(3) p by (simp add: q_def)
  qed (use d(1,2,5,6,7) mem pc in \<open>auto simp: eq dest!: in_updated\<close>)
qed

lemma run_inv_step:
  assumes inv: "run_inv chunk (a, m, ts)" and i: "i < length ts"
    and st: "call_step a m (ts ! i) = Some (a', m', t')"
  shows "run_inv chunk (a', m', ts[i := t'])"
proof -
  have gen: "genuine_piece a chunk (pc_begin (ts ! i)) (pc_data (ts ! i))"
    using run_invD(2)[OF inv] i by simp
  note steps = call_step_genuine[OF run_invD(1)[OF inv] gen, where m = m]
  show ?thesis
  proof (cases "pc_at (ts ! i)")
    case At_check
    then show ?thesis using run_inv_copy[OF inv i _ gen] steps(1) st by simp
  next
    case At_mark
    then show ?thesis using run_inv_mark[OF inv i] steps(2) st by (metis option.inject prod.inject)
  next
    case At_count
    then show ?thesis using run_inv_count[OF inv i] steps(3) st by simp
  next
    case (Returned r)
    then show ?thesis using steps(4) st inv by simp
  qed
qed

lemma call_step_static:
  assumes "call_step a m t = Some (a', m', t')"
  shows "base a' = base a" "chunk_size a' = chunk_size a" "sub_block_size a' = sub_block_size a"
    "total_slots a' = total_slots a" "pc_begin t' = pc_begin t"
  using assms
  by (auto simp: call_step_def Let_def pending_fetch_sub_def split: piece_pc.splits if_splits prod.splits)

lemma run_static:
  assumes "assembly_run s s'" "s = (a0, m0, ts0)" "s' = (a, m, ts)"
  shows "base a = base a0 \<and> chunk_size a = chunk_size a0 \<and> sub_block_size a = sub_block_size a0
     \<and> total_slots a = total_slots a0 \<and> map pc_begin ts = map pc_begin ts0"
  using assms
proof (induction arbitrary: a m ts rule: assembly_run.induct)
  case (run_step s b n us i b' n' t')
  then show ?case
    using call_step_static[OF run_step.hyps(3)] by (auto simp: map_update) (metis list_update_id map_update nth_map)
qed simp

lemma run_inv_run:
  assumes "assembly_run s s'" "run_inv chunk s"
  shows "run_inv chunk s'"
  using assms by induction (auto intro: run_inv_step)

lemma init_run_inv:
  assumes "asm_inv a" "done_slots a = {}" "chunk \<noteq> []" "length chunk = unat (chunk_size a)"
    and "\<And>p. p \<in> set ps \<Longrightarrow> genuine_piece a chunk (fst p) (snd p)"
  shows "run_inv chunk (a, m, map (\<lambda>p. call_of (fst p) (snd p)) ps)"
proof -
  have "0 < unat (chunk_size a)" using assms(3,4) by (cases chunk) auto
  then have "0 < unat (total_slots a)"
    using assms(1) ceil_div_gt[of 0 "unat (chunk_size a)" "unat (sub_block_size a)"]
    by (simp add: asm_inv_def asm_geom_def)
  then have "pending_count a \<noteq> 0" using assms(1,2) by (auto simp: asm_inv_def)
  then show ?thesis
    using assms by (intro run_invI) (auto simp: asm_inv_def call_of_def filter_empty_conv)
qed

lemma all_slots_held:
  assumes "asm_geom a" "\<And>s. s < unat (total_slots a) \<Longrightarrow> holds_slot a m chunk s"
    and "length chunk = unat (chunk_size a)" "x < length chunk"
  shows "m (the (base a) + x) = chunk ! x"
proof -
  let ?sb = "unat (sub_block_size a)"
  have sb: "0 < ?sb" using assms(1) by (simp add: asm_geom_def)
  have "x div ?sb < unat (total_slots a)"
    using assms ceil_div_gt[OF assms(4) sb] by (simp add: asm_geom_def)
  then have "holds_slot a m chunk (x div ?sb)" by (rule assms(2))
  moreover have "x div ?sb * ?sb \<le> x" "x < Suc (x div ?sb) * ?sb"
    using sb by (simp_all add: dividend_less_div_times add.commute)
  ultimately show ?thesis using assms(4) by (simp add: holds_slot_def holds_range_def)
qed

text \<open>Pieces handled one after the other, with the result of each call.\<close>

fun on_pieces :: "ChunkAssembler \<Rightarrow> store \<Rightarrow> (u32 \<times> bytes) list \<Rightarrow> (bool list \<times> ChunkAssembler \<times> store) option" where
  "on_pieces a m [] = Some ([], a, m)"
| "on_pieces a m ((begin, data) # ps) =
     (case on_piece a m begin data of None \<Rightarrow> None
      | Some (r, a', m') \<Rightarrow>
          (case on_pieces a' m' ps of None \<Rightarrow> None | Some (rs, a'', m'') \<Rightarrow> Some (r # rs, a'', m'')))"

lemma on_piece_complete:
  assumes "asm_inv a" "is_complete a" "piece_inside a begin data"
  obtains a' m' where "on_piece a m begin data = Some (False, a', m')" "asm_inv a'" "is_complete a'"
    "base a' = base a" "chunk_size a' = chunk_size a"
proof -
  have g: "asm_geom a" using assms(1) by (simp add: asm_inv_def)
  note h1 = on_piece_inside(1)[OF g assms(3), where m = m] and h = on_piece_inside(2,3)[OF g assms(3)]
  have "done_slots a = {..<unat (total_slots a)}"
    using assms(1,2) by (simp add: asm_inv_def is_complete_def flip: all_done_iff[OF g])
  then have s: "slot_of a begin \<in> done_slots a" using piece_inside_facts(2)[OF g assms(3)] by simp
  show thesis
    using assms(1,2) h1 h s
    by (intro that[of "a\<lparr>completed_mask := snd (mask_fetch_or (completed_mask a) (begin div sub_block_size a))\<rparr>"
          "memcpy m (the (base a) + unat begin) data"])
      (simp_all add: asm_inv_def is_complete_def insert_absorb)
qed

subsection \<open>Properties\<close>

text \<open>C10. One piece inside the chunk is handled exactly: its bytes are copied to its place and
  nothing outside the chunk's region is touched, its slot is marked, the invariant (pending count =
  slots not yet marked) is kept, and the call reports completion exactly when this piece is the
  first for its slot and every slot is then marked.\<close>

theorem on_piece_exact:
  assumes "asm_inv a" "base a = Some b" "data \<noteq> []" "unat begin + length data \<le> unat (chunk_size a)"
  shows "\<exists>r a' m'. on_piece a m begin data = Some (r, a', m') \<and> asm_inv a'
     \<and> done_slots a' = insert (slot_of a begin) (done_slots a)
     \<and> (r \<longleftrightarrow> slot_of a begin \<notin> done_slots a \<and> done_slots a' = {..<unat (total_slots a)})
     \<and> (\<forall>x < length data. m' (b + unat begin + x) = data ! x)
     \<and> (\<forall>y. y < b + unat begin \<or> b + unat begin + length data \<le> y \<longrightarrow> m' y = m y)"
proof -
  have g: "asm_geom a" and p: "piece_inside a begin data"
    using assms by (auto simp: asm_inv_def piece_inside_def)
  note h1 = on_piece_inside(1)[OF g p, where m = m] and h = on_piece_inside[OF g p]
  have pend: "pending_count a \<noteq> 0" if "slot_of a begin \<notin> done_slots a"
  proof
    assume "pending_count a = 0"
    then have "done_slots a = {..<unat (total_slots a)}"
      using assms(1) by (simp add: asm_inv_def flip: all_done_iff[OF g])
    then show False using that piece_inside_facts(2)[OF g p] by simp
  qed
  have one: "pending_count a = 1 \<longleftrightarrow> unat (pending_count a) = 1"
    by (metis unat_1 word_unat_eq_iff)
  have full: "pending_count a = 1 \<longleftrightarrow> insert (slot_of a begin) (done_slots a) = {..<unat (total_slots a)}"
    if new: "slot_of a begin \<notin> done_slots a"
  proof -
    have "card (insert (slot_of a begin) (done_slots a)) = unat (total_slots a)
        \<longleftrightarrow> insert (slot_of a begin) (done_slots a) = {..<unat (total_slots a)}"
      using all_done_iff[OF h(2)] unfolding h(3) by simp
    moreover have "unat (pending_count a) + card (done_slots a) = unat (total_slots a)"
      using assms(1) by (simp only: asm_inv_def)
    then have "pending_count a = 1 \<longleftrightarrow> card (insert (slot_of a begin) (done_slots a)) = unat (total_slots a)"
      unfolding one card_insert_disjoint[OF finite_done new] by linarith
    ultimately show ?thesis by blast
  qed
  obtain c where c: "c = a\<lparr>completed_mask := snd (mask_fetch_or (completed_mask a) (begin div sub_block_size a))\<rparr>"
    by blast
  define r where "r \<longleftrightarrow> slot_of a begin \<notin> done_slots a \<and> pending_count a = 1"
  define a' where "a' = (if slot_of a begin \<in> done_slots a then c else c\<lparr>pending_count := pending_count a - 1\<rparr>)"
  define m' where "m' = memcpy m (b + unat begin) data"
  have res: "on_piece a m begin data = Some (r, a', m')"
    unfolding r_def a'_def m'_def c h1 using assms(2) by simp
  have d: "done_slots a' = insert (slot_of a begin) (done_slots a)"
    using h(3) by (simp add: a'_def flip: c)
  have cp: "pending_count c = pending_count a" "total_slots c = total_slots a" by (simp_all add: c)
  have cnt: "unat (pending_count a') + card (done_slots a') = unat (total_slots a)"
  proof (cases "slot_of a begin \<in> done_slots a")
    case True
    then show ?thesis using assms(1) d by (simp add: a'_def cp insert_absorb asm_inv_def)
  next
    case False
    then have "0 < unat (pending_count a)" using pend by (simp add: unat_gt_0)
    then show ?thesis using assms(1) d False pend by (simp add: a'_def unat_dec asm_inv_def)
  qed
  have "asm_geom a'" using h(2) by (simp add: a'_def flip: c)
  moreover have "total_slots a' = total_slots a" by (simp add: a'_def cp)
  ultimately have "asm_inv a'" using cnt by (simp only: asm_inv_def)
  moreover have "r \<longleftrightarrow> slot_of a begin \<notin> done_slots a \<and> done_slots a' = {..<unat (total_slots a)}"
    using full d by (auto simp: r_def)
  moreover have "\<forall>x < length data. m' (b + unat begin + x) = data ! x"
    "\<forall>y. y < b + unat begin \<or> b + unat begin + length data \<le> y \<longrightarrow> m' y = m y"
    by (auto simp: m'_def memcpy_def)
  ultimately show ?thesis using res d by blast
qed

text \<open>C9. The lock-free assembly is correct under every interleaving: with any number of I/O
  threads delivering whole sub-blocks of a chunk (duplicates included), stepped one atomic operation
  at a time in any order, no step is undefined, at most one call reports completion, when one has
  the mapped region holds the chunk byte for byte, and once every call has returned and every slot
  was delivered exactly one call has reported it.\<close>

theorem concurrent_assembly:
  assumes init: "assembler_init (Some b) (of_nat (length chunk)) sbs = Some a0"
    and sizes: "0 < unat sbs" "length chunk + unat sbs \<le> 2 ^ 32 - 31" "chunk \<noteq> []"
    and gen: "\<forall>p \<in> set ps. genuine_piece a0 chunk (fst p) (snd p)"
    and run: "assembly_run (a0, m0, map (\<lambda>p. call_of (fst p) (snd p)) ps) (a, m, ts)"
  shows "(\<forall>t \<in> set ts. call_step a m t \<noteq> None)
     \<and> calls_at (Returned True) ts \<le> 1
     \<and> (calls_at (Returned True) ts = 1 \<longrightarrow> (\<forall>x < length chunk. m (b + x) = chunk ! x))
     \<and> ((\<forall>t \<in> set ts. \<exists>r. pc_at t = Returned r)
        \<and> (\<forall>s < unat (total_slots a0). \<exists>p \<in> set ps. slot_of a0 (fst p) = s)
        \<longrightarrow> calls_at (Returned True) ts = 1)"
proof -
  have len: "unat (of_nat (length chunk) :: u32) = length chunk"
    using sizes by (simp add: unat_of_nat_u32)
  have sz: "unat (of_nat (length chunk) :: u32) + unat sbs \<le> 2 ^ 32 - 31"
    unfolding len by (rule sizes)
  obtain a1 where a1: "assembler_init (Some b) (of_nat (length chunk)) sbs = Some a1" "asm_inv a1"
      "done_slots a1 = {}" "base a1 = Some b" "chunk_size a1 = of_nat (length chunk)" "sub_block_size a1 = sbs"
    using assembler_init_inv[OF sizes(1) sz, of "Some b"] by blast
  then have a0: "a0 = a1" using init by simp
  have cl: "length chunk = unat (chunk_size a0)" using a1(5) len a0 by simp
  have i0: "run_inv chunk (a0, m0, map (\<lambda>p. call_of (fst p) (snd p)) ps)"
    unfolding a0 by (rule init_run_inv) (use a1(2,3) sizes(3) gen cl a0 in simp_all)
  note d = run_invD[OF run_inv_run[OF run i0]] and st = run_static[OF run refl refl]
  have no_ub: "\<forall>t \<in> set ts. call_step a m t \<noteq> None"
  proof
    fix t assume "t \<in> set ts"
    then show "call_step a m t \<noteq> None"
      using call_step_genuine[OF d(1) d(2)[of t], where m = m] by (cases "pc_at t") auto
  qed
  have full: "done_slots a = {..<unat (total_slots a)}" if "pending_count a = 0"
    using that d(3) card_done_le[OF d(1)] by (intro all_done_iff[OF d(1), THEN iffD1]) simp
  have one: "calls_at (Returned True) ts = 1 \<longleftrightarrow> pending_count a = 0" "calls_at (Returned True) ts \<le> 1"
    using d(4) by simp_all
  have content: "\<forall>x < length chunk. m (b + x) = chunk ! x" if "pending_count a = 0"
  proof (intro allI impI)
    fix x assume "x < length chunk"
    then have "m (the (base a) + x) = chunk ! x"
      using full[OF that] d(6) cl st by (intro all_slots_held[OF d(1)]) simp_all
    then show "m (b + x) = chunk ! x" using st a1(4) a0 by simp
  qed
  have fin: "pending_count a = 0"
    if ret: "\<forall>t \<in> set ts. \<exists>r. pc_at t = Returned r"
      and cov: "\<forall>s < unat (total_slots a0). \<exists>p \<in> set ps. slot_of a0 (fst p) = s"
  proof -
    have "s \<in> done_slots a" if s: "s < unat (total_slots a)" for s
    proof -
      obtain p where p: "p \<in> set ps" "slot_of a0 (fst p) = s" using cov s st by auto
      have "map pc_begin ts = map fst ps" using st by (simp add: call_of_def comp_def)
      then have "fst p \<in> set (map pc_begin ts)" using p(1) by simp
      then obtain t where t: "t \<in> set ts" "pc_begin t = fst p" by auto
      then obtain r where "pc_at t = Returned r" using ret by blast
      then have "slot_of a (pc_begin t) \<in> done_slots a" using d(7)[OF t(1)] by simp
      then show ?thesis using p(2) st t(2) by (simp add: slot_of_def)
    qed
    then have "done_slots a = {..<unat (total_slots a)}" using asm_geom_bounded[OF d(1)] by blast
    moreover have "calls_at At_count ts = 0" using ret by (force simp: filter_empty_conv)
    ultimately show ?thesis using d(3) by (simp add: unat_eq_zero)
  qed
  show ?thesis using no_ub one content fin by blast
qed

definition example_asm :: ChunkAssembler where
  "example_asm = the (assembler_init (Some 100) 3 2)"

theorem on_piece_exact_witness:
  "\<exists>r a' m'. on_piece example_asm (\<lambda>_. 0) 2 [7] = Some (r, a', m') \<and> asm_inv a'
     \<and> done_slots a' = insert (slot_of example_asm 2) (done_slots example_asm) \<and> m' (100 + 2) = 7"
proof -
  obtain a where a: "assembler_init (Some 100) 3 2 = Some a" "asm_inv a" "base a = Some 100" "chunk_size a = 3"
    using assembler_init_inv[of 2 3 "Some 100"] by auto
  have e: "example_asm = a" by (simp add: example_asm_def a(1))
  show ?thesis
    using on_piece_exact[of example_asm 100 "[7]" 2 "\<lambda>_. 0"] a(2,3,4) unfolding e by fastforce
qed

theorem concurrent_assembly_witness:
  "\<exists>a m ts. run_schedule [0, 1, 2, 1, 0, 2, 0, 1, 2]
       (example_asm, \<lambda>_. 0, map (\<lambda>p. call_of (fst p) (snd p)) [(0, [1, 2]), (2, [3]), (2, [3])]) = Some (a, m, ts)
     \<and> calls_at (Returned True) ts = 1 \<and> (\<forall>x < 3. m (100 + x) = [1, 2, 3] ! x)"
proof -
  define ps :: "(u32 \<times> bytes) list" where "ps = [(0, [1, 2]), (2, [3]), (2, [3])]"
  define s where "s = run_schedule [0, 1, 2, 1, 0, 2, 0, 1, 2]
      (example_asm, \<lambda>_. 0, map (\<lambda>p. call_of (fst p) (snd p)) ps)"
  have pcs: "\<not> Option.is_none s" "map pc_at (snd (snd (the s))) = [Returned False, Returned True, Returned False]"
    unfolding s_def ps_def by code_simp+
  then obtain a m ts where r: "s = Some (a, m, ts)" by (cases s) auto
  then have at: "map pc_at ts = [Returned False, Returned True, Returned False]" using pcs by simp
  have run: "assembly_run (example_asm, \<lambda>_. 0, map (\<lambda>p. call_of (fst p) (snd p)) ps) (a, m, ts)"
    using run_schedule_run[OF _ run_start] r unfolding s_def by blast
  have init: "assembler_init (Some 100) (of_nat (length [1 :: u8, 2, 3])) 2 = Some example_asm"
    by code_simp
  have gen: "\<forall>p \<in> set ps. genuine_piece example_asm [1, 2, 3] (fst p) (snd p)"
    unfolding ps_def by code_simp
  have "calls_at (Returned True) ts = length (filter (\<lambda>q. q = Returned True) (map pc_at ts))"
    by (simp add: filter_map comp_def)
  then have one: "calls_at (Returned True) ts = 1" by (simp add: at)
  have "\<forall>x < length [1 :: u8, 2, 3]. m (100 + x) = [1, 2, 3] ! x"
    using concurrent_assembly[OF init _ _ _ gen run] one by simp
  then show ?thesis using r one unfolding s_def ps_def by simp
qed

text \<open>The range test of \<open>on_piece\<close> adds \<open>begin\<close> and \<open>len\<close> in 32 bits and so does not keep
  hostile offsets out: for every chunk of at most 1 MiB, one byte at offset 0xFFFFFFFF passes the
  test, and the call then indexes \<open>completed_mask_\<close> outside its bounds.\<close>

theorem range_check_wraps:
  assumes "assembler_init (Some b) cs SUB_BLOCK_SIZE = Some a" "unat cs \<le> 2 ^ 20"
  shows "\<not> piece_rejected a 0xFFFFFFFF [x] \<and> on_piece a m 0xFFFFFFFF [x] = None"
proof -
  have sb: "unat SUB_BLOCK_SIZE = 16384" by (simp add: SUB_BLOCK_SIZE_def)
  obtain a' where a': "assembler_init (Some b) cs SUB_BLOCK_SIZE = Some a'" "base a' = Some b" "chunk_size a' = cs"
      "sub_block_size a' = SUB_BLOCK_SIZE"
    using assembler_init_inv[of SUB_BLOCK_SIZE cs "Some b"] sb assms(2) by auto
  have aa: "a' = a" using a'(1) assms(1) by simp
  let ?t = "(cs + SUB_BLOCK_SIZE - 1) div SUB_BLOCK_SIZE"
  have t: "unat ?t \<le> 64"
    using assms(2) sb by (subst ceil_words) (auto simp: div_le_mono intro: order_trans[OF div_le_mono[of _ "2 ^ 20 + 16383" 16384]])
  have "unat (?t + 31) = unat ?t + 31"
    using t by (subst unat_add_lem[THEN iffD1]) simp_all
  then have "length (completed_mask a) \<le> 2"
    using assms(1) t sb by (auto simp: assembler_init_def Let_def unat_div split: if_splits)
  moreover have "unat ((0xFFFFFFFF :: u32) div SUB_BLOCK_SIZE div 32) = 8191"
    by (simp add: SUB_BLOCK_SIZE_def unat_div)
  moreover have z: "(0xFFFFFFFF :: u32) + of_nat (length [x]) = 0" by code_simp
  have rej: "\<not> piece_rejected a 0xFFFFFFFF [x]"
    unfolding piece_rejected_def z using a'(2) by (simp add: aa)
  ultimately show ?thesis
    using a'(4) rej by (simp add: aa on_piece_def Let_def SUB_BLOCK_SIZE_def)
qed

theorem range_check_wraps_witness:
  "\<not> piece_rejected (the (assembler_init (Some 0) 65536 SUB_BLOCK_SIZE)) 0xFFFFFFFF [1]"
  using range_check_wraps[of 0 65536 "the (assembler_init (Some 0) 65536 SUB_BLOCK_SIZE)" 1]
  by (simp add: assembler_init_def SUB_BLOCK_SIZE_def Let_def)

text \<open>An empty piece that starts at the end of a chunk is accepted and counted: when the
  chunk is a whole number of sub-blocks (not a multiple of 32 of them) and one slot is outstanding,
  the call reports the chunk complete although that slot was never delivered.\<close>

theorem empty_piece_completes:
  assumes "asm_inv a" "base a = Some b" "unat (chunk_size a) = unat (total_slots a) * unat (sub_block_size a)"
    and "unat (total_slots a) mod 32 \<noteq> 0" "pending_count a = 1"
  shows "\<exists>a' s. on_piece a m (chunk_size a) [] = Some (True, a', m)
     \<and> s < unat (total_slots a) \<and> s \<notin> done_slots a'"
proof -
  have g: "asm_geom a" using assms(1) by (simp add: asm_inv_def)
  then have sb: "sub_block_size a \<noteq> 0" "0 < unat (sub_block_size a)" by (auto simp: asm_geom_def)
  have slot: "unat (chunk_size a div sub_block_size a) = unat (total_slots a)"
    using assms(3) sb by (simp add: unat_div)
  have le: "unat (total_slots a) \<le> 32 * length (completed_mask a)" 
    using g unfolding asm_geom_def by (elim conjE)
  moreover have "unat (total_slots a) \<noteq> 32 * length (completed_mask a)" using assms(4) by auto
  ultimately have room: "unat (chunk_size a div sub_block_size a) < 32 * length (completed_mask a)"
    using slot by linarith
  then have w: "unat (chunk_size a div sub_block_size a div 32) < length (completed_mask a)"
    by (subst unat_div) (simp add: less_mult_imp_div_less mult.commute)
  define cmk where "cmk = snd (mask_fetch_or (completed_mask a) (chunk_size a div sub_block_size a))"
  have "unat (total_slots a) \<notin> done_slots a" using asm_geom_bounded[OF g] by auto
  then have old: "fst (mask_fetch_or (completed_mask a) (chunk_size a div sub_block_size a)) = 0"
    using cm.old_flag[OF room] slot by (simp add: done_slots_def)
  have new: "mask_slots cmk = insert (unat (total_slots a)) (done_slots a)"
    unfolding cmk_def cm.set_flag[OF room] slot done_slots_def ..
  have "card (done_slots a) < unat (total_slots a)" using assms(1,5) by (simp add: asm_inv_def)
  then have "\<not> {..<unat (total_slots a)} \<subseteq> done_slots a"
    using card_mono[OF finite_done[of a], of "{..<unat (total_slots a)}"] by auto
  then obtain s where s: "s < unat (total_slots a)" "s \<notin> done_slots a" by auto
  have "on_piece a m (chunk_size a) [] = Some (True, a\<lparr>completed_mask := cmk, pending_count := 0\<rparr>, m)"
    using sb w old assms(2,5)
    by (simp add: on_piece_def Let_def piece_rejected_def pending_fetch_sub_def cmk_def
        split: prod.splits) auto
  moreover have "s \<notin> done_slots (a\<lparr>completed_mask := cmk, pending_count := 0\<rparr>)"
    using s new by (simp add: done_slots_def)
  ultimately show ?thesis using s by blast
qed

definition example_half :: ChunkAssembler where
  "example_half = (the (assembler_init (Some 0) 4 2))\<lparr>completed_mask := [1], pending_count := 1\<rparr>"

theorem empty_piece_completes_witness:
  "\<exists>a' s. on_piece example_half (\<lambda>_. 0) (chunk_size example_half) [] = Some (True, a', \<lambda>_. 0)
     \<and> s < unat (total_slots example_half) \<and> s \<notin> done_slots a'"
proof (rule empty_piece_completes[of example_half 0])
  have "mask_slots [1] = {0}" by (auto simp: mask_slots_def bit_1_iff)
  then show "asm_inv example_half"
    by (simp add: asm_inv_def asm_geom_def example_half_def assembler_init_def Let_def done_slots_def unat_div)
qed (simp_all add: example_half_def assembler_init_def Let_def unat_div)

text \<open>A completed assembler never reports completion again: whatever pieces of the chunk arrive
  afterwards, every call returns false. The chunk is handed to verification once; and, since nothing
  re-initialises the assembler, a chunk whose digest was wrong is never handed to it a second time.\<close>

theorem completed_never_again:
  assumes "asm_inv a" "is_complete a" "\<forall>p \<in> set ps. piece_inside a (fst p) (snd p)"
  shows "\<exists>a' m'. on_pieces a m ps = Some (replicate (length ps) False, a', m') \<and> is_complete a'"
  using assms
proof (induction ps arbitrary: a m)
  case (Cons p ps)
  obtain a1 m1 where 1: "on_piece a m (fst p) (snd p) = Some (False, a1, m1)" "asm_inv a1" "is_complete a1"
      "base a1 = base a" "chunk_size a1 = chunk_size a"
    using on_piece_complete[OF Cons.prems(1,2), of "fst p" "snd p" m] Cons.prems(3) by auto
  have "\<forall>p \<in> set ps. piece_inside a1 (fst p) (snd p)"
    using Cons.prems(3) 1(4,5) by (simp add: piece_inside_def)
  then show ?case using Cons.IH[OF 1(2,3), of m1] 1(1) by (cases p) auto
qed simp

theorem completed_never_again_witness:
  "\<exists>a' m'. on_pieces (example_half\<lparr>completed_mask := [3], pending_count := 0\<rparr>) (\<lambda>_. 0) [(0, [1, 2]), (2, [3, 4])]
     = Some ([False, False], a', m') \<and> is_complete a'"
proof -
  have "bit (3 :: u32) s \<longleftrightarrow> s < 2" if "s < 32" for s
  proof -
    have "(3 :: u32) = mask 2" by (simp add: mask_eq_exp_minus_1)
    then show ?thesis using that by (simp only: bit_mask_iff) auto
  qed
  then have "mask_slots [3] = {0, 1}" by (auto simp: mask_slots_def less_2_cases_iff)
  then have inv: "asm_inv (example_half\<lparr>completed_mask := [3], pending_count := 0\<rparr>)"
    by (simp add: asm_inv_def asm_geom_def example_half_def assembler_init_def Let_def done_slots_def unat_div)
  have c: "is_complete (example_half\<lparr>completed_mask := [3], pending_count := 0\<rparr>)"
    by (simp add: is_complete_def)
  have ins: "\<forall>p \<in> set [(0, [1, 2]), (2, [3, 4])].
      piece_inside (example_half\<lparr>completed_mask := [3], pending_count := 0\<rparr>) (fst p) (snd p)"
    by code_simp
  have two: "replicate (length [(0 :: u32, [1, 2 :: u8]), (2, [3, 4])]) False = [False, False]" by simp
  show ?thesis
    using completed_never_again[OF inv c ins, of "\<lambda>_. 0"] unfolding two .
qed

end
