(* ===== verification/Scheduler.thy ===== *)
theory Scheduler
  imports Chunk_Assembler "HOL-Library.Multiset"
begin

text \<open>
  \<open>src/src/daemon/scheduler.hpp/.cpp\<close>: which sub-block is requested from which peer. The state
  is a record of the class's members; the callbacks the class is given (issue a request, cancel
  one, announce a chunk, lose interest) are events appended to \<open>out\<close>. A \<open>PeerSlot&\<close> is an index
  into \<open>peer_slots\<close>. Slot ids, chunk indices and offsets are naturals (they are compared, divided
  and used as indices; the one product is taken modulo 2^32); counters are 32-bit words and wrap;
  the monotonic clock is an argument. The members \<open>active_sub_blocks\<close> (a map of sets) are
  association lists in key order with ascending offsets. Vector accesses outside the bounds are
  undefined in the code and unspecified here; the shape invariant shows that none is made.
\<close>

section \<open>State\<close>

datatype ChunkState = MISSING | REQUESTED | DOWNLOADING | COMPLETE
datatype SchedulerPhase = NORMAL | ENDGAME | DONE

datatype sched_event =
    Issue_request nat nat nat nat
  | Cancel_request nat nat nat nat
  | Broadcast_have nat
  | Broadcast_not_interested
  | Not_interested nat

type_synonym active_map = "(nat \<times> nat list) list"

record PeerSlot =
  slot_id :: nat
  pending_requests :: u32
  consecutive_timeouts :: u32
  rtt_us :: u32
  link_speed_mbps :: u32
  link_speed_reported :: u32
  pipeline_cap :: u32
  am_choking :: bool
  remote_bitfield :: "bool list"
  active_sub_blocks :: active_map

record Scheduler =
  chunk_states :: "ChunkState list"
  chunk_sub_blocks :: "u32 list"
  availability :: "u32 list"
  active_chunks :: "nat list"
  chunk_sub_done :: "bool list list"
  chunk_sub_req :: "bool list list"
  chunk_sub_req_time :: "u64 list list"
  chunk_sub_done_count :: "u32 list"
  chunk_sub_req_count :: "u32 list"
  peer_slots :: "PeerSlot list"
  phase :: SchedulerPhase
  missing_count :: u32
  local_speed_mbps :: u32
  cancel_set :: bool
  not_interested_issuer_set :: bool
  not_interested_broadcaster_set :: bool
  out :: "sched_event list"

record ChunkCompleteMsg =
  cc_chunk_idx :: nat
  cc_winning_peer_slot :: nat

definition ENDGAME_THRESHOLD :: u32 where "ENDGAME_THRESHOLD = 128"
definition MAX_ENDGAME_CHUNKS :: u32 where "MAX_ENDGAME_CHUNKS = 32"
definition MAX_REDUNDANT_PEERS :: nat where "MAX_REDUNDANT_PEERS = 2"

text \<open>\<open>SUB_BLOCK_SIZE\<close> as an index divisor, and the 32-bit product \<open>sub_idx * SUB_BLOCK_SIZE\<close>.\<close>

abbreviation sub_size :: nat where
  "sub_size \<equiv> unat SUB_BLOCK_SIZE"

definition sub_begin :: "nat \<Rightarrow> nat" where
  "sub_begin sub_idx = (sub_idx * sub_size) mod 2 ^ 32"

text \<open>The map of sets a peer keeps of its outstanding sub-blocks.\<close>

definition act_find :: "nat \<Rightarrow> active_map \<Rightarrow> nat list" where
  "act_find c m = (case map_of m c of None \<Rightarrow> [] | Some bs \<Rightarrow> bs)"

fun act_put :: "nat \<Rightarrow> nat list \<Rightarrow> active_map \<Rightarrow> active_map" where
  "act_put c bs [] = [(c, bs)]"
| "act_put c bs ((d, ds) # m) =
     (if c < d then (c, bs) # (d, ds) # m
      else if c = d then (c, bs) # m
      else (d, ds) # act_put c bs m)"

definition act_insert :: "nat \<Rightarrow> nat \<Rightarrow> active_map \<Rightarrow> active_map" where
  "act_insert c b m =
     act_put c (let bs = act_find c m in if b \<in> set bs then bs else insort b bs) m"

definition act_remove :: "nat \<Rightarrow> active_map \<Rightarrow> active_map" where
  "act_remove c m = filter (\<lambda>(d, _). d \<noteq> c) m"

text \<open>\<open>it->second.erase(begin)\<close>, which leaves an empty set behind, and the variant that drops it.\<close>

definition act_erase :: "nat \<Rightarrow> nat \<Rightarrow> active_map \<Rightarrow> active_map" where
  "act_erase c b m = map (\<lambda>(d, bs). if d = c then (d, remove1 b bs) else (d, bs)) m"

definition act_erase_drop :: "nat \<Rightarrow> nat \<Rightarrow> active_map \<Rightarrow> active_map" where
  "act_erase_drop c b m =
     (let m' = act_erase c b m in if act_find c m' = [] then act_remove c m' else m')"

section \<open>Helpers and initialisation\<close>

definition peer_have_count :: "PeerSlot \<Rightarrow> nat" where
  "peer_have_count p = marked (remote_bitfield p)"

definition is_full_source :: "PeerSlot \<Rightarrow> nat \<Rightarrow> bool" where
  "is_full_source p total_chunks \<longleftrightarrow> total_chunks > 0 \<and> length (remote_bitfield p) \<ge> total_chunks \<and> peer_have_count p \<ge> total_chunks"

definition has_partial_sources :: "PeerSlot list \<Rightarrow> nat \<Rightarrow> bool" where
  "has_partial_sources ps total_chunks \<longleftrightarrow> (\<exists>p \<in> set ps. peer_have_count p > 0 \<and> peer_have_count p < total_chunks)"

definition emit :: "sched_event \<Rightarrow> Scheduler \<Rightarrow> Scheduler" where
  "emit ev s = s\<lparr>out := out s @ [ev]\<rparr>"

definition upd_peer :: "nat \<Rightarrow> (PeerSlot \<Rightarrow> PeerSlot) \<Rightarrow> Scheduler \<Rightarrow> Scheduler" where
  "upd_peer p f s = s\<lparr>peer_slots := (peer_slots s)[p := f (peer_slots s ! p)]\<rparr>"

definition set2 :: "'a list list \<Rightarrow> nat \<Rightarrow> nat \<Rightarrow> 'a \<Rightarrow> 'a list list" where
  "set2 xss i j v = xss[i := (xss ! i)[j := v]]"

definition init_scheduler :: "nat \<Rightarrow> u32 \<Rightarrow> Scheduler \<Rightarrow> Scheduler" where
  "init_scheduler total_chunks speed s = s\<lparr>
     chunk_states := replicate total_chunks MISSING,
     availability := replicate total_chunks 0,
     chunk_sub_done := take total_chunks (chunk_sub_done s) @ replicate (total_chunks - length (chunk_sub_done s)) [],
     chunk_sub_req := take total_chunks (chunk_sub_req s) @ replicate (total_chunks - length (chunk_sub_req s)) [],
     chunk_sub_req_time := take total_chunks (chunk_sub_req_time s) @ replicate (total_chunks - length (chunk_sub_req_time s)) [],
     chunk_sub_done_count := replicate total_chunks 0,
     chunk_sub_req_count := replicate total_chunks 0,
     active_chunks := [0..<total_chunks],
     missing_count := of_nat total_chunks,
     phase := NORMAL,
     local_speed_mbps := speed,
     not_interested_broadcaster_set := True\<rparr>"

definition new_scheduler :: Scheduler where
  "new_scheduler = \<lparr>chunk_states = [], chunk_sub_blocks = [], availability = [], active_chunks = [],
     chunk_sub_done = [], chunk_sub_req = [], chunk_sub_req_time = [], chunk_sub_done_count = [],
     chunk_sub_req_count = [], peer_slots = [], phase = NORMAL, missing_count = 0,
     local_speed_mbps = 1000, cancel_set = False, not_interested_issuer_set = False,
     not_interested_broadcaster_set = False, out = []\<rparr>"

definition set_cancel_issuer :: "Scheduler \<Rightarrow> Scheduler" where
  "set_cancel_issuer s = s\<lparr>cancel_set := True\<rparr>"

definition set_not_interested_issuer :: "Scheduler \<Rightarrow> Scheduler" where
  "set_not_interested_issuer s = s\<lparr>not_interested_issuer_set := True\<rparr>"

text \<open>\<open>std::shuffle\<close> with a seeded generator: some permutation, given as an argument.\<close>

definition randomize_piece_order :: "(nat list \<Rightarrow> nat list) \<Rightarrow> Scheduler \<Rightarrow> Scheduler" where
  "randomize_piece_order shuf s = s\<lparr>active_chunks := shuf (active_chunks s)\<rparr>"

definition sub_block_count :: "u32 \<Rightarrow> u32" where
  "sub_block_count csize = (csize + SUB_BLOCK_SIZE - 1) div SUB_BLOCK_SIZE"

fun assign_sizes :: "u32 list \<Rightarrow> nat \<Rightarrow> Scheduler \<Rightarrow> Scheduler" where
  "assign_sizes [] i s = s"
| "assign_sizes (csize # sizes) i s =
     (let cnt = sub_block_count csize;
          s1 = s\<lparr>chunk_sub_blocks := (chunk_sub_blocks s)[i := cnt]\<rparr>;
          s2 = (if i < length (chunk_sub_done s1)
                then s1\<lparr>chunk_sub_done := (chunk_sub_done s1)[i := replicate (unat cnt) False],
                        chunk_sub_req := (chunk_sub_req s1)[i := replicate (unat cnt) False],
                        chunk_sub_req_time := (chunk_sub_req_time s1)[i := replicate (unat cnt) 0]\<rparr>
                else s1)
      in assign_sizes sizes (i + 1) s2)"

definition set_chunk_sizes :: "u32 list \<Rightarrow> Scheduler \<Rightarrow> Scheduler" where
  "set_chunk_sizes sizes s =
     (let n = length sizes;
          s1 = s\<lparr>chunk_sub_blocks := take n (chunk_sub_blocks s) @ replicate (n - length (chunk_sub_blocks s)) 0\<rparr>
      in assign_sizes sizes 0 s1)"

section \<open>Peers\<close>

text \<open>\<open>peer_slot\<close>: the first slot with the given id, as an index.\<close>

fun find_slot :: "nat \<Rightarrow> PeerSlot list \<Rightarrow> nat option" where
  "find_slot sid [] = None"
| "find_slot sid (p # ps) = (if slot_id p = sid then Some 0 else map_option Suc (find_slot sid ps))"

definition peer_slot :: "Scheduler \<Rightarrow> nat \<Rightarrow> nat option" where
  "peer_slot s sid = find_slot sid (peer_slots s)"

definition wants_peer :: "Scheduler \<Rightarrow> nat \<Rightarrow> bool" where
  "wants_peer s sid =
     (case peer_slot s sid of
        None \<Rightarrow> False
      | Some p \<Rightarrow> let bf = remote_bitfield (peer_slots s ! p) in
          (\<exists>i \<in> set [0..<min (length bf) (length (chunk_states s))].
             bf ! i \<and> chunk_states s ! i \<noteq> COMPLETE))"

definition check_peer_interest :: "nat \<Rightarrow> Scheduler \<Rightarrow> Scheduler" where
  "check_peer_interest sid s =
     (if not_interested_issuer_set s \<and> \<not> wants_peer s sid then emit (Not_interested sid) s else s)"

definition on_peer_added :: "nat \<Rightarrow> u32 \<Rightarrow> Scheduler \<Rightarrow> Scheduler" where
  "on_peer_added sid reported_speed s = s\<lparr>peer_slots := peer_slots s @
     [\<lparr>slot_id = sid, pending_requests = 0, consecutive_timeouts = 0, rtt_us = 0,
       link_speed_mbps = reported_speed, link_speed_reported = reported_speed, pipeline_cap = 128,
       am_choking = True, remote_bitfield = replicate (length (availability s)) False,
       active_sub_blocks = []\<rparr>]\<rparr>"

definition on_peer_speed :: "nat \<Rightarrow> u32 \<Rightarrow> Scheduler \<Rightarrow> Scheduler" where
  "on_peer_speed sid reported_speed s =
     (case peer_slot s sid of None \<Rightarrow> s
      | Some p \<Rightarrow> upd_peer p (\<lambda>q. q\<lparr>link_speed_reported := reported_speed, link_speed_mbps := reported_speed\<rparr>) s)"

definition on_choke_change :: "nat \<Rightarrow> bool \<Rightarrow> Scheduler \<Rightarrow> Scheduler" where
  "on_choke_change sid choking s =
     (case peer_slot s sid of None \<Rightarrow> s | Some p \<Rightarrow> upd_peer p (\<lambda>q. q\<lparr>am_choking := choking\<rparr>) s)"

text \<open>\<open>PeerSession::do_eval_tick\<close> writes its estimates through the pointer \<open>peer_slot\<close> returns.\<close>

definition sync_slot :: "nat \<Rightarrow> u32 \<Rightarrow> u32 \<Rightarrow> u32 \<Rightarrow> Scheduler \<Rightarrow> Scheduler" where
  "sync_slot sid cap timeouts rtt s =
     (case peer_slot s sid of None \<Rightarrow> s
      | Some p \<Rightarrow> upd_peer p (\<lambda>q. q\<lparr>pipeline_cap := cap, consecutive_timeouts := timeouts, rtt_us := rtt\<rparr>) s)"

text \<open>\<open>on_peer_removed\<close>: give back the peer's availability, then release its outstanding requests.\<close>

definition drop_availability :: "bool list \<Rightarrow> u32 list \<Rightarrow> u32 list" where
  "drop_availability bf av =
     map (\<lambda>i. if i < length bf \<and> bf ! i then av ! i - 1 else av ! i) [0..<length av]"

definition add_availability :: "bool list \<Rightarrow> u32 list \<Rightarrow> u32 list" where
  "add_availability bf av =
     map (\<lambda>i. if i < length bf \<and> bf ! i then av ! i + 1 else av ! i) [0..<length av]"

definition release_request :: "nat \<Rightarrow> nat \<Rightarrow> Scheduler \<Rightarrow> Scheduler" where
  "release_request c begin s =
     (let sub_idx = begin div sub_size
      in if c < length (chunk_sub_req s) \<and> sub_idx < length (chunk_sub_req s ! c) \<and> chunk_sub_req s ! c ! sub_idx
         then let s1 = s\<lparr>chunk_sub_req := set2 (chunk_sub_req s) c sub_idx False\<rparr>;
                  s2 = (if c < length (chunk_sub_req_time s1) \<and> sub_idx < length (chunk_sub_req_time s1 ! c)
                        then s1\<lparr>chunk_sub_req_time := set2 (chunk_sub_req_time s1) c sub_idx 0\<rparr> else s1)
              in if c < length (chunk_sub_req_count s2) \<and> chunk_sub_req_count s2 ! c > 0
                 then s2\<lparr>chunk_sub_req_count := (chunk_sub_req_count s2)[c := chunk_sub_req_count s2 ! c - 1]\<rparr>
                 else s2
         else s)"

definition release_chunk :: "nat \<times> nat list \<Rightarrow> Scheduler \<Rightarrow> Scheduler" where
  "release_chunk entry s =
     (let (c, begins) = entry;
          s1 = fold (release_request c) begins s
      in if c < length (chunk_states s1) \<and> chunk_states s1 ! c \<noteq> COMPLETE
            \<and> c < length (chunk_sub_req_count s1) \<and> chunk_sub_req_count s1 ! c = 0
         then s1\<lparr>chunk_states := (chunk_states s1)[c := MISSING]\<rparr>
         else s1)"

definition on_peer_removed :: "nat \<Rightarrow> Scheduler \<Rightarrow> Scheduler" where
  "on_peer_removed sid s =
     (let s1 = (case peer_slot s sid of
                  None \<Rightarrow> s
                | Some p \<Rightarrow>
                    let q = peer_slots s ! p;
                        s' = s\<lparr>availability := drop_availability (remote_bitfield q) (availability s)\<rparr>
                    in fold release_chunk (active_sub_blocks q) s')
      in s1\<lparr>peer_slots := filter (\<lambda>q. slot_id q \<noteq> sid) (peer_slots s1)\<rparr>)"

section \<open>Choosing a peer and issuing requests\<close>

definition INT_MIN :: int where "INT_MIN = - (2 ^ 31)"
definition SIZE_MAX :: nat where "SIZE_MAX = 2 ^ 64 - 1"

text \<open>C++ integer division truncates toward zero.\<close>

definition trunc_div :: "int \<Rightarrow> int \<Rightarrow> int" where
  "trunc_div a b = (if a \<ge> 0 then a div b else - ((- a) div b))"

definition eligible :: "nat \<Rightarrow> PeerSlot \<Rightarrow> bool" where
  "eligible c p \<longleftrightarrow> c < length (remote_bitfield p) \<and> remote_bitfield p ! c
     \<and> \<not> am_choking p \<and> consecutive_timeouts p < 3"

definition peer_score :: "u32 \<Rightarrow> PeerSlot \<Rightarrow> int" where
  "peer_score local_speed p =
     (if local_speed \<ge> 1000 \<and> link_speed_mbps p \<ge> 1000 then 10 else 0)
     + int (min 50 ((length (remote_bitfield p) - peer_have_count p) div 64))
     - sint (pending_requests p) * 6
     - trunc_div (sint (rtt_us p)) 2000"

fun best_peer_loop :: "u32 \<Rightarrow> nat \<Rightarrow> PeerSlot list \<Rightarrow> int \<times> nat \<times> nat \<Rightarrow> int \<times> nat \<times> nat" where
  "best_peer_loop ls c [] best = best"
| "best_peer_loop ls c (p # ps) (best_score, best_have, best_slot) =
     best_peer_loop ls c ps
       (if eligible c p \<and> (peer_score ls p > best_score
            \<or> peer_score ls p = best_score \<and> peer_have_count p < best_have)
        then (peer_score ls p, peer_have_count p, slot_id p)
        else (best_score, best_have, best_slot))"

definition select_best_peer :: "Scheduler \<Rightarrow> nat \<Rightarrow> nat option" where
  "select_best_peer s c =
     (case best_peer_loop (local_speed_mbps s) c (peer_slots s) (INT_MIN, SIZE_MAX, 0) of
        (best_score, _, best_slot) \<Rightarrow> if best_score = INT_MIN then None else Some best_slot)"

definition find_redundant_peers :: "nat \<Rightarrow> nat \<Rightarrow> nat \<Rightarrow> PeerSlot list \<Rightarrow> nat list" where
  "find_redundant_peers c exclude_slot limit slots =
     (let candidates = map (\<lambda>p. (sint (pending_requests p), slot_id p))
            (filter (\<lambda>p. slot_id p \<noteq> exclude_slot \<and> eligible c p \<and> act_find c (active_sub_blocks p) = []) slots)
      in take limit (map snd (sort_key fst (sort_key snd candidates))))"

text \<open>One iteration of the sub-block loop of \<open>try_schedule_chunk_on_peer\<close>: issue the request.\<close>

definition issue_sub_block :: "nat \<Rightarrow> nat \<Rightarrow> u64 \<Rightarrow> nat \<Rightarrow> Scheduler \<Rightarrow> Scheduler" where
  "issue_sub_block p c now sub_idx s =
     (let s1 = s\<lparr>chunk_sub_req := set2 (chunk_sub_req s) c sub_idx True,
                 chunk_sub_req_time := set2 (chunk_sub_req_time s) c sub_idx now\<rparr>;
          s2 = (if c < length (chunk_sub_req_count s1)
                then s1\<lparr>chunk_sub_req_count := (chunk_sub_req_count s1)[c := chunk_sub_req_count s1 ! c + 1]\<rparr>
                else s1);
          begin = sub_begin sub_idx;
          s3 = emit (Issue_request (slot_id (peer_slots s2 ! p)) c begin sub_size) s2
      in upd_peer p (\<lambda>q. q\<lparr>pending_requests := pending_requests q + 1,
                           active_sub_blocks := act_insert c begin (active_sub_blocks q)\<rparr>) s3)"

fun issue_loop :: "nat \<Rightarrow> nat \<Rightarrow> u64 \<Rightarrow> u32 \<Rightarrow> nat list \<Rightarrow> bool \<Rightarrow> Scheduler \<Rightarrow> bool \<times> Scheduler" where
  "issue_loop p c now cap [] issued s = (issued, s)"
| "issue_loop p c now cap (sub_idx # subs) issued s =
     (if pending_requests (peer_slots s ! p) \<ge> cap then (issued, s)
      else if chunk_sub_req s ! c ! sub_idx then issue_loop p c now cap subs issued s
      else issue_loop p c now cap subs True (issue_sub_block p c now sub_idx s))"

definition sub_total :: "Scheduler \<Rightarrow> nat \<Rightarrow> u32" where
  "sub_total s c = (if c < length (chunk_sub_blocks s) then chunk_sub_blocks s ! c else 0)"

definition try_schedule_chunk_on_peer :: "nat \<Rightarrow> nat \<Rightarrow> u64 \<Rightarrow> u32 \<Rightarrow> Scheduler \<Rightarrow> bool \<times> Scheduler" where
  "try_schedule_chunk_on_peer p c now cap s =
     (let q = peer_slots s ! p
      in if c \<ge> length (chunk_states s) then (False, s)
         else if chunk_states s ! c = COMPLETE then (False, s)
         else if c \<ge> length (remote_bitfield q) \<or> \<not> remote_bitfield q ! c then (False, s)
         else if am_choking q \<or> consecutive_timeouts q \<ge> 3 then (False, s)
         else if select_best_peer s c \<noteq> Some (slot_id q) then (False, s)
         else if sub_total s c = 0 then (False, s)
         else issue_loop p c now cap [0..<unat (sub_total s c)] False
                (s\<lparr>chunk_states := (chunk_states s)[c := DOWNLOADING]\<rparr>))"

definition effective_cap_of :: "Scheduler \<Rightarrow> nat \<Rightarrow> u32" where
  "effective_cap_of s p =
     (let q = peer_slots s ! p
      in if is_full_source q (length (chunk_states s)) \<and> has_partial_sources (peer_slots s) (length (chunk_states s))
         then min (pipeline_cap q) 32 else pipeline_cap q)"

definition requested_of :: "Scheduler \<Rightarrow> nat \<Rightarrow> u32" where
  "requested_of s c = (if c < length (chunk_sub_req_count s) then chunk_sub_req_count s ! c else 0)"

definition pending_chunks :: "Scheduler \<Rightarrow> nat \<Rightarrow> nat list" where
  "pending_chunks s p =
     (let bf = remote_bitfield (peer_slots s ! p);
          cand = filter (\<lambda>c. c < length (chunk_states s) \<and> chunk_states s ! c \<noteq> COMPLETE
                     \<and> c < length bf \<and> bf ! c \<and> requested_of s c < sub_total s c) (active_chunks s)
      in sort_key (\<lambda>c. availability s ! c) cand)"

fun schedule_loop :: "nat \<Rightarrow> u64 \<Rightarrow> u32 \<Rightarrow> nat list \<Rightarrow> bool \<Rightarrow> Scheduler \<Rightarrow> bool \<times> Scheduler" where
  "schedule_loop p now cap [] issued s = (issued, s)"
| "schedule_loop p now cap (c # cs) issued s =
     (if pending_requests (peer_slots s ! p) \<ge> cap then (issued, s)
      else let (r, s') = try_schedule_chunk_on_peer p c now cap s
           in schedule_loop p now cap cs (issued \<or> r) s')"

definition try_schedule_for_peer :: "nat \<Rightarrow> u64 \<Rightarrow> Scheduler \<Rightarrow> bool \<times> Scheduler" where
  "try_schedule_for_peer p now s =
     (let cap = effective_cap_of s p
      in if pending_requests (peer_slots s ! p) \<ge> cap then (False, s)
         else schedule_loop p now cap (pending_chunks s p) False s)"

section \<open>Rebalancing, ticks and endgame\<close>

definition sub_is_done :: "Scheduler \<Rightarrow> nat \<Rightarrow> nat \<Rightarrow> bool" where
  "sub_is_done s c sub_idx \<longleftrightarrow> c < length (chunk_sub_done s) \<and> sub_idx < length (chunk_sub_done s ! c)
     \<and> chunk_sub_done s ! c ! sub_idx"

text \<open>The move itself: cancel at the full source, request from the peer.\<close>

definition move_request :: "nat \<Rightarrow> nat \<Rightarrow> nat \<Rightarrow> nat \<Rightarrow> u64 \<Rightarrow> Scheduler \<Rightarrow> Scheduler" where
  "move_request p src c begin now s =
     (let sub_idx = begin div sub_size;
          s1 = (if cancel_set s then emit (Cancel_request (slot_id (peer_slots s ! src)) c begin sub_size) s else s);
          s2 = upd_peer src (\<lambda>q. q\<lparr>
                  pending_requests := (if pending_requests q > 0 then pending_requests q - 1 else pending_requests q),
                  active_sub_blocks := act_erase_drop c begin (active_sub_blocks q)\<rparr>) s1;
          s3 = s2\<lparr>chunk_sub_req := set2 (chunk_sub_req s2) c sub_idx True,
                  chunk_sub_req_time := set2 (chunk_sub_req_time s2) c sub_idx now\<rparr>;
          s4 = emit (Issue_request (slot_id (peer_slots s3 ! p)) c begin sub_size) s3
      in upd_peer p (\<lambda>q. q\<lparr>pending_requests := pending_requests q + 1,
                           active_sub_blocks := act_insert c begin (active_sub_blocks q)\<rparr>) s4)"

fun rebalance_sources :: "nat \<Rightarrow> nat \<Rightarrow> u64 \<Rightarrow> nat list \<Rightarrow> Scheduler \<Rightarrow> bool \<times> Scheduler" where
  "rebalance_sources p c now [] s = (False, s)"
| "rebalance_sources p c now (src # srcs) s =
     (let q = peer_slots s ! src;
          begins = act_find c (active_sub_blocks q)
      in if slot_id q = slot_id (peer_slots s ! p) then rebalance_sources p c now srcs s
         else if \<not> is_full_source q (length (chunk_states s)) then rebalance_sources p c now srcs s
         else if begins = [] then rebalance_sources p c now srcs s
         else let begin = hd begins
              in if sub_is_done s c (begin div sub_size)
                 then rebalance_sources p c now srcs
                        (upd_peer src (\<lambda>q. q\<lparr>active_sub_blocks := act_erase c begin (active_sub_blocks q)\<rparr>) s)
                 else (True, move_request p src c begin now s))"

fun rebalance_chunks :: "nat \<Rightarrow> u64 \<Rightarrow> u32 \<Rightarrow> nat list \<Rightarrow> Scheduler \<Rightarrow> bool \<times> Scheduler" where
  "rebalance_chunks p now cap [] s = (False, s)"
| "rebalance_chunks p now cap (c # cs) s =
     (let q = peer_slots s ! p
      in if pending_requests q \<ge> cap then (False, s)
         else if c \<ge> length (remote_bitfield q) \<or> \<not> remote_bitfield q ! c then rebalance_chunks p now cap cs s
         else if c \<ge> length (chunk_states s) \<or> chunk_states s ! c = COMPLETE then rebalance_chunks p now cap cs s
         else let (moved, s') = rebalance_sources p c now [0..<length (peer_slots s)] s
              in if moved then (True, s') else rebalance_chunks p now cap cs s')"

text \<open>The \<open>while\<close> loop makes at most \<open>max_moves\<close> turns: each turn moves one request or stops.\<close>

fun rebalance_moves :: "nat \<Rightarrow> u64 \<Rightarrow> u32 \<Rightarrow> nat \<Rightarrow> Scheduler \<Rightarrow> Scheduler" where
  "rebalance_moves p now cap 0 s = s"
| "rebalance_moves p now cap (Suc n) s =
     (if pending_requests (peer_slots s ! p) < cap
      then let (moved, s') = rebalance_chunks p now cap (active_chunks s) s
           in if moved then rebalance_moves p now cap n s' else s'
      else s)"

definition rebalance_seed_requests_for_peer :: "nat \<Rightarrow> u64 \<Rightarrow> nat \<Rightarrow> Scheduler \<Rightarrow> Scheduler" where
  "rebalance_seed_requests_for_peer p now max_moves s =
     (if is_full_source (peer_slots s ! p) (length (chunk_states s)) then s
      else rebalance_moves p now (pipeline_cap (peer_slots s ! p)) max_moves s)"

definition on_bitfield :: "nat \<Rightarrow> bool list \<Rightarrow> u64 \<Rightarrow> Scheduler \<Rightarrow> Scheduler" where
  "on_bitfield sid bf now s =
     (case peer_slot s sid of
        None \<Rightarrow> s
      | Some p \<Rightarrow>
          let s1 = upd_peer p (\<lambda>q. q\<lparr>remote_bitfield := bf\<rparr>) s;
              s2 = s1\<lparr>availability := add_availability bf (availability s1)\<rparr>
          in rebalance_seed_requests_for_peer p now 16 (check_peer_interest sid s2))"

definition on_have :: "nat \<Rightarrow> nat \<Rightarrow> u64 \<Rightarrow> Scheduler \<Rightarrow> Scheduler" where
  "on_have sid c now s =
     (case peer_slot s sid of
        None \<Rightarrow> s
      | Some p \<Rightarrow>
          let bf = remote_bitfield (peer_slots s ! p)
          in if c \<ge> length bf then s
             else let s1 = (if \<not> bf ! c
                            then let s' = upd_peer p (\<lambda>q. q\<lparr>remote_bitfield := (remote_bitfield q)[c := True]\<rparr>) s
                                 in if c < length (availability s')
                                    then s'\<lparr>availability := (availability s')[c := availability s' ! c + 1]\<rparr> else s'
                            else s)
                  in rebalance_seed_requests_for_peer p now 8 (check_peer_interest sid s1))"

text \<open>The bookkeeping of an arrived piece: pending count, done flag, outstanding sub-block.\<close>

definition note_piece :: "nat \<Rightarrow> nat \<Rightarrow> nat \<Rightarrow> Scheduler \<Rightarrow> Scheduler" where
  "note_piece p c begin s =
     (let s1 = upd_peer p (\<lambda>q. q\<lparr>pending_requests := pending_requests q - 1\<rparr>) s;
          sub_idx = begin div sub_size;
          s2 = (if c < length (chunk_sub_done s1) \<and> sub_idx < length (chunk_sub_done s1 ! c)
                   \<and> \<not> chunk_sub_done s1 ! c ! sub_idx
                then s1\<lparr>chunk_sub_done := set2 (chunk_sub_done s1) c sub_idx True,
                        chunk_sub_done_count := (chunk_sub_done_count s1)[c := chunk_sub_done_count s1 ! c + 1]\<rparr>
                else s1)
      in if c \<in> fst ` set (active_sub_blocks (peer_slots s2 ! p))
         then upd_peer p (\<lambda>q. q\<lparr>active_sub_blocks := act_erase_drop c begin (active_sub_blocks q)\<rparr>) s2
         else s2)"

definition dec_peer_pending :: "nat \<Rightarrow> nat \<Rightarrow> nat \<Rightarrow> u64 \<Rightarrow> Scheduler \<Rightarrow> Scheduler" where
  "dec_peer_pending sid c begin now s =
     (case peer_slot s sid of
        None \<Rightarrow> s
      | Some p \<Rightarrow>
          if pending_requests (peer_slots s ! p) = 0 then s
          else let s1 = note_piece p c begin s
               in if phase s1 \<noteq> DONE then snd (try_schedule_for_peer p now s1) else s1)"

text \<open>Endgame: chunks nearest to completion first; sub-blocks outstanding for too long are requested
  from up to two further peers. \<open>std::sort\<close> leaves the order of equal keys open and is an argument.\<close>

definition remaining_of :: "Scheduler \<Rightarrow> nat \<Rightarrow> u32" where
  "remaining_of s c =
     (let done = (if c < length (chunk_sub_done_count s) then chunk_sub_done_count s ! c else 0);
          tot = sub_total s c
      in if tot > done then tot - done else 0)"

definition primary_peer_of :: "Scheduler \<Rightarrow> nat \<Rightarrow> nat" where
  "primary_peer_of s c =
     snd (fold (\<lambda>p (max_active, primary).
            let n = length (act_find c (active_sub_blocks p))
            in if n > max_active then (n, slot_id p) else (max_active, primary)) (peer_slots s) (0, 2 ^ 32 - 1))"

definition hunger_threshold_ms :: "Scheduler \<Rightarrow> nat \<Rightarrow> u64" where
  "hunger_threshold_ms s primary =
     (if primary \<noteq> 2 ^ 32 - 1
      then case peer_slot s primary of
             None \<Rightarrow> 50
           | Some p \<Rightarrow> let r = rtt_us (peer_slots s ! p)
                      in if r > 0 then max (ucast (r * 2 div 1000)) 50 else 50
      else 50)"

definition sub_is_hungry :: "Scheduler \<Rightarrow> nat \<Rightarrow> u64 \<Rightarrow> u64 \<Rightarrow> nat \<Rightarrow> bool" where
  "sub_is_hungry s c now threshold sub_idx \<longleftrightarrow>
     \<not> sub_is_done s c sub_idx
     \<and> c < length (chunk_sub_req s) \<and> sub_idx < length (chunk_sub_req s ! c) \<and> chunk_sub_req s ! c ! sub_idx
     \<and> (let req_time = (if c < length (chunk_sub_req_time s) \<and> sub_idx < length (chunk_sub_req_time s ! c)
                        then chunk_sub_req_time s ! c ! sub_idx else 0)
        in req_time \<noteq> 0 \<and> now - req_time > threshold)"

definition request_redundant :: "nat \<Rightarrow> nat \<Rightarrow> nat \<Rightarrow> Scheduler \<Rightarrow> Scheduler" where
  "request_redundant c sub_idx sid s =
     (case peer_slot s sid of
        None \<Rightarrow> s
      | Some p \<Rightarrow>
          let begin = sub_begin sub_idx
          in upd_peer p (\<lambda>q. q\<lparr>pending_requests := pending_requests q + 1,
                              active_sub_blocks := act_insert c begin (active_sub_blocks q)\<rparr>)
               (emit (Issue_request sid c begin sub_size) s))"

fun endgame_subs :: "nat \<Rightarrow> nat \<Rightarrow> u64 \<Rightarrow> u64 \<Rightarrow> nat list \<Rightarrow> bool \<Rightarrow> Scheduler \<Rightarrow> bool \<times> Scheduler" where
  "endgame_subs c primary now threshold [] hungry s = (hungry, s)"
| "endgame_subs c primary now threshold (sub_idx # subs) hungry s =
     (if sub_is_hungry s c now threshold sub_idx
      then endgame_subs c primary now threshold subs True
             (fold (request_redundant c sub_idx)
                (find_redundant_peers c primary MAX_REDUNDANT_PEERS (peer_slots s)) s)
      else endgame_subs c primary now threshold subs hungry s)"

fun endgame_chunks :: "u64 \<Rightarrow> nat list \<Rightarrow> u32 \<Rightarrow> Scheduler \<Rightarrow> Scheduler" where
  "endgame_chunks now [] processed s = s"
| "endgame_chunks now (c # cs) processed s =
     (if processed \<ge> MAX_ENDGAME_CHUNKS then s
      else if sub_total s c = 0 \<or> c \<ge> length (chunk_sub_req_time s) then endgame_chunks now cs processed s
      else let primary = primary_peer_of s c;
               (hungry, s') = endgame_subs c primary now (hunger_threshold_ms s primary)
                                [0..<unat (sub_total s c)] False s
           in endgame_chunks now cs (if hungry then processed + 1 else processed) s')"

type_synonym sorter = "(nat \<Rightarrow> u32) \<Rightarrow> nat list \<Rightarrow> nat list"

text \<open>What the standard promises of \<open>std::sort\<close>: an ascending permutation.\<close>

definition std_sort :: "sorter \<Rightarrow> bool" where
  "std_sort srt \<longleftrightarrow> (\<forall>key xs. mset (srt key xs) = mset xs \<and> sorted (map key (srt key xs)))"

definition tick_endgame :: "sorter \<Rightarrow> u64 \<Rightarrow> Scheduler \<Rightarrow> Scheduler" where
  "tick_endgame srt now s =
     (let downloading = filter (\<lambda>c. c < length (chunk_states s) \<and> chunk_states s ! c = DOWNLOADING) (active_chunks s)
      in if downloading = [] then s else endgame_chunks now (srt (remaining_of s) downloading) 0 s)"

definition tick :: "sorter \<Rightarrow> u64 \<Rightarrow> Scheduler \<Rightarrow> Scheduler" where
  "tick srt now s =
     (if phase s = DONE then s
      else let idx = [0..<length (peer_slots s)];
               s1 = fold (\<lambda>p. rebalance_seed_requests_for_peer p now 4) idx s;
               s2 = fold (\<lambda>p. snd \<circ> try_schedule_for_peer p now) idx s1
           in if phase s2 = ENDGAME then tick_endgame srt now s2 else s2)"

section \<open>Completions, failures and timeouts\<close>

fun cancel_begins :: "nat \<Rightarrow> nat \<Rightarrow> nat list \<Rightarrow> Scheduler \<Rightarrow> Scheduler" where
  "cancel_begins p c [] s = s"
| "cancel_begins p c (b # bs) s =
     cancel_begins p c bs
       (upd_peer p (\<lambda>q. if pending_requests q > 0 then q\<lparr>pending_requests := pending_requests q - 1\<rparr> else q)
          (emit (Cancel_request (slot_id (peer_slots s ! p)) c b sub_size) s))"

definition cancel_at :: "nat \<Rightarrow> nat \<Rightarrow> nat \<Rightarrow> Scheduler \<Rightarrow> Scheduler" where
  "cancel_at c exclude_slot p s =
     (let q = peer_slots s ! p;
          begins = act_find c (active_sub_blocks q)
      in if slot_id q = exclude_slot \<or> begins = [] then s
         else upd_peer p (\<lambda>q. q\<lparr>active_sub_blocks := act_remove c (active_sub_blocks q)\<rparr>)
                (cancel_begins p c begins s))"

definition send_cancel_for_chunk :: "nat \<Rightarrow> nat \<Rightarrow> Scheduler \<Rightarrow> Scheduler" where
  "send_cancel_for_chunk c exclude_slot s =
     (if cancel_set s then fold (cancel_at c exclude_slot) [0..<length (peer_slots s)] s else s)"

text \<open>\<open>*it = active_chunks_.back(); active_chunks_.pop_back()\<close> at the first occurrence.\<close>

definition swap_remove :: "nat \<Rightarrow> nat list \<Rightarrow> nat list" where
  "swap_remove c cs =
     (case find (\<lambda>i. cs ! i = c) [0..<length cs] of
        None \<Rightarrow> cs
      | Some i \<Rightarrow> butlast (cs[i := last cs]))"

definition complete_one :: "ChunkCompleteMsg \<Rightarrow> Scheduler \<Rightarrow> Scheduler" where
  "complete_one msg s =
     (let c = cc_chunk_idx msg;
          s1 = s\<lparr>chunk_states := (chunk_states s)[c := COMPLETE], missing_count := missing_count s - 1,
                 active_chunks := swap_remove c (active_chunks s)\<rparr>;
          s2 = send_cancel_for_chunk c (cc_winning_peer_slot msg) s1;
          s3 = (if c < length (chunk_sub_req_count s2)
                then s2\<lparr>chunk_sub_req_count := (chunk_sub_req_count s2)[c := 0]\<rparr> else s2)
      in emit (Broadcast_have c) s3)"

definition process_completions :: "ChunkCompleteMsg list \<Rightarrow> Scheduler \<Rightarrow> Scheduler" where
  "process_completions msgs s =
     (let s1 = fold complete_one msgs s
      in if missing_count s1 = 0
         then let s2 = s1\<lparr>phase := DONE\<rparr>
              in if not_interested_broadcaster_set s2 then emit Broadcast_not_interested s2 else s2
         else if missing_count s1 < ENDGAME_THRESHOLD then s1\<lparr>phase := ENDGAME\<rparr>
         else s1)"

definition on_verify_failed :: "nat \<Rightarrow> Scheduler \<Rightarrow> Scheduler" where
  "on_verify_failed c s = s\<lparr>
     chunk_states := (chunk_states s)[c := MISSING],
     chunk_sub_req := (chunk_sub_req s)[c := map (\<lambda>_. False) (chunk_sub_req s ! c)],
     chunk_sub_req_time := (chunk_sub_req_time s)[c := map (\<lambda>_. 0) (chunk_sub_req_time s ! c)],
     chunk_sub_done := (chunk_sub_done s)[c := map (\<lambda>_. False) (chunk_sub_done s ! c)],
     chunk_sub_done_count := (chunk_sub_done_count s)[c := 0],
     chunk_sub_req_count := (chunk_sub_req_count s)[c := 0],
     active_chunks := (if c \<in> set (active_chunks s) then active_chunks s else active_chunks s @ [c])\<rparr>"

definition on_subblock_timeout :: "nat \<Rightarrow> nat \<Rightarrow> Scheduler \<Rightarrow> Scheduler" where
  "on_subblock_timeout c begin s =
     (if c \<ge> length (chunk_states s) then s
      else if chunk_states s ! c = COMPLETE then s
      else let sub_idx = begin div sub_size;
               s1 = (if c < length (chunk_sub_req s) \<and> sub_idx < length (chunk_sub_req s ! c)
                        \<and> chunk_sub_req s ! c ! sub_idx
                     then let s' = s\<lparr>chunk_sub_req := set2 (chunk_sub_req s) c sub_idx False\<rparr>
                          in if c < length (chunk_sub_req_count s') \<and> chunk_sub_req_count s' ! c > 0
                             then s'\<lparr>chunk_sub_req_count := (chunk_sub_req_count s')[c := chunk_sub_req_count s' ! c - 1]\<rparr>
                             else s'
                     else s)
           in if c < length (chunk_sub_req_time s1) \<and> sub_idx < length (chunk_sub_req_time s1 ! c)
              then s1\<lparr>chunk_sub_req_time := set2 (chunk_sub_req_time s1) c sub_idx 0\<rparr> else s1)"

definition mark_one :: "bool list \<Rightarrow> nat \<Rightarrow> Scheduler \<Rightarrow> Scheduler" where
  "mark_one bf i s =
     (if \<not> bf ! i then s
      else if chunk_states s ! i = COMPLETE then s
      else let s1 = (if chunk_states s ! i = MISSING then s\<lparr>missing_count := missing_count s - 1\<rparr> else s);
               s2 = s1\<lparr>chunk_states := (chunk_states s1)[i := COMPLETE],
                       active_chunks := swap_remove i (active_chunks s1)\<rparr>
           in if i < length (chunk_sub_req_count s2)
              then s2\<lparr>chunk_sub_req_count := (chunk_sub_req_count s2)[i := 0]\<rparr> else s2)"

definition mark_all_complete :: "bool list \<Rightarrow> Scheduler \<Rightarrow> Scheduler" where
  "mark_all_complete bf s =
     (let s1 = fold (mark_one bf) [0..<min (length bf) (length (chunk_states s))] s
      in if missing_count s1 = 0 then s1\<lparr>phase := DONE\<rparr>
         else if missing_count s1 < ENDGAME_THRESHOLD then s1\<lparr>phase := ENDGAME\<rparr>
         else s1)"

end
