(* ===== verification/Platform.thy ===== *)
theory Platform
  imports ThinBT_Prelude
begin

unbundle bit_operations_syntax

text \<open>
  \<open>src/src/common/platform.hpp\<close>: byte order. The object representation of an integer
  (what \<open>memcpy\<close> from its address copies) depends on the byte order of the host, so the
  host's order is an argument of every definition that looks at memory. The library
  functions \<open>htons\<close>, \<open>htonl\<close>, \<open>htobe64\<close> and their inverses are the identity on a
  big-endian host and reverse the bytes on a little-endian one. The lemmas show that
  converting and then copying gives the same bytes on both, that each conversion undoes the
  other, and that the Windows definition of the 64-bit conversions agrees with the Linux one.
\<close>

datatype endian = Little | Big

subsection \<open>Big-endian byte strings\<close>

fun be_bytes :: "nat \<Rightarrow> 'a::len word \<Rightarrow> bytes" where
  "be_bytes 0 v = []"
| "be_bytes (Suc n) v = be_bytes n (drop_bit 8 v) @ [ucast v]"

definition be_word :: "bytes \<Rightarrow> 'a::len word" where
  "be_word bs = foldl (\<lambda>acc b. push_bit 8 acc OR ucast b) 0 bs"

lemma length_be_bytes [simp, wire_simps]: "length (be_bytes n v) = n"
  by (induction n arbitrary: v) auto

lemma be_word_Nil [simp]: "be_word [] = 0"
  by (simp add: be_word_def)

lemma be_word_snoc [simp]: "be_word (bs @ [b]) = push_bit 8 (be_word bs) OR ucast b"
  by (simp add: be_word_def)

lemma push_drop_or:
  fixes v :: "'a::len word"
  shows "push_bit 8 (take_bit n (drop_bit 8 v)) OR ucast (ucast v :: u8) = take_bit (8 + n) v"
  by (rule bit_word_eqI) (auto simp: bit_simps)

lemma be_word_be_bytes: "be_word (be_bytes n v) = take_bit (8 * n) (v :: 'a::len word)"
proof (induction n arbitrary: v)
  case (Suc n)
  then show ?case using push_drop_or [of "8 * n" v] by simp
qed simp

lemma be_word_be_bytes_full [simp, wire_simps]:
  "LENGTH('a) = 8 * n \<Longrightarrow> be_word (be_bytes n v) = (v :: 'a::len word)"
  by (simp add: be_word_be_bytes take_bit_word_eq_self)

lemma bit_be_word_bound: "bit (be_word bs :: 'a::len word) k \<Longrightarrow> k < 8 * length bs"
proof (induction bs arbitrary: k rule: rev_induct)
  case (snoc b bs)
  from snoc.prems consider "k < 8" | "8 \<le> k" "bit (be_word bs :: 'a word) (k - 8)"
    by (fastforce simp: bit_simps dest: bit_imp_le_length)
  then show ?case using snoc.IH [of "k - 8"] by cases auto
qed simp

lemma drop_push_or:
  fixes v :: "'a::len word" and b :: u8
  assumes "\<And>k. bit v k \<Longrightarrow> 8 + k < LENGTH('a)"
  shows "drop_bit 8 (push_bit 8 v OR ucast b) = v"
  using assms by (intro bit_word_eqI) (auto simp: bit_simps dest: bit_imp_le_length)

lemma ucast_push_or:
  fixes v :: "'a::len word" and b :: u8
  assumes "8 \<le> LENGTH('a)"
  shows "(ucast (push_bit 8 v OR ucast b) :: u8) = b"
  using assms by (intro bit_word_eqI) (auto simp: bit_simps)

lemma be_bytes_be_word [wire_simps]:
  "length bs = n \<Longrightarrow> 8 * n \<le> LENGTH('a) \<Longrightarrow> be_bytes n (be_word bs :: 'a::len word) = bs"
proof (induction bs arbitrary: n rule: rev_induct)
  case (snoc b bs)
  have len: "8 + k < LENGTH('a)" if "bit (be_word bs :: 'a word) k" for k
    using bit_be_word_bound [OF that] snoc.prems by simp
  from snoc show ?case
    by (auto simp: drop_push_or [OF len] ucast_push_or simp del: drop_bit_or)
qed simp

subsection \<open>Object representation and the conversion functions\<close>

definition mem :: "endian \<Rightarrow> nat \<Rightarrow> 'a::len word \<Rightarrow> bytes" where
  "mem e n v = (case e of Big \<Rightarrow> be_bytes n v | Little \<Rightarrow> rev (be_bytes n v))"

definition unmem :: "endian \<Rightarrow> bytes \<Rightarrow> 'a::len word" where
  "unmem e bs = be_word (case e of Big \<Rightarrow> bs | Little \<Rightarrow> rev bs)"

definition bswap :: "nat \<Rightarrow> 'a::len word \<Rightarrow> 'a word" where
  "bswap n v = be_word (rev (be_bytes n v))"

definition hton16 :: "endian \<Rightarrow> u16 \<Rightarrow> u16" where
  "hton16 e v = (case e of Big \<Rightarrow> v | Little \<Rightarrow> bswap 2 v)"

definition hton32 :: "endian \<Rightarrow> u32 \<Rightarrow> u32" where
  "hton32 e v = (case e of Big \<Rightarrow> v | Little \<Rightarrow> bswap 4 v)"

definition hton64 :: "endian \<Rightarrow> u64 \<Rightarrow> u64" where
  "hton64 e v = (case e of Big \<Rightarrow> v | Little \<Rightarrow> bswap 8 v)"

definition ntoh16 :: "endian \<Rightarrow> u16 \<Rightarrow> u16" where
  "ntoh16 e v = (case e of Big \<Rightarrow> v | Little \<Rightarrow> bswap 2 v)"

definition ntoh32 :: "endian \<Rightarrow> u32 \<Rightarrow> u32" where
  "ntoh32 e v = (case e of Big \<Rightarrow> v | Little \<Rightarrow> bswap 4 v)"

definition ntoh64 :: "endian \<Rightarrow> u64 \<Rightarrow> u64" where
  "ntoh64 e v = (case e of Big \<Rightarrow> v | Little \<Rightarrow> bswap 8 v)"

text \<open>The \<open>_WIN32\<close> branches build the 64-bit conversions from two 32-bit ones.\<close>

definition ntoh64_win :: "endian \<Rightarrow> u64 \<Rightarrow> u64" where
  "ntoh64_win e v =
     push_bit 32 (ucast (ntoh32 e (ucast v))) OR ucast (ntoh32 e (ucast (drop_bit 32 v)))"

definition hton64_win :: "endian \<Rightarrow> u64 \<Rightarrow> u64" where
  "hton64_win e v =
     ucast (hton32 e (ucast (drop_bit 32 v))) OR push_bit 32 (ucast (hton32 e (ucast v)))"

lemmas conv_defs = hton16_def hton32_def hton64_def ntoh16_def ntoh32_def ntoh64_def

lemma length_mem [simp, wire_simps]: "length (mem e n v) = n"
  by (simp add: mem_def split: endian.split)

lemma be_bytes_bswap:
  "LENGTH('a) = 8 * n \<Longrightarrow> be_bytes n (bswap n v :: 'a::len word) = rev (be_bytes n v)"
  by (simp add: bswap_def be_bytes_be_word)

lemma bswap_bswap: "LENGTH('a) = 8 * n \<Longrightarrow> bswap n (bswap n v) = (v :: 'a::len word)"
  by (simp add: bswap_def be_bytes_be_word)

text \<open>Converting to network order and copying gives the big-endian bytes, whatever the host.\<close>

lemma mem_hton [simp, wire_simps]:
  "mem e 2 (hton16 e v2) = be_bytes 2 v2"
  "mem e 4 (hton32 e v4) = be_bytes 4 v4"
  "mem e 8 (hton64 e v8) = be_bytes 8 v8"
  by (simp_all add: mem_def conv_defs be_bytes_bswap split: endian.split)

text \<open>Copying bytes in and converting to host order reads them as a big-endian number.\<close>

lemma ntoh_unmem [simp, wire_simps]:
  "length b2 = 2 \<Longrightarrow> ntoh16 e (unmem e b2) = be_word b2"
  "length b4 = 4 \<Longrightarrow> ntoh32 e (unmem e b4) = be_word b4"
  "length b8 = 8 \<Longrightarrow> ntoh64 e (unmem e b8) = be_word b8"
  by (simp_all add: unmem_def conv_defs bswap_def be_bytes_be_word split: endian.split)

lemma unmem_mem [simp, wire_simps]:
  "LENGTH('a) = 8 * n \<Longrightarrow> unmem e (mem e n v) = (v :: 'a::len word)"
  by (simp add: mem_def unmem_def split: endian.split)

lemma ntoh_hton [simp, wire_simps]:
  "ntoh16 e (hton16 e v2) = v2" "ntoh32 e (hton32 e v4) = v4" "ntoh64 e (hton64 e v8) = v8"
  by (simp_all add: conv_defs bswap_bswap split: endian.split)

subsection \<open>The Windows 64-bit conversions\<close>

lemma be_bytes_eqI:
  fixes v :: "'a::len word" and w :: "'b::len word"
  assumes "\<And>k. k < 8 * n \<Longrightarrow> bit v k = bit w k"
  shows "be_bytes n v = be_bytes n w"
  using assms
proof (induction n arbitrary: v w)
  case (Suc n)
  have "(ucast v :: u8) = ucast w"
    using Suc.prems by (intro bit_word_eqI) (auto simp: bit_simps)
  moreover have "be_bytes n (drop_bit 8 v) = be_bytes n (drop_bit 8 w)"
    using Suc.prems by (intro Suc.IH) (auto simp: bit_simps)
  ultimately show ?case by simp
qed simp

lemma be_bytes_add: "be_bytes (m + n) v = be_bytes m (drop_bit (8 * n) v) @ be_bytes n v"
  by (induction n arbitrary: v) (simp_all add: drop_bit_drop_bit add.commute)

lemma be_bytes_join:
  "be_bytes 8 (push_bit 32 (ucast (a :: u32)) OR ucast (b :: u32) :: u64) = be_bytes 4 a @ be_bytes 4 b"
proof -
  let ?v = "push_bit 32 (ucast a) OR ucast b :: u64"
  have "be_bytes 4 (drop_bit 32 ?v) = be_bytes 4 a" "be_bytes 4 ?v = be_bytes 4 b"
    by (intro be_bytes_eqI; auto simp: bit_simps dest: bit_imp_le_length)+
  then show ?thesis using be_bytes_add [of 4 4 ?v] by simp
qed

lemma be_bytes_halves:
  "be_bytes 4 (ucast (drop_bit 32 v) :: u32) @ be_bytes 4 (ucast v :: u32) = be_bytes 8 (v :: u64)"
proof -
  have "be_bytes 4 (ucast (drop_bit 32 v) :: u32) = be_bytes 4 (drop_bit 32 v)"
    "be_bytes 4 (ucast v :: u32) = be_bytes 4 v"
    by (intro be_bytes_eqI; auto simp: bit_simps)+
  then show ?thesis using be_bytes_add [of 4 4 v] by simp
qed

lemma be_bytes_inject:
  "LENGTH('a) = 8 * n \<Longrightarrow> be_bytes n v = be_bytes n w \<Longrightarrow> v = (w :: 'a::len word)"
  by (metis be_word_be_bytes_full)

lemma ntoh64_win_Little: "ntoh64_win Little v = ntoh64 Little v"
proof (rule be_bytes_inject [where n = 8])
  have "be_bytes 8 (ntoh64_win Little v) =
      rev (be_bytes 4 (ucast (drop_bit 32 v) :: u32) @ be_bytes 4 (ucast v :: u32))"
    by (simp add: ntoh64_win_def be_bytes_join ntoh32_def be_bytes_bswap)
  also have "\<dots> = be_bytes 8 (ntoh64 Little v)"
    by (simp only: be_bytes_halves) (simp add: ntoh64_def be_bytes_bswap)
  finally show "be_bytes 8 (ntoh64_win Little v) = be_bytes 8 (ntoh64 Little v)" .
qed simp

lemma hton64_win_Little: "hton64_win Little v = hton64 Little v"
proof -
  have "hton64_win Little v = ntoh64_win Little v"
    by (simp add: hton64_win_def ntoh64_win_def hton32_def ntoh32_def or.commute)
  then show ?thesis by (simp add: ntoh64_win_Little conv_defs)
qed

end
