(* ===== verification/Text_Util.thy ===== *)
theory Text_Util
  imports ThinBT_Prelude
begin

text \<open>
  Decimal numbers as text: what \<open>std::to_string\<close> and stream output print for unsigned integers,
  and how \<open>std::stoi\<close>-style readers take a leading run of digits back. Shared by the components
  that build or parse addresses, URLs and JSON text.
\<close>

definition digit_char :: "nat \<Rightarrow> char" where
  "digit_char d = char_of (48 + d)"

definition is_digit :: "char \<Rightarrow> bool" where
  "is_digit ch \<longleftrightarrow> 48 \<le> (of_char ch :: nat) \<and> (of_char ch :: nat) \<le> 57"

definition digit_val :: "char \<Rightarrow> nat" where
  "digit_val ch = of_char ch - 48"

fun show_nat :: "nat \<Rightarrow> string" where
  "show_nat n = (if n < 10 then [digit_char n] else show_nat (n div 10) @ [digit_char (n mod 10)])"

declare show_nat.simps [simp del]

definition digits_val :: "string \<Rightarrow> nat" where
  "digits_val s = foldl (\<lambda>acc ch. acc * 10 + digit_val ch) 0 s"

lemma digit_char_props:
  assumes "d < 10"
  shows "is_digit (digit_char d)" "digit_val (digit_char d) = d"
  using assms by (simp_all add: digit_char_def is_digit_def digit_val_def)

lemma show_nat_digits: "\<forall>ch \<in> set (show_nat n). is_digit ch"
proof (induction n rule: show_nat.induct)
  case (1 n)
  show ?case
  proof (cases "n < 10")
    case True
    then show ?thesis by (subst show_nat.simps) (simp add: digit_char_props)
  next
    case False
    then have "\<forall>ch \<in> set (show_nat (n div 10)). is_digit ch" using 1 by simp
    then show ?thesis using False by (subst show_nat.simps) (auto simp: digit_char_props)
  qed
qed

lemma show_nat_nonempty [simp]: "show_nat n \<noteq> []"
  by (subst show_nat.simps) simp

lemma digits_val_snoc: "digits_val (s @ [ch]) = digits_val s * 10 + digit_val ch"
  by (simp add: digits_val_def)

lemma digits_val_show_nat [simp]: "digits_val (show_nat n) = n"
proof (induction n rule: show_nat.induct)
  case (1 n)
  show ?case
  proof (cases "n < 10")
    case True
    then show ?thesis by (subst show_nat.simps) (simp add: digits_val_def digit_char_props)
  next
    case False
    then have "digits_val (show_nat (n div 10)) = n div 10" using 1 by simp
    then show ?thesis using False by (subst show_nat.simps) (simp add: digits_val_snoc digit_char_props)
  qed
qed

lemma takeWhile_digits:
  "takeWhile is_digit (show_nat n @ s) = show_nat n @ takeWhile is_digit s"
  "dropWhile is_digit (show_nat n @ s) = dropWhile is_digit s"
  using show_nat_digits[of n] by (simp_all add: takeWhile_append2 dropWhile_append2)

lemma show_nat_inject [simp]: "show_nat m = show_nat n \<longleftrightarrow> m = n"
  by (metis digits_val_show_nat)

end
