(* ===== verification/Hashing.thy ===== *)
theory Hashing
  imports Platform Text_Util "HOL-Library.Code_Target_Nat"
begin

unbundle bit_operations_syntax

text \<open>
  \<open>src/src/common/hash.hpp/.cpp\<close>: digests and their hexadecimal form, and the 64-bit xxHash. The
  OpenSSL calls are arguments: a digest function for the one-shot calls, a context with update and
  final functions for the file digest, each able to fail. A thrown exception is \<open>None\<close>.
\<close>

section \<open>SHA digests\<close>

definition sha256 :: "(bytes \<Rightarrow> bytes option) \<Rightarrow> bytes \<Rightarrow> bytes option" where
  "sha256 evp_sha256 data = evp_sha256 data"

definition sha1 :: "(bytes \<Rightarrow> bytes option) \<Rightarrow> bytes \<Rightarrow> bytes option" where
  "sha1 evp_sha1 data = evp_sha1 data"

record 'c evp_ctx =
  evp_init :: "'c option"
  evp_update :: "'c \<Rightarrow> bytes \<Rightarrow> 'c option"
  evp_final :: "'c \<Rightarrow> bytes option"

definition FILE_BUF :: nat where "FILE_BUF = 65536"

text \<open>The read loop: \<open>n\<close> bytes are expected, \<open>rest\<close> is what the stream still has.\<close>

function digest_loop :: "'c evp_ctx \<Rightarrow> nat \<Rightarrow> bytes \<Rightarrow> 'c \<Rightarrow> 'c option" where
  "digest_loop evp n rest ctx =
     (if n > 0
      then let chunk = (if n > FILE_BUF then FILE_BUF else n);
               buf = take chunk rest
           in if buf = [] then Some ctx
              else case evp_update evp ctx buf of
                     None \<Rightarrow> None
                   | Some ctx' \<Rightarrow> digest_loop evp (n - length buf) (drop chunk rest) ctx'
      else Some ctx)"
  by pat_completeness auto
termination
  by (relation "measure (\<lambda>(evp, n, rest, ctx). n)") (auto simp: FILE_BUF_def)

declare digest_loop.simps [simp del]

definition sha256_file :: "'c evp_ctx \<Rightarrow> bytes option \<Rightarrow> bytes option" where
  "sha256_file evp file =
     (case file of
        None \<Rightarrow> None
      | Some content \<Rightarrow>
          (case evp_init evp of
             None \<Rightarrow> None
           | Some ctx \<Rightarrow> Option.bind (digest_loop evp (length content) content ctx) (evp_final evp)))"

section \<open>Hexadecimal text\<close>

definition hex_digit :: "nat \<Rightarrow> char" where
  "hex_digit d = (if d < 10 then char_of (48 + d) else char_of (87 + d))"

definition hex_byte :: "u8 \<Rightarrow> string" where
  "hex_byte b = [hex_digit (unat b div 16), hex_digit (unat b mod 16)]"

definition digest_hex :: "bytes \<Rightarrow> string" where
  "digest_hex d = concat (map hex_byte d)"

section \<open>xxHash64\<close>

definition XXH_PRIME64_1 :: u64 where "XXH_PRIME64_1 = 0x9E3779B185EBCA87"
definition XXH_PRIME64_2 :: u64 where "XXH_PRIME64_2 = 0xC2B2AE3D27D4EB4F"
definition XXH_PRIME64_3 :: u64 where "XXH_PRIME64_3 = 0x165667B19E3779F9"
definition XXH_PRIME64_4 :: u64 where "XXH_PRIME64_4 = 0x85EBCA77C2B2AE63"
definition XXH_PRIME64_5 :: u64 where "XXH_PRIME64_5 = 0x27D4EB2F165667C5"

definition xxh_rotl64 :: "u64 \<Rightarrow> nat \<Rightarrow> u64" where
  "xxh_rotl64 x r = push_bit r x OR drop_bit (64 - r) x"

definition xxh64_round :: "u64 \<Rightarrow> u64 \<Rightarrow> u64" where
  "xxh64_round acc input = xxh_rotl64 (acc + input * XXH_PRIME64_2) 31 * XXH_PRIME64_1"

definition xxh64_avalanche :: "u64 \<Rightarrow> u64" where
  "xxh64_avalanche h =
     (let h1 = h XOR drop_bit 33 h; h2 = h1 * XXH_PRIME64_2;
          h3 = h2 XOR drop_bit 29 h2; h4 = h3 * XXH_PRIME64_3
      in h4 XOR drop_bit 32 h4)"

definition xxh_read64le :: "endian \<Rightarrow> bytes \<Rightarrow> u64" where
  "xxh_read64le e p = unmem e (take 8 p)"

type_synonym lanes = "u64 \<times> u64 \<times> u64 \<times> u64"

definition xxh_stripe :: "endian \<Rightarrow> bytes \<Rightarrow> lanes \<Rightarrow> lanes" where
  "xxh_stripe e p v = (case v of (v1, v2, v3, v4) \<Rightarrow>
     (xxh64_round v1 (xxh_read64le e p), xxh64_round v2 (xxh_read64le e (drop 8 p)),
      xxh64_round v3 (xxh_read64le e (drop 16 p)), xxh64_round v4 (xxh_read64le e (drop 24 p))))"

text \<open>\<open>for (; data <= limit - 32; data += 32)\<close> with \<open>limit = end - 32\<close>: a stripe is consumed while at
  least \<open>keep\<close> bytes are left, and the source's \<open>keep\<close> is 64.\<close>

function xxh_stripes :: "nat \<Rightarrow> endian \<Rightarrow> bytes \<Rightarrow> lanes \<Rightarrow> bytes \<times> lanes" where
  "xxh_stripes keep e p v =
     (if length p \<ge> keep \<and> length p \<ge> 32 then xxh_stripes keep e (drop 32 p) (xxh_stripe e p v) else (p, v))"
  by pat_completeness auto
termination
  by (relation "measure (\<lambda>(k, e, p, v). length p)") auto

declare xxh_stripes.simps [simp del]

definition xxh_merge :: "u64 \<Rightarrow> u64 \<Rightarrow> u64" where
  "xxh_merge h v = (h XOR (xxh_rotl64 (v * XXH_PRIME64_2) 31 * XXH_PRIME64_1)) * XXH_PRIME64_1 + XXH_PRIME64_4"

fun xxh_tail8 :: "endian \<Rightarrow> bytes \<Rightarrow> u64 \<Rightarrow> bytes \<times> u64" where
  "xxh_tail8 e (b0 # b1 # b2 # b3 # b4 # b5 # b6 # b7 # p) h =
     xxh_tail8 e p (xxh_rotl64 (h XOR xxh64_round 0 (xxh_read64le e [b0, b1, b2, b3, b4, b5, b6, b7])) 27 * XXH_PRIME64_1 + XXH_PRIME64_4)"
| "xxh_tail8 e p h = (p, h)"

definition xxh_tail4 :: "endian \<Rightarrow> bytes \<Rightarrow> u64 \<Rightarrow> bytes \<times> u64" where
  "xxh_tail4 e p h =
     (if length p \<ge> 4
      then (drop 4 p, xxh_rotl64 (h XOR (ucast (unmem e (take 4 p) :: u32) * XXH_PRIME64_1)) 23 * XXH_PRIME64_2 + XXH_PRIME64_3)
      else (p, h))"

definition xxh_tail1 :: "bytes \<Rightarrow> u64 \<Rightarrow> u64" where
  "xxh_tail1 p h = foldl (\<lambda>h b. xxh_rotl64 (h XOR (ucast b * XXH_PRIME64_5)) 11 * XXH_PRIME64_1) h p"

definition xxh_finish :: "endian \<Rightarrow> bytes \<Rightarrow> u64 \<Rightarrow> u64" where
  "xxh_finish e p h =
     (case xxh_tail8 e p h of (p1, h1) \<Rightarrow> case xxh_tail4 e p1 h1 of (p2, h2) \<Rightarrow> xxh64_avalanche (xxh_tail1 p2 h2))"

definition xxh_body :: "nat \<Rightarrow> endian \<Rightarrow> bytes \<Rightarrow> u64 \<Rightarrow> u64" where
  "xxh_body keep e data seed =
     (if length data \<ge> 32
      then case xxh_stripes keep e data (seed + XXH_PRIME64_1 + XXH_PRIME64_2, seed + XXH_PRIME64_2, seed, seed - XXH_PRIME64_1) of
             (p, v1, v2, v3, v4) \<Rightarrow>
               let h = xxh_rotl64 v1 1 + xxh_rotl64 v2 7 + xxh_rotl64 v3 12 + xxh_rotl64 v4 18;
                   h' = xxh_merge (xxh_merge (xxh_merge (xxh_merge h v1) v2) v3) v4
               in xxh_finish e p (h' + of_nat (length data))
      else xxh_finish e data (seed + XXH_PRIME64_5 + of_nat (length data)))"

definition xxhash64 :: "endian \<Rightarrow> bytes \<Rightarrow> u64 \<Rightarrow> u64" where
  "xxhash64 e data seed = xxh_body 64 e data seed"

section \<open>Properties\<close>

lemma digest_loop_update:
  assumes up: "\<And>c bs. evp_update evp c bs = Some (upd c bs)" and app: "\<And>c xs ys. upd (upd c xs) ys = upd c (xs @ ys)"
    and nil: "\<And>c. upd c [] = c"
  shows "digest_loop evp (length rest) rest ctx = Some (upd ctx rest)"
proof (induction "length rest" arbitrary: rest ctx rule: less_induct)
  case less
  let ?n = "if length rest > FILE_BUF then FILE_BUF else length rest"
  show ?case
  proof (cases "rest = []")
    case False
    have "digest_loop evp (length (drop ?n rest)) (drop ?n rest) (upd ctx (take ?n rest)) = Some (upd (upd ctx (take ?n rest)) (drop ?n rest))"
      using False by (intro less) (simp add: FILE_BUF_def)
    moreover have "length rest - length (take ?n rest) = length (drop ?n rest)" by simp
    moreover have "take ?n rest \<noteq> []" using False by (simp add: FILE_BUF_def)
    ultimately show ?thesis
      using False by (subst digest_loop.simps) (simp add: Let_def up app)
  qed (simp add: digest_loop.simps nil)
qed

text \<open>The file digest is the digest of the file: if the digest context absorbs data incrementally
  (feeding two pieces is feeding their concatenation) and ends with the one-shot digest, then
  \<open>sha256_file\<close>, which feeds the file in 64 KiB pieces, gives what \<open>sha256\<close> gives for the whole content.\<close>

theorem sha256_file_whole:
  assumes "evp_init evp = Some ini" "\<And>c bs. evp_update evp c bs = Some (upd c bs)"
    and "\<And>c xs ys. upd (upd c xs) ys = upd c (xs @ ys)" "\<And>c. upd c [] = c"
    and "\<And>bs. evp_final evp (upd ini bs) = evp_sha256 bs"
  shows "sha256_file evp (Some content) = sha256 evp_sha256 content"
  using digest_loop_update[of evp upd content ini] assms by (simp add: sha256_file_def sha256_def)

theorem sha256_file_whole_witness:
  "sha256_file \<lparr>evp_init = Some [], evp_update = (\<lambda>c bs. Some (c @ bs)), evp_final = (\<lambda>c. Some [of_nat (length c)])\<rparr> (Some [1, 2, 3])
     = sha256 (\<lambda>bs. Some [of_nat (length bs)]) [1, 2, 3]"
  by (rule sha256_file_whole[where ini = "[]" and upd = "(@)"]) simp_all

lemma hex_digit_inj: "a < 16 \<Longrightarrow> b < 16 \<Longrightarrow> hex_digit a = hex_digit b \<Longrightarrow> a = b"
proof -
  have "list_all (\<lambda>a. list_all (\<lambda>b. hex_digit a = hex_digit b \<longrightarrow> a = b) [0..<16]) [0..<16]" by code_simp
  then show "a < 16 \<Longrightarrow> b < 16 \<Longrightarrow> hex_digit a = hex_digit b \<Longrightarrow> a = b" by (simp add: list_all_iff)
qed

lemma hex_byte_inj: "hex_byte a = hex_byte b \<longleftrightarrow> a = b"
proof
  assume h: "hex_byte a = hex_byte b"
  have l: "unat x div 16 < 16" for x :: u8 using unsigned_less[of x, where ?'a = nat] by simp
  have "unat a div 16 = unat b div 16" "unat a mod 16 = unat b mod 16"
    using h hex_digit_inj l by (auto simp: hex_byte_def)
  then show "a = b" by (metis div_mult_mod_eq unsigned_word_eqI)
qed simp

text \<open>Digests and their text correspond one to one: the hexadecimal form has two characters per
  byte, and two digests print alike only if they are equal, so the trackers' string keys identify info
  hashes.\<close>

theorem digest_hex_faithful:
  "length (digest_hex d) = 2 * length d \<and> (digest_hex d = digest_hex d' \<longleftrightarrow> d = d')"
proof -
  have len: "length (digest_hex d) = 2 * length d" for d by (induction d) (simp_all add: digest_hex_def hex_byte_def)
  have "digest_hex d = digest_hex d' \<longleftrightarrow> d = d'"
  proof (induction d arbitrary: d')
    case Nil
    then show ?case by (cases d') (simp_all add: digest_hex_def hex_byte_def)
  next
    case (Cons b d)
    then show ?case
      using hex_byte_inj[of b] by (cases d') (auto simp: digest_hex_def hex_byte_def)
  qed
  then show ?thesis using len by simp
qed

lemma stripes_rest:
  assumes "32 \<le> keep"
  shows "length (fst (xxh_stripes keep e p v)) < keep
     \<and> (keep \<le> length p + 32 \<longrightarrow> keep \<le> length (fst (xxh_stripes keep e p v)) + 32)
     \<and> fst (xxh_stripes keep e p v) = drop (length p - length (fst (xxh_stripes keep e p v))) p"
  using assms
proof (induction keep e p v rule: xxh_stripes.induct)
  case (1 keep e p v)
  show ?case
  proof (cases "length p \<ge> keep")
    case True
    let ?r = "fst (xxh_stripes keep e (drop 32 p) (xxh_stripe e p v))"
    have "length p \<ge> 32" using True "1.prems" by simp
    then have s: "xxh_stripes keep e p v = xxh_stripes keep e (drop 32 p) (xxh_stripe e p v)"
      using True by (subst xxh_stripes.simps) simp
    have ih: "length ?r < keep" "keep \<le> length ?r + 32" "?r = drop (length (drop 32 p) - length ?r) (drop 32 p)"
      using "1.IH"[of] True \<open>length p \<ge> 32\<close> "1.prems" by auto
    have "length ?r \<le> length (drop 32 p)" by (subst ih(3)) simp
    then have "length (drop 32 p) - length ?r + 32 = length p - length ?r" using \<open>length p \<ge> 32\<close> by simp
    then have "?r = drop (length p - length ?r) p" using ih(3) by (simp add: add.commute)
    then show ?thesis using ih(1,2) unfolding s by blast
  next
    case False
    then show ?thesis by (subst (1 2 3 4) xxh_stripes.simps) simp
  qed
qed

text \<open>\<open>xxhash64\<close> is the published algorithm only for inputs shorter than 32 bytes. The published
  stripe loop leaves fewer than 32 bytes to the tail; the loop of the code always stops one stripe early
  and leaves between 32 and 63.\<close>

theorem xxhash64_short_only:
  "if length data < 32 then xxhash64 e data seed = xxh_body 32 e data seed
   else length (fst (xxh_stripes 32 e data v)) < 32 \<and> 32 \<le> length (fst (xxh_stripes 64 e data v))
     \<and> length (fst (xxh_stripes 64 e data v)) < 64"
  using stripes_rest[of 32 e data v] stripes_rest[of 64 e data v] by (auto simp: xxhash64_def xxh_body_def)

end
