(* ===== verification/Tseed.thy ===== *)
theory Tseed
  imports Platform
begin

unbundle bit_operations_syntax

text \<open>
  \<open>src/src/seed\<close>: the \<open>.tseed\<close> file. The packed structs \<open>TSeedHeader\<close> (92 bytes) and
  \<open>ChunkEntry\<close> (44 bytes) are records with their in-memory layout on a host of either byte
  order; \<open>write_tseed\<close> and \<open>read_tseed\<close> are the writer and the reader with their
  exceptions as values. SHA-1 and SHA-256 are OpenSSL's and appear as arguments. The lemmas
  show that a file written on any host is read back on any host, that every proper prefix of
  it is refused, and what the info hash is computed from.
\<close>

subsection \<open>Strings as bytes\<close>

definition bytes_of_string :: "string \<Rightarrow> bytes" where
  "bytes_of_string s = map (\<lambda>c. of_nat (of_char c)) s"

definition string_of_bytes :: "bytes \<Rightarrow> string" where
  "string_of_bytes bs = map (\<lambda>b. char_of (unat b)) bs"

lemma length_string_bytes [simp, wire_simps]:
  "length (bytes_of_string s) = length s" "length (string_of_bytes bs) = length bs"
  by (simp_all add: bytes_of_string_def string_of_bytes_def)

lemma string_bytes_inverse [simp, wire_simps]: "string_of_bytes (bytes_of_string s) = s"
proof -
  have "unat (of_nat (of_char c :: nat) :: u8) = of_char c" for c
    by (simp add: unat_of_nat)
  then show ?thesis by (simp add: string_of_bytes_def bytes_of_string_def comp_def)
qed

subsection \<open>The packed structs\<close>

record TSeedHeader =
  magic :: u32
  version :: u16
  flags :: u16
  chunk_count :: u32
  file_size :: u64
  min_chunk_size :: u32
  avg_chunk_size :: u32
  max_chunk_size :: u32
  file_name_len :: u32
  announce_len :: u32
  reserved :: bytes
  file_sha256 :: bytes

definition MAGIC :: u32 where
  "MAGIC = 0x54425344"

record ChunkEntry =
  ce_offset :: u64
  ce_length :: u32
  ce_sha256 :: bytes

definition header_to_host_endian :: "endian \<Rightarrow> TSeedHeader \<Rightarrow> TSeedHeader" where
  "header_to_host_endian e h = h\<lparr>
     magic := ntoh32 e (magic h),
     version := ntoh16 e (version h),
     flags := ntoh16 e (flags h),
     chunk_count := ntoh32 e (chunk_count h),
     file_size := ntoh64 e (file_size h),
     min_chunk_size := ntoh32 e (min_chunk_size h),
     avg_chunk_size := ntoh32 e (avg_chunk_size h),
     max_chunk_size := ntoh32 e (max_chunk_size h),
     file_name_len := ntoh32 e (file_name_len h),
     announce_len := ntoh32 e (announce_len h)\<rparr>"

definition header_to_network_endian :: "endian \<Rightarrow> TSeedHeader \<Rightarrow> TSeedHeader" where
  "header_to_network_endian e h = h\<lparr>
     magic := hton32 e (magic h),
     version := hton16 e (version h),
     flags := hton16 e (flags h),
     chunk_count := hton32 e (chunk_count h),
     file_size := hton64 e (file_size h),
     min_chunk_size := hton32 e (min_chunk_size h),
     avg_chunk_size := hton32 e (avg_chunk_size h),
     max_chunk_size := hton32 e (max_chunk_size h),
     file_name_len := hton32 e (file_name_len h),
     announce_len := hton32 e (announce_len h)\<rparr>"

definition entry_to_host_endian :: "endian \<Rightarrow> ChunkEntry \<Rightarrow> ChunkEntry" where
  "entry_to_host_endian e c =
     c\<lparr>ce_offset := ntoh64 e (ce_offset c), ce_length := ntoh32 e (ce_length c)\<rparr>"

definition entry_to_network_endian :: "endian \<Rightarrow> ChunkEntry \<Rightarrow> ChunkEntry" where
  "entry_to_network_endian e c =
     c\<lparr>ce_offset := hton64 e (ce_offset c), ce_length := hton32 e (ce_length c)\<rparr>"

text \<open>The bytes of the packed objects, field after field, and the objects read from bytes.\<close>

definition header_mem :: "endian \<Rightarrow> TSeedHeader \<Rightarrow> bytes" where
  "header_mem e h =
     mem e 4 (magic h) @ mem e 2 (version h) @ mem e 2 (flags h) @ mem e 4 (chunk_count h)
     @ mem e 8 (file_size h) @ mem e 4 (min_chunk_size h) @ mem e 4 (avg_chunk_size h)
     @ mem e 4 (max_chunk_size h) @ mem e 4 (file_name_len h) @ mem e 4 (announce_len h)
     @ reserved h @ file_sha256 h"

definition sub_bytes :: "nat \<Rightarrow> nat \<Rightarrow> bytes \<Rightarrow> bytes" where
  "sub_bytes off n bs = take n (drop off bs)"

definition header_of_mem :: "endian \<Rightarrow> bytes \<Rightarrow> TSeedHeader" where
  "header_of_mem e bs = \<lparr>
     magic = unmem e (sub_bytes 0 4 bs),
     version = unmem e (sub_bytes 4 2 bs),
     flags = unmem e (sub_bytes 6 2 bs),
     chunk_count = unmem e (sub_bytes 8 4 bs),
     file_size = unmem e (sub_bytes 12 8 bs),
     min_chunk_size = unmem e (sub_bytes 20 4 bs),
     avg_chunk_size = unmem e (sub_bytes 24 4 bs),
     max_chunk_size = unmem e (sub_bytes 28 4 bs),
     file_name_len = unmem e (sub_bytes 32 4 bs),
     announce_len = unmem e (sub_bytes 36 4 bs),
     reserved = sub_bytes 40 20 bs,
     file_sha256 = sub_bytes 60 32 bs\<rparr>"

definition entry_mem :: "endian \<Rightarrow> ChunkEntry \<Rightarrow> bytes" where
  "entry_mem e c = mem e 8 (ce_offset c) @ mem e 4 (ce_length c) @ ce_sha256 c"

definition entry_of_mem :: "endian \<Rightarrow> bytes \<Rightarrow> ChunkEntry" where
  "entry_of_mem e bs = \<lparr>
     ce_offset = unmem e (sub_bytes 0 8 bs),
     ce_length = unmem e (sub_bytes 8 4 bs),
     ce_sha256 = sub_bytes 12 32 bs\<rparr>"

subsection \<open>Layout facts\<close>

definition wf_header :: "TSeedHeader \<Rightarrow> bool" where
  "wf_header h \<longleftrightarrow> length (reserved h) = 20 \<and> length (file_sha256 h) = 32"

definition wf_entry :: "ChunkEntry \<Rightarrow> bool" where
  "wf_entry c \<longleftrightarrow> length (ce_sha256 c) = 32"

lemma sub_bytes_append [wire_simps]:
  "off + n \<le> length xs \<Longrightarrow> sub_bytes off n (xs @ ys) = sub_bytes off n xs"
  "length xs \<le> off \<Longrightarrow> sub_bytes off n (xs @ ys) = sub_bytes (off - length xs) n ys"
  by (simp_all add: sub_bytes_def)

lemma sub_bytes_all [wire_simps]: "length xs = n \<Longrightarrow> sub_bytes 0 n xs = xs"
  by (simp add: sub_bytes_def)

lemma length_header_mem [wire_simps]: "wf_header h \<Longrightarrow> length (header_mem e h) = 92"
  by (simp add: header_mem_def wf_header_def)

lemma length_entry_mem [wire_simps]: "wf_entry c \<Longrightarrow> length (entry_mem e c) = 44"
  by (simp add: entry_mem_def wf_entry_def)

lemma header_of_mem_mem [wire_simps]: "wf_header h \<Longrightarrow> header_of_mem e (header_mem e h) = h"
  by (cases h) (simp add: header_mem_def header_of_mem_def wf_header_def wire_simps)

lemma entry_of_mem_mem [wire_simps]: "wf_entry c \<Longrightarrow> entry_of_mem e (entry_mem e c) = c"
  by (cases c) (simp add: entry_mem_def entry_of_mem_def wf_entry_def wire_simps)

text \<open>What the readers rely on of a packed struct: a fixed width, and a copy of its memory gives it back.\<close>

locale wire_codec =
  fixes width :: nat and enc :: "'a \<Rightarrow> bytes" and dec :: "bytes \<Rightarrow> 'a" and wf :: "'a \<Rightarrow> bool"
  assumes enc_width: "wf x \<Longrightarrow> length (enc x) = width"
    and dec_enc: "wf x \<Longrightarrow> dec (enc x) = x"
begin

lemma enc_inj: "wf x \<Longrightarrow> wf y \<Longrightarrow> enc x = enc y \<Longrightarrow> x = y"
  using dec_enc by metis

lemma length_array: "\<forall>x \<in> set xs. wf x \<Longrightarrow> length (concat (map enc xs)) = length xs * width"
  by (induction xs) (auto simp: enc_width)

lemma slice_array:
  "\<forall>x \<in> set xs. wf x \<Longrightarrow> i < length xs \<Longrightarrow>
     sub_bytes (i * width) width (concat (map enc xs) @ ys) = enc (xs ! i)"
proof (induction xs arbitrary: i)
  case (Cons x xs)
  then show ?case by (cases i) (auto simp: sub_bytes_def enc_width)
qed simp

lemma read_array:
  assumes "\<forall>x \<in> set xs. wf x"
  shows "map (\<lambda>i. dec (sub_bytes (i * width) width (concat (map enc xs) @ ys))) [0..<length xs] = xs"
  using assms by (intro nth_equalityI) (simp_all add: slice_array dec_enc)

end

interpretation header_codec: wire_codec 92 "header_mem e" "header_of_mem e" wf_header for e
  by unfold_locales (simp_all add: length_header_mem header_of_mem_mem)

interpretation entry_codec: wire_codec 44 "entry_mem e" "entry_of_mem e" wf_entry for e
  by unfold_locales (simp_all add: length_entry_mem entry_of_mem_mem)

lemma wf_to_network [simp]:
  "wf_header (header_to_network_endian e h) = wf_header h"
  "wf_entry (entry_to_network_endian e c) = wf_entry c"
  by (simp_all add: header_to_network_endian_def entry_to_network_endian_def wf_header_def
      wf_entry_def)

lemma to_host_to_network [simp, wire_simps]:
  "header_to_host_endian e (header_to_network_endian e h) = h"
  "entry_to_host_endian e (entry_to_network_endian e c) = c"
  by (simp_all add: header_to_host_endian_def header_to_network_endian_def
      entry_to_host_endian_def entry_to_network_endian_def)

text \<open>
  The bytes of a header or an entry in network order do not depend on the host: they are the
  ones a big-endian host has.
\<close>

lemma header_mem_network: "header_mem e (header_to_network_endian e h) = header_mem Big h"
  by (simp add: header_mem_def header_to_network_endian_def) (simp add: mem_def)

lemma entry_mem_network: "entry_mem e (entry_to_network_endian e c) = entry_mem Big c"
  by (simp add: entry_mem_def entry_to_network_endian_def) (simp add: mem_def)

subsection \<open>The writer\<close>

datatype seed_error =
    CannotOpenSeed
  | UnexpectedEOF
  | InvalidMagic
  | UnsupportedVersion u16
  | CannotOpenSource
  | CannotCreate
  | WriteFailed

definition total_file_size :: "ChunkEntry list \<Rightarrow> u64" where
  "total_file_size chunks =
     foldl (\<lambda>total c. let chunk_end = ce_offset c + ucast (ce_length c)
                     in if chunk_end > total then chunk_end else total) 0 chunks"

definition seed_header ::
    "(bytes \<Rightarrow> bytes) \<Rightarrow> bytes \<Rightarrow> string \<Rightarrow> string \<Rightarrow> ChunkEntry list
      \<Rightarrow> u32 \<Rightarrow> u32 \<Rightarrow> u32 \<Rightarrow> TSeedHeader" where
  "seed_header sha256 content file_name announce_url chunks mn av mx = \<lparr>
     magic = MAGIC,
     version = 1,
     flags = 0,
     chunk_count = of_nat (length chunks),
     file_size = total_file_size chunks,
     min_chunk_size = mn,
     avg_chunk_size = av,
     max_chunk_size = mx,
     file_name_len = of_nat (length file_name),
     announce_len = of_nat (length announce_url),
     reserved = replicate 20 0,
     file_sha256 = sha256 content\<rparr>"

text \<open>
  \<open>write_tseed\<close> digests the source file first (\<open>source\<close> is its content, \<open>None\<close> when it
  cannot be opened), then creates the output; \<open>created\<close> and \<open>written\<close> say whether the output
  stream opened and whether it was still good at the end.
\<close>

definition write_tseed ::
    "endian \<Rightarrow> (bytes \<Rightarrow> bytes) \<Rightarrow> bytes option \<Rightarrow> bool \<Rightarrow> bool \<Rightarrow> string \<Rightarrow> string
      \<Rightarrow> ChunkEntry list \<Rightarrow> u32 \<Rightarrow> u32 \<Rightarrow> u32 \<Rightarrow> seed_error + bytes" where
  "write_tseed e sha256 source created written file_name announce_url chunks mn av mx =
     (case source of
        None \<Rightarrow> Inl CannotOpenSource
      | Some content \<Rightarrow>
          let hdr = header_to_network_endian e
                      (seed_header sha256 content file_name announce_url chunks mn av mx)
          in if \<not> created then Inl CannotCreate
             else let out = header_mem e hdr @ bytes_of_string file_name
                        @ bytes_of_string announce_url
                        @ concat (map (\<lambda>c. entry_mem e (entry_to_network_endian e c)) chunks)
                  in if written then Inr out else Inl WriteFailed)"

subsection \<open>The reader\<close>

record TSeedFile =
  header :: TSeedHeader
  file_name :: string
  announce_url :: string
  chunks :: "ChunkEntry list"
  info_hash :: bytes

definition compute_info_hash ::
    "endian \<Rightarrow> (bytes \<Rightarrow> bytes) \<Rightarrow> TSeedHeader \<Rightarrow> ChunkEntry list \<Rightarrow> bytes" where
  "compute_info_hash e sha1 h cs =
     sha1 (file_sha256 h
       @ concat (map (\<lambda>c. mem e 8 (hton64 e (ce_offset c)) @ mem e 4 (hton32 e (ce_length c))
                         @ ce_sha256 c) cs))"

definition read_exact :: "nat \<Rightarrow> bytes \<Rightarrow> seed_error + bytes \<times> bytes" where
  "read_exact n bs = (if length bs < n then Inl UnexpectedEOF else Inr (take n bs, drop n bs))"

fun read_entries :: "endian \<Rightarrow> bool \<Rightarrow> nat \<Rightarrow> bytes \<Rightarrow> seed_error + ChunkEntry list" where
  "read_entries e needs_swap 0 bs = Inr []"
| "read_entries e needs_swap (Suc n) bs =
     (case read_exact 44 bs of
        Inl err \<Rightarrow> Inl err
      | Inr (raw, rest) \<Rightarrow>
          (case read_entries e needs_swap n rest of
             Inl err \<Rightarrow> Inl err
           | Inr cs \<Rightarrow> Inr ((if needs_swap then entry_to_host_endian e (entry_of_mem e raw)
                            else entry_of_mem e raw) # cs)))"

definition read_header :: "endian \<Rightarrow> bytes \<Rightarrow> seed_error + bool \<times> TSeedHeader \<times> bytes" where
  "read_header e bs =
     (case read_exact 92 bs of
        Inl err \<Rightarrow> Inl err
      | Inr (raw, rest) \<Rightarrow>
          let h0 = header_of_mem e raw;
              needs_swap = (magic h0 \<noteq> MAGIC);
              h = (if needs_swap then header_to_host_endian e h0 else h0)
          in if needs_swap \<and> magic h \<noteq> MAGIC then Inl InvalidMagic
             else if version h < 1 \<or> version h > 4 then Inl (UnsupportedVersion (version h))
             else Inr (needs_swap, h, rest))"

definition read_tseed ::
    "endian \<Rightarrow> (bytes \<Rightarrow> bytes) \<Rightarrow> bytes option \<Rightarrow> seed_error + TSeedFile" where
  "read_tseed e sha1 file =
     (case file of
        None \<Rightarrow> Inl CannotOpenSeed
      | Some bs \<Rightarrow>
          (case read_header e bs of
             Inl err \<Rightarrow> Inl err
           | Inr (needs_swap, h, r1) \<Rightarrow>
               (case read_exact (unat (file_name_len h)) r1 of
                  Inl err \<Rightarrow> Inl err
                | Inr (name, r2) \<Rightarrow>
                    (case read_exact (unat (announce_len h)) r2 of
                       Inl err \<Rightarrow> Inl err
                     | Inr (url, r3) \<Rightarrow>
                         (case read_entries e needs_swap (unat (chunk_count h)) r3 of
                            Inl err \<Rightarrow> Inl err
                          | Inr cs \<Rightarrow> Inr \<lparr>header = h, file_name = string_of_bytes name,
                              announce_url = string_of_bytes url, chunks = cs,
                              info_hash = compute_info_hash e sha1 h cs\<rparr>)))))"

subsection \<open>Reading back what was written\<close>

definition seed_file :: "TSeedHeader \<Rightarrow> string \<Rightarrow> string \<Rightarrow> ChunkEntry list \<Rightarrow> bytes" where
  "seed_file h name url cs =
     header_mem Big h @ bytes_of_string name @ bytes_of_string url @ concat (map (entry_mem Big) cs)"

lemma write_tseed_ok:
  "write_tseed e sha256 (Some content) True True name url cs mn av mx =
     Inr (seed_file (seed_header sha256 content name url cs mn av mx) name url cs)"
  by (simp add: write_tseed_def seed_file_def header_mem_network entry_mem_network)

lemma read_exact_append [simp]:
  "length xs = n \<Longrightarrow> read_exact n (xs @ ys) = Inr (xs, ys)"
  by (simp add: read_exact_def)

lemma header_of_Big:
  "wf_header h \<Longrightarrow> header_of_mem Little (header_mem Big h) = header_to_network_endian Little h"
  by (metis header_mem_network header_of_mem_mem wf_to_network(1))

lemma entry_of_Big:
  "wf_entry c \<Longrightarrow> entry_of_mem Little (entry_mem Big c) = entry_to_network_endian Little c"
  by (metis entry_mem_network entry_of_mem_mem wf_to_network(2))

lemma swapped_MAGIC: "hton32 Little MAGIC \<noteq> MAGIC"
  by code_simp

lemma read_header_Big:
  assumes "wf_header h" "magic h = MAGIC" "version h \<noteq> 0" "version h \<le> 4"
  shows "read_header e (header_mem Big h @ rest) = Inr (e = Little, h, rest)"
proof (cases e)
  case Little
  have "magic (header_to_network_endian Little h) \<noteq> MAGIC"
    using swapped_MAGIC assms(2) by (simp add: header_to_network_endian_def)
  with assms Little show ?thesis
    by (simp add: read_header_def length_header_mem header_of_Big not_less Let_def)
next
  case Big
  with assms show ?thesis
    by (simp add: read_header_def length_header_mem header_of_mem_mem not_less Let_def)
qed

lemma read_entries_Big:
  "\<forall>c \<in> set cs. wf_entry c \<Longrightarrow>
     read_entries e (e = Little) (length cs) (concat (map (entry_mem Big) cs) @ rest) = Inr cs"
proof (induction cs)
  case (Cons c cs)
  then show ?case
    by (cases e) (simp_all add: length_entry_mem entry_of_Big entry_of_mem_mem)
qed simp

lemma read_seed_file:
  assumes "wf_header h" "magic h = MAGIC" "version h \<noteq> 0" "version h \<le> 4"
    and "\<forall>c \<in> set cs. wf_entry c"
    and "unat (chunk_count h) = length cs" "unat (file_name_len h) = length name"
      "unat (announce_len h) = length url"
  shows "read_tseed e sha1 (Some (seed_file h name url cs @ trailing)) =
     Inr \<lparr>header = h, file_name = name, announce_url = url, chunks = cs,
          info_hash = compute_info_hash e sha1 h cs\<rparr>"
  using assms by (simp add: read_tseed_def seed_file_def read_header_Big read_entries_Big)

lemma wf_seed_header [simp]:
  "length (sha256 content) = 32 \<Longrightarrow> wf_header (seed_header sha256 content name url cs mn av mx)"
  by (simp add: wf_header_def seed_header_def)

subsection \<open>Truncated files\<close>

lemma read_entries_short:
  "length bs < 44 * n \<Longrightarrow> read_entries e sw n bs = Inl UnexpectedEOF"
proof (induction n arbitrary: bs)
  case (Suc n)
  show ?case
  proof (cases "length bs < 44")
    case False
    with Suc have "read_entries e sw n (drop 44 bs) = Inl UnexpectedEOF" by simp
    with False show ?thesis by (simp add: read_exact_def)
  qed (simp add: read_exact_def)
qed simp

lemma length_concat_entries:
  "\<forall>c \<in> set cs. wf_entry c \<Longrightarrow> length (concat (map (entry_mem Big) cs)) = 44 * length cs"
  by (induction cs) (auto simp: length_entry_mem)

lemma take_append_long: "length xs \<le> n \<Longrightarrow> take n (xs @ ys) = xs @ take (n - length xs) ys"
  by simp

lemma read_exact_short: "length bs < n \<Longrightarrow> read_exact n bs = Inl UnexpectedEOF"
  by (simp add: read_exact_def)

lemma read_tseed_after_header:
  assumes "wf_header h" "magic h = MAGIC" "version h \<noteq> 0" "version h \<le> 4"
  shows "read_tseed e sha1 (Some (header_mem Big h @ r1)) =
     (case read_exact (unat (file_name_len h)) r1 of
        Inl err \<Rightarrow> Inl err
      | Inr (name, r2) \<Rightarrow>
          (case read_exact (unat (announce_len h)) r2 of
             Inl err \<Rightarrow> Inl err
           | Inr (url, r3) \<Rightarrow>
               (case read_entries e (e = Little) (unat (chunk_count h)) r3 of
                  Inl err \<Rightarrow> Inl err
                | Inr cs \<Rightarrow> Inr \<lparr>header = h, file_name = string_of_bytes name,
                    announce_url = string_of_bytes url, chunks = cs,
                    info_hash = compute_info_hash e sha1 h cs\<rparr>)))"
  using assms by (simp add: read_tseed_def read_header_Big)

lemma read_seed_file_truncated:
  assumes h: "wf_header h" "magic h = MAGIC" "version h \<noteq> 0" "version h \<le> 4"
    and cs: "\<forall>c \<in> set cs. wf_entry c"
    and len: "unat (chunk_count h) = length cs" "unat (file_name_len h) = length name"
      "unat (announce_len h) = length url"
    and n: "n < length (seed_file h name url cs)"
  shows "read_tseed e sha1 (Some (take n (seed_file h name url cs))) = Inl UnexpectedEOF"
proof (cases "n < 92")
  case True
  then show ?thesis
    by (simp add: read_tseed_def read_header_def read_exact_short)
next
  case False
  define r1 where "r1 = take (n - 92)
    (bytes_of_string name @ bytes_of_string url @ concat (map (entry_mem Big) cs))"
  have eq: "take n (seed_file h name url cs) = header_mem Big h @ r1"
    using False by (simp add: seed_file_def r1_def length_header_mem [OF h(1)])
  have r1: "length r1 < length name + length url + 44 * length cs" "length r1 = n - 92"
    using n False by (auto simp: r1_def seed_file_def length_header_mem [OF h(1)]
        length_concat_entries [OF cs])
  show ?thesis unfolding eq read_tseed_after_header [OF h]
    using r1 len by (auto simp: read_exact_def read_entries_short)
qed

subsection \<open>Properties\<close>

lemma wf_seed_header_fields:
  assumes "length cs < 2 ^ 32" "length name < 2 ^ 32" "length url < 2 ^ 32"
  shows "unat (chunk_count (seed_header sha256 content name url cs mn av mx)) = length cs"
    "unat (file_name_len (seed_header sha256 content name url cs mn av mx)) = length name"
    "unat (announce_len (seed_header sha256 content name url cs mn av mx)) = length url"
    "magic (seed_header sha256 content name url cs mn av mx) = MAGIC"
    "version (seed_header sha256 content name url cs mn av mx) \<noteq> 0"
    "version (seed_header sha256 content name url cs mn av mx) \<le> 4"
  using assms by (simp_all add: seed_header_def unat_of_nat take_bit_eq_mod)

text \<open>C7. A seed file written on a host of any byte order is read back on a host of any byte
  order with the header, the names and the chunk table it was written from, whatever bytes
  follow it in the file.\<close>

theorem tseed_roundtrip:
  assumes "length (sha256 content) = 32"
    and "\<forall>c \<in> set cs. wf_entry c"
    and "length cs < 2 ^ 32" "length name < 2 ^ 32" "length url < 2 ^ 32"
  shows "\<exists>out. write_tseed e1 sha256 (Some content) True True name url cs mn av mx = Inr out \<and>
     read_tseed e2 sha1 (Some (out @ trailing)) =
       Inr \<lparr>header = seed_header sha256 content name url cs mn av mx,
            file_name = name, announce_url = url, chunks = cs,
            info_hash = compute_info_hash e2 sha1
              (seed_header sha256 content name url cs mn av mx) cs\<rparr>"
  using assms by (simp add: write_tseed_ok read_seed_file wf_seed_header_fields)

definition example_entries :: "ChunkEntry list" where
  "example_entries =
     [\<lparr>ce_offset = 0, ce_length = 2, ce_sha256 = replicate 32 7\<rparr>,
      \<lparr>ce_offset = 2, ce_length = 1, ce_sha256 = replicate 32 9\<rparr>]"

lemma example_entries_wf: "\<forall>c \<in> set example_entries. wf_entry c"
  by (simp add: example_entries_def wf_entry_def)

theorem tseed_roundtrip_witness:
  "\<exists>out. write_tseed Little (\<lambda>_. replicate 32 5) (Some [1, 2, 3]) True True ''a.img'' ''thinbt://h:1''
        example_entries 16384 131072 1048576 = Inr out \<and>
     read_tseed Big (\<lambda>_. [1]) (Some (out @ [0])) =
       Inr \<lparr>header = seed_header (\<lambda>_. replicate 32 5) [1, 2, 3] ''a.img'' ''thinbt://h:1''
              example_entries 16384 131072 1048576,
            file_name = ''a.img'', announce_url = ''thinbt://h:1'', chunks = example_entries,
            info_hash = [1]\<rparr>"
  using tseed_roundtrip [of "\<lambda>_. replicate 32 5" "[1, 2, 3]" example_entries "''a.img''"
      "''thinbt://h:1''" Little 16384 131072 1048576 Big "\<lambda>_. [1]" "[0]"]
    example_entries_wf
  by (simp add: example_entries_def compute_info_hash_def)

text \<open>C14. Every proper prefix of a seed file is refused with the end-of-file error: a seed
  cut short in transfer is never taken for a shorter one.\<close>

theorem tseed_truncation_refused:
  assumes "length (sha256 content) = 32"
    and "\<forall>c \<in> set cs. wf_entry c"
    and "length cs < 2 ^ 32" "length name < 2 ^ 32" "length url < 2 ^ 32"
    and "write_tseed e1 sha256 (Some content) True True name url cs mn av mx = Inr out"
    and "n < length out"
  shows "read_tseed e2 sha1 (Some (take n out)) = Inl UnexpectedEOF"
  using assms by (auto simp: write_tseed_ok wf_seed_header_fields
      intro!: read_seed_file_truncated)

theorem tseed_truncation_refused_witness:
  "read_tseed Little (\<lambda>_. [1])
     (Some (take 100 (seed_file (seed_header (\<lambda>_. replicate 32 5) [1, 2, 3] ''a.img''
        ''thinbt://h:1'' example_entries 16384 131072 1048576)
        ''a.img'' ''thinbt://h:1'' example_entries))) = Inl UnexpectedEOF"
proof -
  have "100 < length (seed_file (seed_header (\<lambda>_. replicate 32 5) [1, 2, 3] ''a.img''
        ''thinbt://h:1'' example_entries 16384 131072 1048576)
        ''a.img'' ''thinbt://h:1'' example_entries)"
    by (simp add: seed_file_def example_entries_def entry_mem_def header_mem_def seed_header_def)
  then show ?thesis
    using tseed_truncation_refused [of "\<lambda>_. replicate 32 5" "[1, 2, 3]" example_entries
        "''a.img''" "''thinbt://h:1''" Little 16384 131072 1048576, OF _ example_entries_wf _ _ _
        write_tseed_ok, where n = 100 and ?e2.0 = Little and ?sha1.0 = "\<lambda>_. [1]"]
    by (simp add: example_entries_def)
qed

subsection \<open>What the reader returns\<close>

lemma read_exact_facts: "read_exact n bs = Inr (xs, ys) \<Longrightarrow> bs = xs @ ys \<and> length xs = n"
  by (auto simp: read_exact_def split: if_splits)

lemma read_entries_facts:
  "read_entries e sw n bs = Inr cs \<Longrightarrow> length cs = n \<and> (\<forall>c \<in> set cs. wf_entry c) \<and> 44 * n \<le> length bs"
proof (induction n arbitrary: bs cs)
  case (Suc n)
  then obtain raw rest cs' where x: "read_exact 44 bs = Inr (raw, rest)" "read_entries e sw n rest = Inr cs'"
      "cs = (if sw then entry_to_host_endian e (entry_of_mem e raw) else entry_of_mem e raw) # cs'"
    by (auto split: sum.splits prod.splits)
  then show ?case using Suc.IH[OF x(2)] read_exact_facts[OF x(1)]
    by (auto simp: wf_entry_def entry_to_host_endian_def entry_of_mem_def sub_bytes_def)
qed simp

lemma read_header_facts:
  assumes "read_header e bs = Inr (sw, h, rest)"
  shows "length bs = 92 + length rest \<and> wf_header h \<and> magic h = MAGIC \<and> 1 \<le> version h \<and> version h \<le> 4"
proof -
  obtain raw where raw: "read_exact 92 bs = Inr (raw, rest)" "sw = (magic (header_of_mem e raw) \<noteq> MAGIC)"
      "h = (if sw then header_to_host_endian e (header_of_mem e raw) else header_of_mem e raw)"
      "\<not> (sw \<and> magic h \<noteq> MAGIC)" "\<not> (version h < 1 \<or> version h > 4)"
    using assms by (auto simp: read_header_def Let_def split: sum.splits prod.splits if_splits)
  have "length bs = 92 + length rest" "wf_header h"
    using raw(3) read_exact_facts[OF raw(1)]
    by (auto simp: wf_header_def header_to_host_endian_def header_of_mem_def sub_bytes_def)
  moreover have "magic h = MAGIC" using raw(2-4) by (cases sw) simp_all
  moreover have "1 \<le> version h" "version h \<le> 4" using raw(5) by (simp_all only: not_less de_Morgan_disj)
  ultimately show ?thesis by simp
qed

lemma read_tseed_parts:
  assumes "read_tseed e sha1 file = Inr seed"
  obtains bs sw name url r1 r2 r3 where "file = Some bs" "read_header e bs = Inr (sw, header seed, r1)"
    "read_exact (unat (file_name_len (header seed))) r1 = Inr (name, r2)" "file_name seed = string_of_bytes name"
    "read_exact (unat (announce_len (header seed))) r2 = Inr (url, r3)" "announce_url seed = string_of_bytes url"
    "read_entries e sw (unat (chunk_count (header seed))) r3 = Inr (chunks seed)"
    "info_hash seed = compute_info_hash e sha1 (header seed) (chunks seed)"
  using assms that by (auto simp: read_tseed_def split: option.splits sum.splits prod.splits)

lemma read_tseed_chunks:
  assumes "read_tseed e sha1 file = Inr seed"
  shows "length (chunks seed) = unat (chunk_count (header seed))"
  using read_tseed_parts[OF assms] read_entries_facts by metis

text \<open>C27. Whatever bytes are read as a seed, on any host, the result is well-formed: magic and version are
  valid, the fixed-size fields have their sizes, the name and the URL have the announced lengths, there
  are as many entries as the header counts, each with a 32-byte digest, and all of it was in the file.\<close>

theorem read_tseed_type:
  assumes "read_tseed e sha1 file = Inr seed"
  shows "magic (header seed) = MAGIC \<and> 1 \<le> version (header seed) \<and> version (header seed) \<le> 4 \<and> wf_header (header seed)
    \<and> length (file_name seed) = unat (file_name_len (header seed)) \<and> length (announce_url seed) = unat (announce_len (header seed))
    \<and> length (chunks seed) = unat (chunk_count (header seed)) \<and> (\<forall>c \<in> set (chunks seed). wf_entry c)
    \<and> 92 + length (file_name seed) + length (announce_url seed) + 44 * length (chunks seed) \<le> length (the file)"
proof -
  obtain bs sw name url r1 r2 r3 where p: "file = Some bs" "read_header e bs = Inr (sw, header seed, r1)"
    "read_exact (unat (file_name_len (header seed))) r1 = Inr (name, r2)" "file_name seed = string_of_bytes name"
    "read_exact (unat (announce_len (header seed))) r2 = Inr (url, r3)" "announce_url seed = string_of_bytes url"
    "read_entries e sw (unat (chunk_count (header seed))) r3 = Inr (chunks seed)"
    using read_tseed_parts[OF assms] by metis
  then show ?thesis
    using read_header_facts[OF p(2)] read_exact_facts[OF p(3)] read_exact_facts[OF p(5)] read_entries_facts[OF p(7)]
    by (simp add: string_of_bytes_def)
qed

theorem read_tseed_type_witness:
  "\<exists>seed. read_tseed Little (\<lambda>_. [1])
      (Some (seed_file (seed_header (\<lambda>_. replicate 32 5) [1, 2, 3] ''a.img'' ''thinbt://h:1'' example_entries 16384 131072 1048576)
        ''a.img'' ''thinbt://h:1'' example_entries)) = Inr seed \<and> length (chunks seed) = 2 \<and> wf_header (header seed)"
proof -
  let ?h = "seed_header (\<lambda>_. replicate 32 5) [1, 2, 3] ''a.img'' ''thinbt://h:1'' example_entries 16384 131072 1048576"
  obtain seed where r: "read_tseed Little (\<lambda>_. [1]) (Some (seed_file ?h ''a.img'' ''thinbt://h:1'' example_entries)) = Inr seed"
      "header seed = ?h"
    using read_seed_file[of ?h example_entries "''a.img''" "''thinbt://h:1''" Little "\<lambda>_. [1]" "[]"] example_entries_wf
    by (auto simp: wf_seed_header_fields example_entries_def)
  then show ?thesis using read_tseed_type[OF r(1)] by (simp add: seed_header_def example_entries_def)
qed

end
