(* ===== verification/Workers.thy ===== *)
theory Workers
  imports Scheduler Hashing Tseed
begin

unbundle bit_operations_syntax

text \<open>
  The download pools of a task: \<open>src/src/daemon/io_worker.cpp\<close> (pieces are written to the mapped
  file) and \<open>verify_worker.cpp\<close> (complete chunks are hashed). A pool is a record of its queues and of the program points of its
  threads; a step moves one thread, so an interleaving is a sequence of steps. The lock-free queues
  are third-party: a single-producer queue is a list, the multi-producer queue is a list from which a
  consumer takes any element. A step is \<open>None\<close> where the code indexes out of bounds, divides by zero
  or lets an exception leave a thread. Inside \<open>on_piece\<close> a thread moves by one atomic operation of
  \<open>Chunk_Assembler\<close> at a time. Hashing a chunk reads the mapped memory in one step.
\<close>

section \<open>I/O workers\<close>

record PieceTask =
  pt_chunk_idx :: u32
  pt_begin :: u32
  pt_peer_slot :: nat
  pt_data :: bytes

datatype io_worker = Io_test | Io_poll | Io_piece PieceTask piece_call | Io_exited

record IOWorkerPool =
  io_num_workers :: u32
  io_running :: bool
  io_queues :: "PieceTask list list"
  io_workers :: "io_worker list"

definition io_start :: "u32 \<Rightarrow> IOWorkerPool" where
  "io_start n = \<lparr>io_num_workers = n, io_running = True, io_queues = replicate (unat n) [],
                  io_workers = replicate (unat n) Io_test\<rparr>"

definition io_stop :: "IOWorkerPool \<Rightarrow> IOWorkerPool" where
  "io_stop pool = pool\<lparr>io_running := False\<rparr>"

text \<open>What \<open>stop\<close> does once every thread has been joined: the queues are cleared with what is left in them.\<close>

definition io_joined :: "IOWorkerPool \<Rightarrow> IOWorkerPool option" where
  "io_joined pool =
     (if list_all (\<lambda>w. w = Io_exited) (io_workers pool) then Some (pool\<lparr>io_queues := [], io_workers := []\<rparr>) else None)"

definition io_route :: "u32 \<Rightarrow> PieceTask \<Rightarrow> u32" where
  "io_route n task = (pt_chunk_idx task XOR (pt_begin task div SUB_BLOCK_SIZE)) mod n"

definition io_dispatch :: "PieceTask \<Rightarrow> IOWorkerPool \<Rightarrow> IOWorkerPool option" where
  "io_dispatch task pool =
     (if io_num_workers pool = 0 then None
      else let w = unat (io_route (io_num_workers pool) task)
           in if w \<ge> length (io_queues pool) then None
              else Some (pool\<lparr>io_queues := (io_queues pool)[w := io_queues pool ! w @ [task]]\<rparr>))"

section \<open>Verification workers\<close>

record VerifyTask =
  vt_chunk_idx :: u32
  vt_winning_peer_slot :: nat
  vt_data :: "nat option"
  vt_length :: u32
  vt_expected_hash :: bytes

record VerifyResult =
  vr_chunk_idx :: u32
  vr_winning_peer_slot :: nat
  vr_passed :: bool
  vr_actual_hash :: bytes

datatype verify_worker = Vf_test | Vf_poll | Vf_hash VerifyTask | Vf_exited

record VerifyWorkerPool =
  vf_num_workers :: u32
  vf_running :: bool
  vf_task_queue :: "VerifyTask list"
  vf_result_queue :: "VerifyResult list"
  vf_workers :: "verify_worker list"

definition verify_start :: "u32 \<Rightarrow> u32 \<Rightarrow> VerifyWorkerPool" where
  "verify_start hardware_concurrency num_workers =
     (let n = (if num_workers = 0 then max 2 (min 4 (hardware_concurrency div 4)) else num_workers)
      in \<lparr>vf_num_workers = n, vf_running = True, vf_task_queue = [], vf_result_queue = [],
          vf_workers = replicate (unat n) Vf_test\<rparr>)"

definition poison :: VerifyTask where
  "poison = \<lparr>vt_chunk_idx = 0xFFFFFFFF, vt_winning_peer_slot = 0, vt_data = None, vt_length = 0, vt_expected_hash = []\<rparr>"

definition verify_stop :: "VerifyWorkerPool \<Rightarrow> VerifyWorkerPool" where
  "verify_stop pool = pool\<lparr>vf_running := False,
     vf_task_queue := vf_task_queue pool @ replicate (unat (vf_num_workers pool)) poison\<rparr>"

definition verify_enqueue ::
    "ChunkEntry list \<Rightarrow> ChunkAssembler list \<Rightarrow> u32 \<Rightarrow> nat \<Rightarrow> VerifyWorkerPool \<Rightarrow> VerifyWorkerPool option" where
  "verify_enqueue cs asms chunk_idx winning_peer_slot pool =
     (if unat chunk_idx \<ge> length asms \<or> unat chunk_idx \<ge> length cs then None
      else let a = asms ! unat chunk_idx; ch = cs ! unat chunk_idx
           in Some (pool\<lparr>vf_task_queue := vf_task_queue pool @
                [\<lparr>vt_chunk_idx = chunk_idx, vt_winning_peer_slot = winning_peer_slot, vt_data = base a,
                  vt_length = chunk_size a, vt_expected_hash = ce_sha256 ch\<rparr>]\<rparr>))"

definition drain_results :: "VerifyWorkerPool \<Rightarrow> VerifyResult list \<times> VerifyWorkerPool" where
  "drain_results pool = (vf_result_queue pool, pool\<lparr>vf_result_queue := []\<rparr>)"

definition read_mem :: "store \<Rightarrow> nat \<Rightarrow> nat \<Rightarrow> bytes" where
  "read_mem m a n = map (\<lambda>i. m (a + i)) [0..<n]"

definition verify_chunk :: "(bytes \<Rightarrow> bytes option) \<Rightarrow> store \<Rightarrow> VerifyTask \<Rightarrow> VerifyResult option" where
  "verify_chunk evp_sha256 m task =
     (case vt_data task of
        None \<Rightarrow> None
      | Some a \<Rightarrow>
          map_option (\<lambda>actual. \<lparr>vr_chunk_idx = vt_chunk_idx task, vr_winning_peer_slot = vt_winning_peer_slot task,
                                vr_passed = (take 32 actual = take 32 (vt_expected_hash task)), vr_actual_hash = actual\<rparr>)
            (sha256 evp_sha256 (read_mem m a (unat (vt_length task)))))"

definition verify_step ::
    "(bytes \<Rightarrow> bytes option) \<Rightarrow> store \<Rightarrow> nat \<Rightarrow> nat \<Rightarrow> VerifyWorkerPool \<Rightarrow> VerifyWorkerPool option" where
  "verify_step evp_sha256 m w pick pool =
     (case vf_workers pool ! w of
        Vf_test \<Rightarrow> Some (pool\<lparr>vf_workers := (vf_workers pool)[w := (if vf_running pool then Vf_poll else Vf_exited)]\<rparr>)
      | Vf_poll \<Rightarrow>
          (if pick < length (vf_task_queue pool)
           then let task = vf_task_queue pool ! pick;
                    pool' = pool\<lparr>vf_task_queue := take pick (vf_task_queue pool) @ drop (Suc pick) (vf_task_queue pool)\<rparr>
                in Some (pool'\<lparr>vf_workers := (vf_workers pool)[w :=
                     (if vt_chunk_idx task = 0xFFFFFFFF then Vf_exited else Vf_hash task)]\<rparr>)
           else Some (pool\<lparr>vf_workers := (vf_workers pool)[w := Vf_test]\<rparr>))
      | Vf_hash task \<Rightarrow>
          map_option (\<lambda>r. pool\<lparr>vf_result_queue := vf_result_queue pool @ [r], vf_workers := (vf_workers pool)[w := Vf_test]\<rparr>)
            (verify_chunk evp_sha256 m task)
      | Vf_exited \<Rightarrow> Some pool)"

section \<open>The pipeline of one task\<close>

record pipeline =
  pl_io :: IOWorkerPool
  pl_verify :: VerifyWorkerPool
  pl_assemblers :: "ChunkAssembler list"
  pl_mem :: store

text \<open>One step of I/O worker \<open>w\<close>. When a call of \<open>on_piece\<close> has returned, the completion callback hands
  a complete chunk to verification.\<close>

definition io_set :: "nat \<Rightarrow> io_worker \<Rightarrow> pipeline \<Rightarrow> pipeline" where
  "io_set w x p = p\<lparr>pl_io := (pl_io p)\<lparr>io_workers := (io_workers (pl_io p))[w := x]\<rparr>\<rparr>"

definition io_poll :: "nat \<Rightarrow> pipeline \<Rightarrow> pipeline" where
  "io_poll w p =
     (case io_queues (pl_io p) ! w of
        [] \<Rightarrow> io_set w Io_test p
      | task # q \<Rightarrow>
          io_set w (Io_piece task (call_of (pt_begin task) (pt_data task)))
            (p\<lparr>pl_io := (pl_io p)\<lparr>io_queues := (io_queues (pl_io p))[w := q]\<rparr>\<rparr>))"

definition io_piece_step :: "ChunkEntry list \<Rightarrow> nat \<Rightarrow> PieceTask \<Rightarrow> piece_call \<Rightarrow> pipeline \<Rightarrow> pipeline option" where
  "io_piece_step cs w task c p =
     (let i = unat (pt_chunk_idx task)
      in if i \<ge> length (pl_assemblers p) then None
         else case pc_at c of
                Returned complete \<Rightarrow>
                  (if complete
                   then map_option (\<lambda>v. io_set w Io_poll (p\<lparr>pl_verify := v\<rparr>))
                          (verify_enqueue cs (pl_assemblers p) (pt_chunk_idx task) (pt_peer_slot task) (pl_verify p))
                   else Some (io_set w Io_poll p))
              | _ \<Rightarrow>
                  map_option (\<lambda>(a, m, c'). io_set w (Io_piece task c')
                                (p\<lparr>pl_assemblers := (pl_assemblers p)[i := a], pl_mem := m\<rparr>))
                    (call_step (pl_assemblers p ! i) (pl_mem p) c))"

definition io_step :: "ChunkEntry list \<Rightarrow> nat \<Rightarrow> pipeline \<Rightarrow> pipeline option" where
  "io_step cs w p =
     (case io_workers (pl_io p) ! w of
        Io_test \<Rightarrow> Some (io_set w (if io_running (pl_io p) then Io_poll else Io_exited) p)
      | Io_poll \<Rightarrow> Some (io_poll w p)
      | Io_piece task c \<Rightarrow> io_piece_step cs w task c p
      | Io_exited \<Rightarrow> Some p)"

end
