(* ===== verification/Pipeline.thy ===== *)
theory Pipeline
  imports Workers
begin

text \<open>
  How pieces become verified chunks: every interleaving of the network thread (which dispatches
  pieces and drains results), the I/O workers and the verification workers of one task. Pieces are
  arbitrary: peers may send anything. The invariant counts, per chunk, the slots marked, the
  decrements of the pending counter and the places a completion can be (a call about to report it, a
  verification task, a worker hashing it, a queued or drained result); it follows that a chunk is
  verified at most once in a task's life.
\<close>

datatype pipe_op = P_dispatch PieceTask | P_io nat | P_verify nat nat | P_drain

fun exec_pipe ::
    "(bytes \<Rightarrow> bytes option) \<Rightarrow> ChunkEntry list \<Rightarrow> pipe_op \<Rightarrow> pipeline \<Rightarrow> (pipeline \<times> VerifyResult list) option" where
  "exec_pipe evp cs (P_dispatch task) p = map_option (\<lambda>io. (p\<lparr>pl_io := io\<rparr>, [])) (io_dispatch task (pl_io p))"
| "exec_pipe evp cs (P_io w) p =
     (if w < length (io_workers (pl_io p)) then map_option (\<lambda>p'. (p', [])) (io_step cs w p) else None)"
| "exec_pipe evp cs (P_verify w pick) p =
     (if w < length (vf_workers (pl_verify p))
      then map_option (\<lambda>v. (p\<lparr>pl_verify := v\<rparr>, [])) (verify_step evp (pl_mem p) w pick (pl_verify p)) else None)"
| "exec_pipe evp cs P_drain p =
     (let (rs, v) = drain_results (pl_verify p) in Some (p\<lparr>pl_verify := v\<rparr>, rs))"

text \<open>A run, with the results drained so far.\<close>

inductive pipe_run ::
    "(bytes \<Rightarrow> bytes option) \<Rightarrow> ChunkEntry list \<Rightarrow> pipeline \<Rightarrow> pipe_op list \<Rightarrow> pipeline \<Rightarrow> VerifyResult list \<Rightarrow> bool"
  for evp cs p0 where
  pipe_start: "pipe_run evp cs p0 [] p0 []"
| pipe_step: "pipe_run evp cs p0 ops p rs \<Longrightarrow> exec_pipe evp cs op p = Some (p', rs')
    \<Longrightarrow> pipe_run evp cs p0 (ops @ [op]) p' (rs @ rs')"

fun run_pipe ::
    "(bytes \<Rightarrow> bytes option) \<Rightarrow> ChunkEntry list \<Rightarrow> pipe_op list \<Rightarrow> pipeline \<times> VerifyResult list
     \<Rightarrow> (pipeline \<times> VerifyResult list) option" where
  "run_pipe evp cs [] s = Some s"
| "run_pipe evp cs (op # ops) (p, rs) =
     (case exec_pipe evp cs op p of None \<Rightarrow> None | Some (p', rs') \<Rightarrow> run_pipe evp cs ops (p', rs @ rs'))"

lemma run_pipe_run:
  "run_pipe evp cs ops (p, rs) = Some (p', rs') \<Longrightarrow> pipe_run evp cs p0 ops0 p rs
   \<Longrightarrow> pipe_run evp cs p0 (ops0 @ ops) p' rs'"
proof (induction ops arbitrary: p rs ops0)
  case (Cons op ops)
  then obtain p1 rs1 where "exec_pipe evp cs op p = Some (p1, rs1)" "run_pipe evp cs ops (p1, rs @ rs1) = Some (p', rs')"
    by (auto split: option.splits)
  then show ?case using Cons.IH[of p1 "rs @ rs1" "ops0 @ [op]"] pipe_step[OF Cons.prems(2)] by simp
qed simp

text \<open>The start of a task: the pools are running, nothing is queued, and each chunk has its assembler.\<close>

definition start_pipeline :: "u32 \<Rightarrow> u32 \<Rightarrow> ChunkAssembler list \<Rightarrow> store \<Rightarrow> pipeline" where
  "start_pipeline io_threads cores asms m =
     \<lparr>pl_io = io_start io_threads, pl_verify = verify_start cores 0, pl_assemblers = asms, pl_mem = m\<rparr>"

section \<open>One completion per chunk\<close>

fun piece_at :: "u32 \<Rightarrow> piece_pc \<Rightarrow> io_worker \<Rightarrow> bool" where
  "piece_at c q (Io_piece task k) \<longleftrightarrow> pt_chunk_idx task = c \<and> pc_at k = q"
| "piece_at c q w \<longleftrightarrow> False"

fun hashing :: "u32 \<Rightarrow> verify_worker \<Rightarrow> bool" where
  "hashing c (Vf_hash task) \<longleftrightarrow> vt_chunk_idx task = c"
| "hashing c w \<longleftrightarrow> False"

abbreviation count_if :: "('a \<Rightarrow> bool) \<Rightarrow> 'a list \<Rightarrow> nat" where
  "count_if P xs \<equiv> length (filter P xs)"

abbreviation pieces_at :: "u32 \<Rightarrow> piece_pc \<Rightarrow> pipeline \<Rightarrow> nat" where
  "pieces_at c q p \<equiv> count_if (piece_at c q) (io_workers (pl_io p))"

definition in_verify :: "u32 \<Rightarrow> VerifyWorkerPool \<Rightarrow> nat" where
  "in_verify c v = count_if (\<lambda>t. vt_chunk_idx t = c) (vf_task_queue v) + count_if (hashing c) (vf_workers v)
     + count_if (\<lambda>r. vr_chunk_idx r = c) (vf_result_queue v)"

definition completions :: "u32 \<Rightarrow> pipeline \<Rightarrow> VerifyResult list \<Rightarrow> nat" where
  "completions c p rs = pieces_at c (Returned True) p + in_verify c (pl_verify p) + count_if (\<lambda>r. vr_chunk_idx r = c) rs"

definition tally :: "ChunkAssembler \<Rightarrow> nat \<Rightarrow> nat \<Rightarrow> bool" where
  "tally a counting done \<longleftrightarrow> (\<exists>dec. dec + counting = card (mask_slots (completed_mask a))
     \<and> 32 * length (completed_mask a) < 2 ^ 32 \<and> pending_count a = total_slots a - of_nat dec
     \<and> done = (if 0 < unat (total_slots a) \<and> unat (total_slots a) \<le> dec then 1 else 0))"

definition pipe_inv :: "pipeline \<Rightarrow> VerifyResult list \<Rightarrow> bool" where
  "pipe_inv p rs \<longleftrightarrow> length (pl_assemblers p) < 2 ^ 32 \<and>
     (\<forall>c. unat c < length (pl_assemblers p) \<longrightarrow>
        tally (pl_assemblers p ! unat c) (pieces_at c At_count p) (completions c p rs))"

text \<open>One atomic operation of a call, whatever the piece.\<close>

lemma card_mask_le: "card (mask_slots ws) \<le> 32 * length ws"
  using card_mono[of "{..<32 * length ws}" "mask_slots ws"] by (auto simp: mask_slots_def)

lemma tally_check:
  assumes "call_step a m k = Some (a', m', k')" "pc_at k = At_check"
  shows "a' = a" "pc_at k' = At_mark \<or> pc_at k' = Returned False"
  using assms by (auto simp: call_step_def split: if_splits)

lemma tally_mark:
  assumes "call_step a m k = Some (a', m', k')" "pc_at k = At_mark" "tally a n d"
  shows "tally a' (n + (if pc_at k' = At_count then 1 else 0)) d" "pc_at k' = At_count \<or> pc_at k' = Returned False"
proof -
  let ?s = "pc_begin k div sub_block_size a"
  let ?r = "mask_fetch_or (completed_mask a) ?s"
  have room: "unat ?s < 32 * length (completed_mask a)"
    and a': "a' = a\<lparr>completed_mask := snd ?r\<rparr>" and k': "k' = k\<lparr>pc_at := (if fst ?r = 0 then At_count else Returned False)\<rparr>"
    using assms(1,2) by (auto simp: call_step_def Let_def unat_div less_mult_imp_div_less div_less_iff_less_mult
        mult.commute split: if_splits prod.splits)
  have "card (mask_slots (completed_mask a')) = card (mask_slots (completed_mask a)) + (if fst ?r = 0 then 1 else 0)"
    using cm.card_after_set[OF room] by (simp add: a')
  moreover have "length (completed_mask a') = length (completed_mask a)"
    using cm.keep_room[of "completed_mask a" ?s] by (simp add: a')
  ultimately show "tally a' (n + (if pc_at k' = At_count then 1 else 0)) d"
    using assms(3) by (auto simp: tally_def k' a')
  show "pc_at k' = At_count \<or> pc_at k' = Returned False" by (simp add: k')
qed

lemma tally_count:
  assumes "call_step a m k = Some (a', m', k')" "pc_at k = At_count" "tally a (Suc n) d"
  shows "tally a' n (d + (if pc_at k' = Returned True then 1 else 0))" "pc_at k' = Returned True \<or> pc_at k' = Returned False"
proof -
  have a': "a' = a\<lparr>pending_count := pending_count a - 1\<rparr>" and k': "pc_at k' = Returned (pending_count a = 1)"
    using assms(1,2) by (auto simp: call_step_def pending_fetch_sub_def)
  obtain dec where d: "dec + Suc n = card (mask_slots (completed_mask a))" "32 * length (completed_mask a) < 2 ^ 32"
      "pending_count a = total_slots a - of_nat dec"
      "d = (if 0 < unat (total_slots a) \<and> unat (total_slots a) \<le> dec then 1 else 0)"
    using assms(3) by (auto simp: tally_def)
  have small: "Suc dec < 2 ^ 32" using d(1,2) card_mask_le[of "completed_mask a"] by linarith
  have "pending_count a = 1 \<longleftrightarrow> total_slots a = of_nat (Suc dec)" by (simp add: d(3) diff_eq_eq add.commute)
  also have "\<dots> \<longleftrightarrow> unat (total_slots a) = Suc dec"
    by (simp only: word_unat_eq_iff unat_of_nat_u32[OF small])
  finally have one: "pending_count a = 1 \<longleftrightarrow> unat (total_slots a) = Suc dec" .
  have "pending_count a' = total_slots a' - of_nat (Suc dec)" by (simp add: a' d(3))
  then show "tally a' n (d + (if pc_at k' = Returned True then 1 else 0))"
    unfolding tally_def using d(1,2,4) one by (intro exI[of _ "Suc dec"]) (auto simp: k' a')
  show "pc_at k' = Returned True \<or> pc_at k' = Returned False" by (simp add: k')
qed

subsection \<open>Every step keeps the tally\<close>

lemma pieces_set:
  assumes "w < length (io_workers (pl_io p))"
  shows "pieces_at c q (io_set w y p) + (if piece_at c q (io_workers (pl_io p) ! w) then 1 else 0)
       = pieces_at c q p + (if piece_at c q y then 1 else 0)"
  using filter_update_count[OF assms, of "piece_at c q" y] by (simp add: io_set_def)

lemma io_set_fields [simp]:
  "pl_verify (io_set w y p) = pl_verify p" "pl_assemblers (io_set w y p) = pl_assemblers p" "pl_mem (io_set w y p) = pl_mem p"
  "io_queues (pl_io (io_set w y p)) = io_queues (pl_io p)" "io_num_workers (pl_io (io_set w y p)) = io_num_workers (pl_io p)"
  "io_running (pl_io (io_set w y p)) = io_running (pl_io p)"
  "io_workers (pl_io (io_set w y p)) = (io_workers (pl_io p))[w := y]"
  by (simp_all add: io_set_def)

text \<open>A step that moves no call past its counting or its report, and leaves assemblers and verification alone.\<close>

lemma inv_same:
  assumes "pipe_inv p rs" "pl_assemblers p' = pl_assemblers p" "pl_verify p' = pl_verify p"
    and "\<And>c. pieces_at c At_count p' = pieces_at c At_count p"
    and "\<And>c. pieces_at c (Returned True) p' = pieces_at c (Returned True) p"
  shows "pipe_inv p' rs"
  using assms unfolding pipe_inv_def completions_def by simp

lemma inv_dispatch:
  assumes "pipe_inv p rs" "io_dispatch task (pl_io p) = Some io"
  shows "pipe_inv (p\<lparr>pl_io := io\<rparr>) rs"
proof -
  have "io_workers io = io_workers (pl_io p)"
    using assms(2) by (auto simp: io_dispatch_def Let_def split: if_splits)
  then show ?thesis using assms(1) by (intro inv_same[OF assms(1)]) simp_all
qed

lemma inv_replace:
  assumes "pipe_inv p rs" "w < length (io_workers (pl_io p))"
    and "\<And>c q. q = At_count \<or> q = Returned True \<Longrightarrow> \<not> piece_at c q (io_workers (pl_io p) ! w) \<and> \<not> piece_at c q y"
  shows "pipe_inv (io_set w y p) rs"
  using assms(3) pieces_set[OF assms(2), of _ At_count y] pieces_set[OF assms(2), of _ "Returned True" y]
  by (intro inv_same[OF assms(1)]) simp_all

lemma inv_verify:
  assumes "pipe_inv p rs" "\<And>c. unat c < length (pl_assemblers p) \<Longrightarrow>
      in_verify c v + count_if (\<lambda>r. vr_chunk_idx r = c) rs' = in_verify c (pl_verify p) + count_if (\<lambda>r. vr_chunk_idx r = c) rs"
  shows "pipe_inv (p\<lparr>pl_verify := v\<rparr>) rs'"
proof -
  have "completions c (p\<lparr>pl_verify := v\<rparr>) rs' = completions c p rs" if "unat c < length (pl_assemblers p)" for c
    using assms(2)[OF that] by (simp add: completions_def)
  then show ?thesis using assms(1) by (simp add: pipe_inv_def)
qed

lemma inv_call:
  assumes inv: "pipe_inv p rs" and w: "w < length (io_workers (pl_io p))" "io_workers (pl_io p) ! w = Io_piece task k"
    and i: "i = unat (pt_chunk_idx task)" "i < length (pl_assemblers p)"
    and st: "call_step (pl_assemblers p ! i) (pl_mem p) k = Some (a, m, k')" and pc: "\<And>r. pc_at k \<noteq> Returned r"
  shows "pipe_inv (io_set w (Io_piece task k') (p\<lparr>pl_assemblers := (pl_assemblers p)[i := a], pl_mem := m\<rparr>)) rs"
proof -
  let ?p = "p\<lparr>pl_assemblers := (pl_assemblers p)[i := a], pl_mem := m\<rparr>"
  let ?q = "io_set w (Io_piece task k') ?p"
  have n: "pieces_at c q ?q + (if pt_chunk_idx task = c \<and> pc_at k = q then 1 else 0)
      = pieces_at c q p + (if pt_chunk_idx task = c \<and> pc_at k' = q then 1 else 0)" for c q
    using pieces_set[of w ?p c q "Io_piece task k'"] w by simp
  have "tally (pl_assemblers ?q ! unat c) (pieces_at c At_count ?q) (completions c ?q rs)"
    if c: "unat c < length (pl_assemblers p)" for c
  proof (cases "pt_chunk_idx task = c")
    case False
    then have "unat c \<noteq> i" using i(1) by (metis word_unat_eq_iff)
    then show ?thesis using inv c False n[of c At_count] n[of c "Returned True"] by (simp add: pipe_inv_def completions_def)
  next
    case True
    have t: "tally (pl_assemblers p ! i) (pieces_at c At_count p) (completions c p rs)"
      using inv c True i by (simp add: pipe_inv_def)
    have fin: "completions c ?q rs = completions c p rs + (if pc_at k' = Returned True then 1 else 0)"
      using n[of c "Returned True"] True pc by (simp add: completions_def)
    have "tally a (pieces_at c At_count ?q) (completions c ?q rs)"
    proof (cases "pc_at k")
      case At_check
      note f = tally_check[OF st At_check]
      then have "pieces_at c At_count ?q = pieces_at c At_count p" "completions c ?q rs = completions c p rs"
        using n[of c At_count] At_check fin by auto
      then show ?thesis using t f by (simp only:)
    next
      case At_mark
      note f = tally_mark[OF st At_mark t]
      then have "pieces_at c At_count ?q = pieces_at c At_count p + (if pc_at k' = At_count then 1 else 0)"
          "completions c ?q rs = completions c p rs"
        using n[of c At_count] At_mark True fin by auto
      then show ?thesis using f by (simp only:)
    next
      case At_count
      then have "io_workers (pl_io p) ! w \<in> set (filter (piece_at c At_count) (io_workers (pl_io p)))"
        using w True nth_mem[OF w(1)] by auto
      then obtain n where pos: "pieces_at c At_count p = Suc n"
        by (cases "filter (piece_at c At_count) (io_workers (pl_io p))") auto
      note f = tally_count[OF st At_count t[unfolded pos]]
      then have "pieces_at c At_count ?q = n"
        using n[of c At_count] At_count True pos by auto
      then show ?thesis using f fin by (simp only:)
    qed (use pc in simp)
    then show ?thesis using i True by simp
  qed
  then show ?thesis using inv by (simp add: pipe_inv_def)
qed

lemma inv_report:
  assumes inv: "pipe_inv p rs" and w: "w < length (io_workers (pl_io p))" "io_workers (pl_io p) ! w = Io_piece task k"
    and pc: "pc_at k = Returned True"
    and v: "verify_enqueue cs (pl_assemblers p) (pt_chunk_idx task) slot (pl_verify p) = Some v"
  shows "pipe_inv (io_set w Io_poll (p\<lparr>pl_verify := v\<rparr>)) rs"
proof -
  let ?q = "io_set w Io_poll (p\<lparr>pl_verify := v\<rparr>)"
  have n: "pieces_at c q ?q + (if pt_chunk_idx task = c \<and> Returned True = q then 1 else 0) = pieces_at c q p" for c q
    using pieces_set[of w "p\<lparr>pl_verify := v\<rparr>" c q Io_poll] w pc by simp
  have "in_verify c v = in_verify c (pl_verify p) + (if pt_chunk_idx task = c then 1 else 0)" for c
    using v by (auto simp: verify_enqueue_def in_verify_def Let_def split: if_splits)
  then have "completions c ?q rs = completions c p rs" "pieces_at c At_count ?q = pieces_at c At_count p" for c
    using n[of c "Returned True"] n[of c At_count] by (simp_all add: completions_def)
  then show ?thesis using inv by (simp add: pipe_inv_def)
qed

lemma inv_io:
  assumes "pipe_inv p rs" "w < length (io_workers (pl_io p))" "io_step cs w p = Some p'"
  shows "pipe_inv p' rs"
proof (cases "io_workers (pl_io p) ! w")
  case (Io_piece task k)
  then have s: "io_piece_step cs w task k p = Some p'" using assms(3) by (simp add: io_step_def)
  then have i: "unat (pt_chunk_idx task) < length (pl_assemblers p)" by (auto simp: io_piece_step_def Let_def split: if_splits)
  show ?thesis
  proof (cases "\<exists>r. pc_at k = Returned r")
    case True
    then obtain r where r: "pc_at k = Returned r" by blast
    show ?thesis
    proof (cases r)
      case True
      then obtain v where "verify_enqueue cs (pl_assemblers p) (pt_chunk_idx task) (pt_peer_slot task) (pl_verify p) = Some v"
          "p' = io_set w Io_poll (p\<lparr>pl_verify := v\<rparr>)"
        using s r i by (auto simp: io_piece_step_def Let_def)
      then show ?thesis using inv_report[OF assms(1,2) Io_piece] r True by simp
    next
      case False
      then show ?thesis using s r i Io_piece
        by (auto simp: io_piece_step_def Let_def intro!: inv_replace[OF assms(1,2)])
    qed
  next
    case False
    then obtain a m k' where "call_step (pl_assemblers p ! unat (pt_chunk_idx task)) (pl_mem p) k = Some (a, m, k')"
        "p' = io_set w (Io_piece task k') (p\<lparr>pl_assemblers := (pl_assemblers p)[unat (pt_chunk_idx task) := a], pl_mem := m\<rparr>)"
      using s i by (cases "pc_at k") (auto simp: io_piece_step_def Let_def)
    then show ?thesis using inv_call[OF assms(1,2) Io_piece refl i] False by simp
  qed
next
  case Io_poll
  let ?p = "\<lambda>q. p\<lparr>pl_io := (pl_io p)\<lparr>io_queues := q\<rparr>\<rparr>"
  have "pipe_inv (?p q) rs" for q by (rule inv_same[OF assms(1)]) simp_all
  then show ?thesis using assms Io_poll
    by (auto simp: io_step_def io_poll_def call_of_def split: list.splits intro!: inv_replace)
qed (use assms in \<open>auto simp: io_step_def split: if_splits intro!: inv_replace\<close>)

lemma count_if_pick:
  "i < length xs \<Longrightarrow> count_if P xs = count_if P (take i xs @ drop (Suc i) xs) + (if P (xs ! i) then 1 else 0)"
proof (induction xs arbitrary: i)
  case (Cons x xs)
  then show ?case by (cases i) auto
qed simp

lemma in_verify_step:
  assumes "w < length (vf_workers v)" "verify_step evp m w pick v = Some v'" "c \<noteq> 0xFFFFFFFF"
  shows "in_verify c v' = in_verify c v"
proof (cases "vf_workers v ! w")
  case Vf_poll
  note u = filter_update_count[OF assms(1), of "hashing c"]
  show ?thesis
  proof (cases "pick < length (vf_task_queue v)")
    case True
    let ?t = "vf_task_queue v ! pick"
    have "count_if (\<lambda>t. vt_chunk_idx t = c) (vf_task_queue v)
        = count_if (\<lambda>t. vt_chunk_idx t = c) (take pick (vf_task_queue v) @ drop (Suc pick) (vf_task_queue v))
          + (if vt_chunk_idx ?t = c then 1 else 0)"
      using count_if_pick[OF True] by blast
    moreover define y where "y = (if vt_chunk_idx ?t = 0xFFFFFFFF then Vf_exited else Vf_hash ?t)"
    have "hashing c y \<longleftrightarrow> vt_chunk_idx ?t = c" using assms(3) by (auto simp: y_def)
    moreover have "v' = v\<lparr>vf_task_queue := take pick (vf_task_queue v) @ drop (Suc pick) (vf_task_queue v),
        vf_workers := (vf_workers v)[w := y]\<rparr>"
      using True Vf_poll assms(2) by (simp add: verify_step_def Let_def y_def)
    ultimately show ?thesis using u[of y] Vf_poll by (simp add: in_verify_def)
  next
    case False
    then show ?thesis using Vf_poll assms(2) u[of Vf_test] by (auto simp: verify_step_def in_verify_def)
  qed
next
  case (Vf_hash task)
  then obtain r where "verify_chunk evp m task = Some r"
      "v' = v\<lparr>vf_result_queue := vf_result_queue v @ [r], vf_workers := (vf_workers v)[w := Vf_test]\<rparr>"
    using assms(2) by (auto simp: verify_step_def)
  moreover from this have "vr_chunk_idx r = vt_chunk_idx task"
    by (auto simp: verify_chunk_def split: option.splits)
  ultimately show ?thesis
    using Vf_hash filter_update_count[OF assms(1), of "hashing c" Vf_test] by (simp add: in_verify_def split: if_splits)
qed (use assms filter_update_count[OF assms(1), of "hashing c"] in \<open>auto simp: verify_step_def in_verify_def split: if_splits\<close>)

lemma pipe_inv_exec:
  assumes "pipe_inv p rs" "exec_pipe evp cs op p = Some (p', rs')"
  shows "pipe_inv p' (rs @ rs')"
proof (cases op)
  case (P_dispatch task)
  then show ?thesis using assms inv_dispatch by (auto)
next
  case (P_io w)
  then show ?thesis using assms inv_io by (auto split: if_splits)
next
  case (P_verify w pick)
  have max: "c \<noteq> 0xFFFFFFFF" if "unat c < length (pl_assemblers p)" for c :: u32
    using that assms(1) by (auto simp: pipe_inv_def)
  then show ?thesis using P_verify assms in_verify_step
    by (auto split: if_splits intro!: inv_verify[OF assms(1)])
next
  case P_drain
  then show ?thesis using assms
    by (auto simp: drain_results_def in_verify_def intro!: inv_verify[OF assms(1)])
qed

lemma inv_pipe_run: "pipe_run evp cs p0 ops p rs \<Longrightarrow> pipe_inv p0 [] \<Longrightarrow> pipe_inv p rs"
  by (induction rule: pipe_run.induct) (auto intro: pipe_inv_exec)

subsection \<open>The start\<close>

text \<open>The assemblers as a task initialises them, one per chunk entry.\<close>

definition fresh_assemblers :: "ChunkEntry list \<Rightarrow> ChunkAssembler list \<Rightarrow> bool" where
  "fresh_assemblers cs asms \<longleftrightarrow> length asms = length cs \<and> length cs < 2 ^ 32
     \<and> (\<forall>i < length cs. \<exists>b. assembler_init (Some b) (ce_length (cs ! i)) SUB_BLOCK_SIZE = Some (asms ! i))"

lemma fresh_tally:
  assumes "assembler_init b csize SUB_BLOCK_SIZE = Some a"
  shows "tally a 0 0"
proof -
  let ?total = "(csize + SUB_BLOCK_SIZE - 1) div SUB_BLOCK_SIZE"
  have "unat ?total \<le> (2 ^ 32 - 1) div 16384"
    using unat_u32_less[of "csize + SUB_BLOCK_SIZE - 1"] by (simp add: SUB_BLOCK_SIZE_def unat_div div_le_mono)
  then have "unat ?total + 31 < 2 ^ 32" by simp
  then have "unat (?total + 31) = unat ?total + 31" by (subst unat_add_lem[THEN iffD1]) simp_all
  then have "unat ((?total + 31) div 32) \<le> unat ?total + 31" by (simp add: unat_div)
  then have "32 * unat ((?total + 31) div 32) < 2 ^ 32" using \<open>unat ?total \<le> _\<close> by simp
  then show ?thesis using assms
    by (auto simp: tally_def assembler_init_def Let_def split: if_splits)
qed

lemma start_inv:
  assumes "fresh_assemblers cs asms"
  shows "pipe_inv (start_pipeline n cores asms m) []"
proof -
  have "tally (asms ! unat c) 0 0" if "unat c < length asms" for c :: u32
    using assms that fresh_tally by (auto simp: fresh_assemblers_def)
  then show ?thesis using assms
    by (simp add: pipe_inv_def start_pipeline_def completions_def in_verify_def io_start_def verify_start_def
        Let_def fresh_assemblers_def)
qed

section \<open>What a passed result means\<close>

definition digest_ok :: "(bytes \<Rightarrow> bytes option) \<Rightarrow> ChunkEntry list \<Rightarrow> pipeline \<Rightarrow> nat \<Rightarrow> bool" where
  "digest_ok evp cs p i \<longleftrightarrow> (\<exists>a d. base (pl_assemblers p ! i) = Some a
     \<and> evp (read_mem (pl_mem p) a (unat (chunk_size (pl_assemblers p ! i)))) = Some d
     \<and> take 32 d = take 32 (ce_sha256 (cs ! i)))"

text \<open>At some moment of the run the memory of chunk \<open>i\<close> had the digest of the seed.\<close>

definition verified_in ::
    "(bytes \<Rightarrow> bytes option) \<Rightarrow> ChunkEntry list \<Rightarrow> pipeline \<Rightarrow> pipe_op list \<Rightarrow> nat \<Rightarrow> bool" where
  "verified_in evp cs p0 ops i \<longleftrightarrow>
     (\<exists>ops1 ops2 p1 rs1. ops = ops1 @ ops2 \<and> pipe_run evp cs p0 ops1 p1 rs1 \<and> digest_ok evp cs p1 i)"

lemma verified_mono: "verified_in evp cs p0 ops i \<Longrightarrow> verified_in evp cs p0 (ops @ [op]) i"
  unfolding verified_in_def by (metis append_assoc)

definition task_ok :: "ChunkEntry list \<Rightarrow> ChunkAssembler list \<Rightarrow> VerifyTask \<Rightarrow> bool" where
  "task_ok cs asms t \<longleftrightarrow> (let i = unat (vt_chunk_idx t) in i < length asms \<and> i < length cs
     \<and> vt_data t = base (asms ! i) \<and> vt_length t = chunk_size (asms ! i) \<and> vt_expected_hash t = ce_sha256 (cs ! i))"

definition hashing_tasks :: "VerifyWorkerPool \<Rightarrow> VerifyTask set" where
  "hashing_tasks v = {t. Vf_hash t \<in> set (vf_workers v)}"

definition trace_inv ::
    "(bytes \<Rightarrow> bytes option) \<Rightarrow> ChunkEntry list \<Rightarrow> pipeline \<Rightarrow> pipe_op list \<Rightarrow> pipeline \<Rightarrow> VerifyResult list \<Rightarrow> bool" where
  "trace_inv evp cs p0 ops p rs \<longleftrightarrow>
     map base (pl_assemblers p) = map base (pl_assemblers p0)
     \<and> map chunk_size (pl_assemblers p) = map chunk_size (pl_assemblers p0)
     \<and> (\<forall>t \<in> set (vf_task_queue (pl_verify p)) \<union> hashing_tasks (pl_verify p). task_ok cs (pl_assemblers p) t)
     \<and> (\<forall>r \<in> set (vf_result_queue (pl_verify p)) \<union> set rs. unat (vr_chunk_idx r) < length (pl_assemblers p)
          \<and> (vr_passed r \<longrightarrow> verified_in evp cs p0 ops (unat (vr_chunk_idx r))))"

lemma call_step_keeps:
  "call_step a m k = Some (a', m', k') \<Longrightarrow> base a' = base a \<and> chunk_size a' = chunk_size a"
  by (auto simp: call_step_def pending_fetch_sub_def Let_def split: piece_pc.splits if_splits prod.splits)

lemma map_update_same: "f y = f (xs ! i) \<Longrightarrow> map f (xs[i := y]) = map f xs"
  by (simp add: map_update) (metis list_update_id map_update)

lemma task_ok_cong:
  assumes "map base asms' = map base asms" "map chunk_size asms' = map chunk_size asms"
  shows "task_ok cs asms' t = task_ok cs asms t"
proof -
  have "length asms' = length asms" using assms(1) by (rule map_eq_imp_length_eq)
  moreover have "base (asms' ! i) = base (asms ! i) \<and> chunk_size (asms' ! i) = chunk_size (asms ! i)" if "i < length asms" for i
    using assms calculation that by (metis nth_map)
  ultimately show ?thesis by (auto simp: task_ok_def Let_def)
qed

text \<open>What a step can change of the assemblers' shape and of the verification pool.\<close>

lemma io_step_shape:
  assumes "io_step cs w p = Some p'" "w < length (io_workers (pl_io p))"
  shows "map base (pl_assemblers p') = map base (pl_assemblers p)
     \<and> map chunk_size (pl_assemblers p') = map chunk_size (pl_assemblers p)
     \<and> (pl_verify p' = pl_verify p \<or> (\<exists>idx slot. pl_assemblers p' = pl_assemblers p
          \<and> verify_enqueue cs (pl_assemblers p) idx slot (pl_verify p) = Some (pl_verify p')))"
proof (cases "io_workers (pl_io p) ! w")
  case (Io_piece task k)
  then have s: "io_piece_step cs w task k p = Some p'" using assms(1) by (simp add: io_step_def)
  show ?thesis
  proof (cases "\<exists>r. pc_at k = Returned r")
    case True
    then show ?thesis using s by (auto simp: io_piece_step_def Let_def split: if_splits) blast+
  next
    case False
    then obtain a m k' where c: "call_step (pl_assemblers p ! unat (pt_chunk_idx task)) (pl_mem p) k = Some (a, m, k')"
        "p' = io_set w (Io_piece task k') (p\<lparr>pl_assemblers := (pl_assemblers p)[unat (pt_chunk_idx task) := a], pl_mem := m\<rparr>)"
      using s by (cases "pc_at k") (auto simp: io_piece_step_def Let_def split: if_splits)
    then show ?thesis using call_step_keeps[OF c(1)] by (simp add: map_update_same)
  qed
qed (use assms in \<open>auto simp: io_step_def io_poll_def split: list.splits\<close>)

lemma enqueue_ok:
  assumes "verify_enqueue cs asms idx slot v = Some v'" "\<forall>t \<in> set (vf_task_queue v) \<union> hashing_tasks v. task_ok cs asms t"
  shows "(\<forall>t \<in> set (vf_task_queue v') \<union> hashing_tasks v'. task_ok cs asms t) \<and> vf_result_queue v' = vf_result_queue v"
  using assms by (auto simp: verify_enqueue_def Let_def hashing_tasks_def task_ok_def split: if_splits)

lemma in_workers_update: "Vf_hash t \<in> set (ws[w := y]) \<Longrightarrow> y = Vf_hash t \<or> Vf_hash t \<in> set ws"
  using set_update_subset_insert[of ws w y] by blast

lemma verify_step_ok:
  assumes "verify_step evp m w pick v = Some v'" "w < length (vf_workers v)"
    and "\<forall>t \<in> set (vf_task_queue v) \<union> hashing_tasks v. task_ok cs asms t"
  shows "(\<forall>t \<in> set (vf_task_queue v') \<union> hashing_tasks v'. task_ok cs asms t)
     \<and> (vf_result_queue v' = vf_result_queue v
        \<or> (\<exists>t r. task_ok cs asms t \<and> verify_chunk evp m t = Some r \<and> vf_result_queue v' = vf_result_queue v @ [r]))"
proof (cases "vf_workers v ! w")
  case Vf_poll
  have "task_ok cs asms t" if "t \<in> set (take pick (vf_task_queue v)) \<or> t \<in> set (drop (Suc pick) (vf_task_queue v))" for t
    using that assms(3) by (auto dest: in_set_takeD in_set_dropD)
  moreover have "task_ok cs asms (vf_task_queue v ! pick)" if "pick < length (vf_task_queue v)"
    using assms(3) that by simp
  moreover have "\<And>t. t \<in> set (vf_task_queue v) \<Longrightarrow> task_ok cs asms t" "\<And>t. Vf_hash t \<in> set (vf_workers v) \<Longrightarrow> task_ok cs asms t"
    using assms(3) by (auto simp: hashing_tasks_def)
  ultimately show ?thesis using assms(1) Vf_poll
    by (auto simp: verify_step_def Let_def hashing_tasks_def split: if_splits dest!: in_workers_update)
next
  case (Vf_hash task)
  then have "task_ok cs asms task" using assms(2,3) nth_mem[OF assms(2)] by (auto simp: hashing_tasks_def)
  moreover obtain r where "verify_chunk evp m task = Some r"
      "v' = v\<lparr>vf_result_queue := vf_result_queue v @ [r], vf_workers := (vf_workers v)[w := Vf_test]\<rparr>"
    using Vf_hash assms(1) by (auto simp: verify_step_def)
  ultimately show ?thesis using assms(3) by (auto simp: hashing_tasks_def dest!: in_workers_update)
qed (use assms in \<open>auto simp: verify_step_def hashing_tasks_def split: if_splits dest!: in_workers_update\<close>)

lemma checked_digest:
  assumes "task_ok cs (pl_assemblers p) t" "verify_chunk evp (pl_mem p) t = Some r"
  shows "unat (vr_chunk_idx r) < length (pl_assemblers p) \<and> (vr_passed r \<longrightarrow> digest_ok evp cs p (unat (vr_chunk_idx r)))"
  using assms by (auto simp: task_ok_def Let_def verify_chunk_def sha256_def digest_ok_def split: option.splits)

lemma trace_exec:
  assumes run: "pipe_run evp cs p0 ops p rs" and inv: "trace_inv evp cs p0 ops p rs"
    and st: "exec_pipe evp cs op p = Some (p', rs')"
  shows "trace_inv evp cs p0 (ops @ [op]) p' (rs @ rs')"
proof -
  have mono: "\<forall>r \<in> set (vf_result_queue (pl_verify p)) \<union> set rs. unat (vr_chunk_idx r) < length (pl_assemblers p)
        \<and> (vr_passed r \<longrightarrow> verified_in evp cs p0 (ops @ [op]) (unat (vr_chunk_idx r)))"
    using inv verified_mono by (fastforce simp: trace_inv_def)
  have len: "map base (pl_assemblers q) = map base (pl_assemblers p) \<Longrightarrow> length (pl_assemblers q) = length (pl_assemblers p)" for q
    by (rule map_eq_imp_length_eq)
  show ?thesis
  proof (cases op)
    case (P_dispatch task)
    then show ?thesis using st inv mono by (auto simp: trace_inv_def)
  next
    case (P_io w)
    then have s: "io_step cs w p = Some p'" "w < length (io_workers (pl_io p))" "rs' = []" using st by (auto split: if_splits)
    note f = io_step_shape[OF s(1,2)]
    have "(\<forall>t \<in> set (vf_task_queue (pl_verify p')) \<union> hashing_tasks (pl_verify p'). task_ok cs (pl_assemblers p) t)
        \<and> vf_result_queue (pl_verify p') = vf_result_queue (pl_verify p)"
      using f enqueue_ok[of cs "pl_assemblers p" _ _ "pl_verify p" "pl_verify p'"] inv by (auto simp: trace_inv_def)
    then show ?thesis using f inv mono len[of p'] s(3) task_ok_cong[of "pl_assemblers p'" "pl_assemblers p" cs]
      by (simp add: trace_inv_def)
  next
    case (P_verify w pick)
    then obtain v where s: "verify_step evp (pl_mem p) w pick (pl_verify p) = Some v" "w < length (vf_workers (pl_verify p))"
        "rs' = []" "p' = p\<lparr>pl_verify := v\<rparr>"
      using st by (auto split: if_splits)
    have t: "\<forall>t \<in> set (vf_task_queue (pl_verify p)) \<union> hashing_tasks (pl_verify p). task_ok cs (pl_assemblers p) t"
      using inv by (simp add: trace_inv_def)
    note f = verify_step_ok[OF s(1,2) t]
    have new: "unat (vr_chunk_idx r) < length (pl_assemblers p)
        \<and> (vr_passed r \<longrightarrow> verified_in evp cs p0 (ops @ [op]) (unat (vr_chunk_idx r)))"
      if "task_ok cs (pl_assemblers p) t" "verify_chunk evp (pl_mem p) t = Some r" for t r
      using checked_digest[OF that] run unfolding verified_in_def by blast
    have "\<forall>r \<in> set (vf_result_queue v). unat (vr_chunk_idx r) < length (pl_assemblers p)
        \<and> (vr_passed r \<longrightarrow> verified_in evp cs p0 (ops @ [op]) (unat (vr_chunk_idx r)))"
      using f mono new by auto
    then show ?thesis using f inv mono s(3,4) by (simp add: trace_inv_def ball_Un)
  next
    case P_drain
    then show ?thesis using st inv mono by (auto simp: trace_inv_def drain_results_def hashing_tasks_def)
  qed
qed

lemma trace_run:
  assumes "pipe_run evp cs p0 ops p rs" "vf_task_queue (pl_verify p0) = []" "hashing_tasks (pl_verify p0) = {}"
    "vf_result_queue (pl_verify p0) = []"
  shows "trace_inv evp cs p0 ops p rs"
  using assms by (induction rule: pipe_run.induct) (auto simp: trace_inv_def[of _ _ _ "[]"] intro: trace_exec)

text \<open>The two facts the task manager builds on: results are for distinct chunks, and a passed one was
  verified.\<close>

lemma drained_results:
  assumes fresh: "fresh_assemblers cs asms" and run: "pipe_run evp cs (start_pipeline n cores asms m) ops p rs"
  shows "distinct (map vr_chunk_idx rs)"
    and "\<forall>r \<in> set rs. unat (vr_chunk_idx r) < length cs
           \<and> (vr_passed r \<longrightarrow> verified_in evp cs (start_pipeline n cores asms m) ops (unat (vr_chunk_idx r)))"
proof -
  let ?p0 = "start_pipeline n cores asms m"
  have t: "trace_inv evp cs ?p0 ops p rs"
    by (rule trace_run[OF run]) (auto simp: start_pipeline_def verify_start_def hashing_tasks_def Let_def)
  have "length (pl_assemblers p) = length cs"
    using t fresh map_eq_imp_length_eq[of base "pl_assemblers p" base "pl_assemblers ?p0"]
    by (simp add: trace_inv_def fresh_assemblers_def start_pipeline_def)
  then show range: "\<forall>r \<in> set rs. unat (vr_chunk_idx r) < length cs
      \<and> (vr_passed r \<longrightarrow> verified_in evp cs ?p0 ops (unat (vr_chunk_idx r)))"
    using t by (simp add: trace_inv_def)
  have "count_if (\<lambda>r. vr_chunk_idx r = c) rs \<le> 1" if "c \<in> vr_chunk_idx ` set rs" for c
  proof -
    have "unat c < length (pl_assemblers p)" using that range \<open>length (pl_assemblers p) = length cs\<close> by auto
    then have "tally (pl_assemblers p ! unat c) (pieces_at c At_count p) (completions c p rs)"
      using inv_pipe_run[OF run start_inv[OF fresh]] by (simp add: pipe_inv_def)
    then have "completions c p rs \<le> 1" by (auto simp: tally_def)
    then show ?thesis by (simp add: completions_def)
  qed
  moreover have "distinct (map f xs)" if "\<And>c. c \<in> f ` set xs \<Longrightarrow> count_if (\<lambda>x. f x = c) xs \<le> 1"
    for f :: "VerifyResult \<Rightarrow> u32" and xs
    using that
  proof (induction xs)
    case (Cons x xs)
    have "f x \<notin> f ` set xs"
    proof
      assume "f x \<in> f ` set xs"
      then obtain y where "y \<in> set xs" "f y = f x" by auto
      then have "y \<in> set (filter (\<lambda>z. f z = f x) xs)" by simp
      then have "0 < count_if (\<lambda>z. f z = f x) xs" by (metis length_pos_if_in_set)
      then show False using Cons.prems[of "f x"] by simp
    qed
    moreover have "count_if (\<lambda>z. f z = c) xs \<le> 1" if "c \<in> f ` set xs" for c
      using Cons.prems[of c] that by (auto split: if_splits)
    ultimately show ?case using Cons.IH by simp
  qed simp
  ultimately show "distinct (map vr_chunk_idx rs)" by blast
qed

end
