(* ===== verification/Protocol.thy ===== *)
theory Protocol
  imports Tseed
begin

unbundle bit_operations_syntax

text \<open>
  \<open>src/src/daemon/protocol.hpp/.cpp\<close>: the peer wire protocol. A vector of bytes is a list; a
  packed struct is a record with its object representation, as in \<open>Tseed\<close>. Payload lengths are
  32-bit in the code: the builders model vectors of fewer than 2^32 - 5 bytes, which is every
  vector the callers build. The lemmas show that each builder produces the same bytes on hosts of
  either byte order, that the header parser recovers length and id, and that the handshake, the
  bitfield and the peer-exchange entries can be read back.
\<close>

datatype P2PMsgId = CHOKE | UNCHOKE | INTERESTED | NOT_INTERESTED | HAVE | BITFIELD
  | REQUEST | PIECE | CANCEL | PEX

fun msg_id_byte :: "P2PMsgId \<Rightarrow> u8" where
  "msg_id_byte CHOKE = 0"
| "msg_id_byte UNCHOKE = 1"
| "msg_id_byte INTERESTED = 2"
| "msg_id_byte NOT_INTERESTED = 3"
| "msg_id_byte HAVE = 4"
| "msg_id_byte BITFIELD = 5"
| "msg_id_byte REQUEST = 6"
| "msg_id_byte PIECE = 7"
| "msg_id_byte CANCEL = 8"
| "msg_id_byte PEX = 9"

text \<open>The cast back is total in C++; a byte that is no enumerator is no case of the dispatch.\<close>

definition msg_id_of_byte :: "u8 \<Rightarrow> P2PMsgId option" where
  "msg_id_of_byte b =
     find (\<lambda>i. msg_id_byte i = b)
       [CHOKE, UNCHOKE, INTERESTED, NOT_INTERESTED, HAVE, BITFIELD, REQUEST, PIECE, CANCEL, PEX]"

lemma msg_id_of_byte_inverse [simp]: "msg_id_of_byte (msg_id_byte i) = Some i"
  by (cases i) (simp_all add: msg_id_of_byte_def)

subsection \<open>The handshake\<close>

record Handshake =
  hs_protocol_id :: bytes
  hs_reserved :: bytes
  hs_speed_mbps :: u32
  hs_info_hash :: bytes
  hs_peer_id :: bytes

definition PROTOCOL_ID :: string where
  "PROTOCOL_ID = ''thinBT Protocol''"

definition empty_handshake :: Handshake where
  "empty_handshake = \<lparr>hs_protocol_id = replicate 19 0, hs_reserved = replicate 4 0, hs_speed_mbps = 0,
     hs_info_hash = replicate 20 0, hs_peer_id = replicate 20 0\<rparr>"

definition handshake_build :: "endian \<Rightarrow> Handshake \<Rightarrow> bytes \<Rightarrow> u32 \<Rightarrow> u16 \<Rightarrow> Handshake" where
  "handshake_build e h ih speed port = h\<lparr>
     hs_protocol_id := bytes_of_string PROTOCOL_ID @ replicate 4 0,
     hs_reserved := mem e 2 (hton16 e port) @ replicate 2 0,
     hs_speed_mbps := hton32 e speed,
     hs_info_hash := take 20 ih\<rparr>"

definition validate_protocol_id :: "Handshake \<Rightarrow> bool" where
  "validate_protocol_id h \<longleftrightarrow> take 15 (hs_protocol_id h) = bytes_of_string PROTOCOL_ID
     \<and> hs_protocol_id h ! 15 = 0 \<and> hs_protocol_id h ! 16 = 0
     \<and> hs_protocol_id h ! 17 = 0 \<and> hs_protocol_id h ! 18 = 0"

definition handshake_listen_port :: "endian \<Rightarrow> Handshake \<Rightarrow> u16" where
  "handshake_listen_port e h = ntoh16 e (unmem e (take 2 (hs_reserved h)))"

definition serialize_handshake :: "endian \<Rightarrow> Handshake \<Rightarrow> bytes" where
  "serialize_handshake e h =
     hs_protocol_id h @ hs_reserved h @ mem e 4 (hs_speed_mbps h) @ hs_info_hash h @ hs_peer_id h"

definition handshake_of_mem :: "endian \<Rightarrow> bytes \<Rightarrow> Handshake" where
  "handshake_of_mem e bs = \<lparr>
     hs_protocol_id = sub_bytes 0 19 bs, hs_reserved = sub_bytes 19 4 bs,
     hs_speed_mbps = unmem e (sub_bytes 23 4 bs),
     hs_info_hash = sub_bytes 27 20 bs, hs_peer_id = sub_bytes 47 20 bs\<rparr>"

definition parse_handshake :: "endian \<Rightarrow> bytes \<Rightarrow> Handshake option" where
  "parse_handshake e bs =
     (if length bs < 67 then None
      else let h = handshake_of_mem e (take 67 bs)
           in if \<not> validate_protocol_id h then None
              else Some (h\<lparr>hs_speed_mbps := ntoh32 e (hs_speed_mbps h)\<rparr>))"

definition wf_handshake :: "Handshake \<Rightarrow> bool" where
  "wf_handshake h \<longleftrightarrow> length (hs_protocol_id h) = 19 \<and> length (hs_reserved h) = 4
     \<and> length (hs_info_hash h) = 20 \<and> length (hs_peer_id h) = 20"

subsection \<open>Messages\<close>

definition build_message :: "endian \<Rightarrow> P2PMsgId \<Rightarrow> bytes \<Rightarrow> bytes" where
  "build_message e i payload =
     mem e 4 (hton32 e (1 + of_nat (length payload))) @ [msg_id_byte i] @ payload"

definition build_have :: "endian \<Rightarrow> u32 \<Rightarrow> bytes" where
  "build_have e chunk_idx = build_message e HAVE (mem e 4 (hton32 e chunk_idx))"

definition set_bit_at :: "bool list \<Rightarrow> nat \<Rightarrow> bytes \<Rightarrow> bytes" where
  "set_bit_at have_bits i bf =
     (if have_bits ! i then bf[i div 8 := bf ! (i div 8) OR push_bit (7 - i mod 8) 1] else bf)"

definition bitfield_bytes :: "bool list \<Rightarrow> bytes" where
  "bitfield_bytes have_bits =
     fold (set_bit_at have_bits) [0..<length have_bits]
       (replicate (unat ((of_nat (length have_bits) + 7 :: u32) div 8)) 0)"

definition build_bitfield :: "endian \<Rightarrow> bool list \<Rightarrow> bytes" where
  "build_bitfield e have_bits = build_message e BITFIELD (bitfield_bytes have_bits)"

definition build_request :: "endian \<Rightarrow> u32 \<Rightarrow> u32 \<Rightarrow> u32 \<Rightarrow> bytes" where
  "build_request e index begin len = build_message e REQUEST
     (mem e 4 (hton32 e index) @ mem e 4 (hton32 e begin) @ mem e 4 (hton32 e len))"

definition build_piece :: "endian \<Rightarrow> u32 \<Rightarrow> u32 \<Rightarrow> bytes \<Rightarrow> bytes" where
  "build_piece e index begin data =
     mem e 4 (hton32 e (1 + 8 + of_nat (length data))) @ [msg_id_byte PIECE]
       @ mem e 4 (hton32 e index) @ mem e 4 (hton32 e begin) @ data"

definition build_cancel :: "endian \<Rightarrow> u32 \<Rightarrow> u32 \<Rightarrow> u32 \<Rightarrow> bytes" where
  "build_cancel e index begin len = build_message e CANCEL
     (mem e 4 (hton32 e index) @ mem e 4 (hton32 e begin) @ mem e 4 (hton32 e len))"

definition build_interested :: "endian \<Rightarrow> bytes" where
  "build_interested e = build_message e INTERESTED []"

definition build_not_interested :: "endian \<Rightarrow> bytes" where
  "build_not_interested e = build_message e NOT_INTERESTED []"

text \<open>A peer-exchange entry. Its address and port fields already hold network byte order.\<close>

record PexPeer =
  pex_ip :: u32
  pex_port :: u16
  pex_flags :: u8
  pex_reserved :: u8

definition pex_mem :: "endian \<Rightarrow> PexPeer \<Rightarrow> bytes" where
  "pex_mem e p = mem e 4 (pex_ip p) @ mem e 2 (pex_port p) @ [pex_flags p, pex_reserved p]"

definition pex_of_mem :: "endian \<Rightarrow> bytes \<Rightarrow> PexPeer" where
  "pex_of_mem e bs = \<lparr>pex_ip = unmem e (sub_bytes 0 4 bs), pex_port = unmem e (sub_bytes 4 2 bs),
     pex_flags = bs ! 6, pex_reserved = bs ! 7\<rparr>"

definition build_pex :: "endian \<Rightarrow> bool \<Rightarrow> PexPeer list \<Rightarrow> bytes" where
  "build_pex e is_delta peers = build_message e PEX
     ([if is_delta then 1 else 0] @ mem e 2 (hton16 e (of_nat (length peers)))
       @ concat (map (pex_mem e) peers))"

definition parse_message_header :: "endian \<Rightarrow> bytes \<Rightarrow> (u32 \<times> u8) option" where
  "parse_message_header e bs =
     (if length bs < 5 then None
      else let msg_len = ntoh32 e (unmem e (take 4 bs))
           in if msg_len \<ge> 1 then Some (msg_len, bs ! 4) else None)"

subsection \<open>Reading back\<close>

interpretation pex_codec: wire_codec 8 "pex_mem e" "pex_of_mem e" "\<lambda>_. True" for e
  by unfold_locales (simp_all add: pex_mem_def pex_of_mem_def wire_simps nth_append)

interpretation handshake_codec: wire_codec 67 "serialize_handshake e" "handshake_of_mem e" wf_handshake for e
  by unfold_locales (simp_all add: wf_handshake_def serialize_handshake_def handshake_of_mem_def wire_simps)

lemma build_message_bytes:
  "build_message e i payload = be_bytes 4 (1 + of_nat (length payload) :: u32) @ msg_id_byte i # payload"
  by (simp add: build_message_def)

lemma parse_built_header:
  assumes "length payload < 2 ^ 32 - 1"
  shows "parse_message_header e' (take 5 (build_message e i payload @ rest))
     = Some (1 + of_nat (length payload), msg_id_byte i)"
proof -
  have u: "unat (1 + of_nat (length payload) :: u32) = 1 + length payload"
    using assms by (simp add: unat_word_ariths unat_of_nat take_bit_eq_mod)
  then have "(1 :: u32) \<le> 1 + of_nat (length payload)" by (simp add: word_le_nat_alt)
  then show ?thesis
    by (simp add: parse_message_header_def build_message_bytes wire_simps Let_def nth_append)
qed

lemma build_piece_message:
  "build_piece e index begin data = build_message e PIECE (be_bytes 4 index @ be_bytes 4 begin @ data)"
  by (simp add: build_piece_def build_message_def add.commute)

lemmas message_builders = build_have_def build_bitfield_def build_request_def build_piece_message
  build_cancel_def build_interested_def build_not_interested_def build_pex_def

lemma length_set_bits [simp]: "length (fold (set_bit_at hv) is bf) = length bf"
  by (induction "is" arbitrary: bf) (auto simp: set_bit_at_def)

lemma same_bit_position:
  fixes i j :: nat
  assumes "i div 8 = j div 8" "7 - i mod 8 = 7 - j mod 8"
  shows "i = j"
proof -
  have "i mod 8 < 8" "j mod 8 < 8" by simp_all
  then have "i mod 8 = j mod 8" using assms(2) by linarith
  then show ?thesis using assms(1) by (metis div_mult_mod_eq)
qed

lemma bit_set_bit_at:
  assumes "i div 8 < length bf" "j div 8 < length bf"
  shows "bit (set_bit_at hv i bf ! (j div 8)) (7 - j mod 8)
     \<longleftrightarrow> bit (bf ! (j div 8)) (7 - j mod 8) \<or> i = j \<and> hv ! i"
proof -
  have "7 - i mod 8 < 8" by simp
  then show ?thesis
    using assms same_bit_position[of i j]
    by (auto simp: set_bit_at_def nth_list_update bit_simps)
qed

lemma bit_set_bits:
  assumes "\<forall>i \<in> set is. i div 8 < length bf" "j div 8 < length bf"
  shows "bit (fold (set_bit_at hv) is bf ! (j div 8)) (7 - j mod 8)
     \<longleftrightarrow> bit (bf ! (j div 8)) (7 - j mod 8) \<or> j \<in> set is \<and> hv ! j"
  using assms
proof (induction "is" arbitrary: bf)
  case (Cons i "is")
  have l: "length (set_bit_at hv i bf) = length bf" by (simp add: set_bit_at_def)
  show ?case
    using Cons.IH[of "set_bit_at hv i bf"] Cons.prems bit_set_bit_at[of i bf j hv] by (auto simp: l)
qed simp

lemma bitfield_bytes_facts:
  assumes "length hv < 2 ^ 32 - 7"
  shows "length (bitfield_bytes hv) = (length hv + 7) div 8"
    and "j div 8 < (length hv + 7) div 8 \<Longrightarrow>
      bit (bitfield_bytes hv ! (j div 8)) (7 - j mod 8) \<longleftrightarrow> j < length hv \<and> hv ! j"
proof -
  have "unat (of_nat (length hv) + 7 :: u32) = length hv + 7"
    using assms by (simp add: unat_word_ariths unat_of_nat take_bit_eq_mod)
  then have n: "unat ((of_nat (length hv) + 7 :: u32) div 8) = (length hv + 7) div 8"
    by (simp add: unat_div)
  show "length (bitfield_bytes hv) = (length hv + 7) div 8"
    by (simp add: bitfield_bytes_def n)
  have "\<forall>i \<in> set [0..<length hv]. i div 8 < (length hv + 7) div 8" by auto
  then show "bit (bitfield_bytes hv ! (j div 8)) (7 - j mod 8) \<longleftrightarrow> j < length hv \<and> hv ! j"
    if "j div 8 < (length hv + 7) div 8"
    using that bit_set_bits[of "[0..<length hv]" "replicate ((length hv + 7) div 8) 0" j hv]
    by (auto simp: bitfield_bytes_def n)
qed

lemma handshake_host_independent:
  "serialize_handshake e (handshake_build e h ih speed port)
     = serialize_handshake e' (handshake_build e' h ih speed port)"
  by (simp add: serialize_handshake_def handshake_build_def)

lemma wf_handshake_build: "wf_handshake h \<Longrightarrow> length ih = 20 \<Longrightarrow> wf_handshake (handshake_build e h ih speed port)"
  by (simp add: wf_handshake_def handshake_build_def PROTOCOL_ID_def)

lemma validate_built: "validate_protocol_id (handshake_build e h ih speed port)"
  by (simp add: validate_protocol_id_def handshake_build_def PROTOCOL_ID_def nth_append)

text \<open>The handshake survives the wire: what one peer builds and serialises, a peer of either
  byte order parses to the same info hash, peer id, link speed and listening port.\<close>

lemma parse_built_handshake:
  assumes "length ih = 20" "wf_handshake h"
  shows "\<exists>g. parse_handshake e' (serialize_handshake e (handshake_build e h ih speed port)) = Some g
     \<and> hs_info_hash g = ih \<and> hs_peer_id g = hs_peer_id h \<and> hs_speed_mbps g = speed
     \<and> handshake_listen_port e' g = port"
proof -
  note wf = wf_handshake_build[OF assms(2,1), of e' speed port]
  have "parse_handshake e' (serialize_handshake e (handshake_build e h ih speed port))
      = Some ((handshake_build e' h ih speed port)\<lparr>hs_speed_mbps := speed\<rparr>)"
    unfolding handshake_host_independent[of e h ih speed port e'] parse_handshake_def
    using handshake_codec.enc_width[OF wf, of e'] handshake_codec.dec_enc[OF wf, of e']
    by (simp add: validate_built Let_def) (simp add: handshake_build_def)
  then show ?thesis
    using assms(1) by (simp add: handshake_build_def handshake_listen_port_def)
qed

end
