(* ===== verification/Scheduler_Steps.thy ===== *)
theory Scheduler_Steps
  imports Scheduler
begin

text \<open>
  The loops of the scheduler, reduced to atomic scheduling actions. \<open>sched_act\<close> is an inductive
  step relation with one rule per kind of action (a chunk starts, a sub-block is requested, a
  request moves from a full source to another peer, a finished sub-block is forgotten, a redundant
  endgame request). Every scheduling operation of \<open>Scheduler\<close> is shown to be a sequence of such
  actions, so a property of all of them is an induction over \<open>sched_act\<close>.
\<close>

section \<open>Projections\<close>

lemma peer_slots_emit [simp]: "peer_slots (emit ev s) = peer_slots s"
  and out_emit [simp]: "out (emit ev s) = out s @ [ev]"
  by (simp_all add: emit_def)

lemma emit_fields [simp]:
  "chunk_states (emit ev s) = chunk_states s" "chunk_sub_blocks (emit ev s) = chunk_sub_blocks s"
  "availability (emit ev s) = availability s" "active_chunks (emit ev s) = active_chunks s"
  "chunk_sub_done (emit ev s) = chunk_sub_done s" "chunk_sub_req (emit ev s) = chunk_sub_req s"
  "chunk_sub_req_time (emit ev s) = chunk_sub_req_time s"
  "chunk_sub_done_count (emit ev s) = chunk_sub_done_count s"
  "chunk_sub_req_count (emit ev s) = chunk_sub_req_count s"
  "phase (emit ev s) = phase s" "missing_count (emit ev s) = missing_count s"
  "local_speed_mbps (emit ev s) = local_speed_mbps s" "cancel_set (emit ev s) = cancel_set s"
  "not_interested_issuer_set (emit ev s) = not_interested_issuer_set s"
  "not_interested_broadcaster_set (emit ev s) = not_interested_broadcaster_set s"
  by (simp_all add: emit_def)

lemma upd_peer_fields [simp]:
  "chunk_states (upd_peer p f s) = chunk_states s" "chunk_sub_blocks (upd_peer p f s) = chunk_sub_blocks s"
  "availability (upd_peer p f s) = availability s" "active_chunks (upd_peer p f s) = active_chunks s"
  "chunk_sub_done (upd_peer p f s) = chunk_sub_done s" "chunk_sub_req (upd_peer p f s) = chunk_sub_req s"
  "chunk_sub_req_time (upd_peer p f s) = chunk_sub_req_time s"
  "chunk_sub_done_count (upd_peer p f s) = chunk_sub_done_count s"
  "chunk_sub_req_count (upd_peer p f s) = chunk_sub_req_count s"
  "phase (upd_peer p f s) = phase s" "missing_count (upd_peer p f s) = missing_count s"
  "local_speed_mbps (upd_peer p f s) = local_speed_mbps s" "cancel_set (upd_peer p f s) = cancel_set s"
  "not_interested_issuer_set (upd_peer p f s) = not_interested_issuer_set s"
  "not_interested_broadcaster_set (upd_peer p f s) = not_interested_broadcaster_set s"
  "out (upd_peer p f s) = out s"
  "peer_slots (upd_peer p f s) = (peer_slots s)[p := f (peer_slots s ! p)]"
  by (simp_all add: upd_peer_def)

text \<open>What the scheduling actions never change of a peer.\<close>

definition peer_static :: "PeerSlot \<Rightarrow> nat \<times> u32 \<times> u32 \<times> u32 \<times> u32 \<times> u32 \<times> bool \<times> bool list" where
  "peer_static p = (slot_id p, consecutive_timeouts p, rtt_us p, link_speed_mbps p, link_speed_reported p,
     pipeline_cap p, am_choking p, remote_bitfield p)"

definition sched_frame :: "Scheduler \<Rightarrow> Scheduler \<Rightarrow> bool" where
  "sched_frame s s' \<longleftrightarrow> map peer_static (peer_slots s') = map peer_static (peer_slots s)
     \<and> chunk_sub_blocks s' = chunk_sub_blocks s \<and> availability s' = availability s
     \<and> active_chunks s' = active_chunks s \<and> phase s' = phase s \<and> missing_count s' = missing_count s
     \<and> local_speed_mbps s' = local_speed_mbps s \<and> cancel_set s' = cancel_set s
     \<and> chunk_sub_done s' = chunk_sub_done s \<and> chunk_sub_done_count s' = chunk_sub_done_count s
     \<and> not_interested_issuer_set s' = not_interested_issuer_set s
     \<and> not_interested_broadcaster_set s' = not_interested_broadcaster_set s"

lemma sched_frame_refl [simp]: "sched_frame s s"
  by (simp add: sched_frame_def)

lemma sched_frame_trans: "sched_frame s t \<Longrightarrow> sched_frame t u \<Longrightarrow> sched_frame s u"
  by (simp add: sched_frame_def)

lemma static_nth:
  assumes "map peer_static ps' = map peer_static ps" "p < length ps"
  shows "peer_static (ps' ! p) = peer_static (ps ! p)"
  using assms by (metis length_map nth_map)

lemma peer_static_cong:
  assumes "peer_static q' = peer_static q"
  shows "slot_id q' = slot_id q" "eligible c q' = eligible c q" "remote_bitfield q' = remote_bitfield q"
    "pipeline_cap q' = pipeline_cap q" "am_choking q' = am_choking q" "peer_have_count q' = peer_have_count q"
    "is_full_source q' n = is_full_source q n" "consecutive_timeouts q' = consecutive_timeouts q"
  using assms by (simp_all add: peer_static_def eligible_def peer_have_count_def is_full_source_def)

lemma frame_peers:
  assumes "sched_frame s s'"
  shows "length (peer_slots s') = length (peer_slots s)"
    and "p < length (peer_slots s) \<Longrightarrow> peer_static (peer_slots s' ! p) = peer_static (peer_slots s ! p)"
  using assms static_nth[of "peer_slots s'" "peer_slots s" p]
  by (auto simp: sched_frame_def dest: map_eq_imp_length_eq)

lemma map_static_update:
  "peer_static q = peer_static (ps ! p) \<Longrightarrow> map peer_static (ps[p := q]) = map peer_static ps"
  by (cases "p < length ps") (simp_all add: map_update list_update_same_conv list_update_beyond)

lemma frame_upd_peer [simp]:
  "(\<And>q. peer_static (f q) = peer_static q) \<Longrightarrow> sched_frame s (upd_peer p f s)"
  by (simp add: sched_frame_def map_static_update)

lemma frame_emit [simp]: "sched_frame s (emit ev s)"
  by (simp add: sched_frame_def)

lemma peer_static_updates [simp]:
  "peer_static (q\<lparr>pending_requests := x\<rparr>) = peer_static q"
  "peer_static (q\<lparr>active_sub_blocks := m\<rparr>) = peer_static q"
  by (simp_all add: peer_static_def)

lemma frame_states [simp]: "sched_frame s (s\<lparr>chunk_states := x\<rparr>)"
  by (simp add: sched_frame_def)

lemma frame_issue: "sched_frame s (issue_sub_block p c now i s)"
  by (simp add: issue_sub_block_def Let_def sched_frame_def map_static_update)

lemma frame_move: "sched_frame s (move_request p src c b now s)"
  by (simp add: move_request_def Let_def sched_frame_def map_static_update)

lemma frame_redundant: "sched_frame s (request_redundant c i sid s)"
  by (simp add: request_redundant_def Let_def sched_frame_def map_static_update split: option.split)

lemma find_slot_static:
  "map peer_static ps' = map peer_static ps \<Longrightarrow> find_slot sid ps' = find_slot sid ps"
proof (induction ps arbitrary: ps')
  case (Cons p ps)
  then obtain q qs where "ps' = q # qs" "peer_static q = peer_static p" "map peer_static qs = map peer_static ps"
    by (cases ps') auto
  then show ?case using Cons.IH[of qs] peer_static_cong(1)[of q p] by simp
qed simp

lemma find_slot_Some: "find_slot sid ps = Some p \<Longrightarrow> p < length ps \<and> slot_id (ps ! p) = sid"
  by (induction ps arbitrary: p) (auto split: if_splits)

lemma find_slot_None: "find_slot sid ps = None \<longleftrightarrow> (\<forall>q \<in> set ps. slot_id q \<noteq> sid)"
  by (induction ps) auto

lemma find_slot_first: "find_slot sid ps = Some p \<Longrightarrow> q < p \<Longrightarrow> slot_id (ps ! q) \<noteq> sid"
proof (induction ps arbitrary: p q)
  case (Cons a ps)
  then show ?case by (cases q) (auto split: if_splits)
qed simp

section \<open>Atomic scheduling actions\<close>

inductive sched_act :: "Scheduler \<Rightarrow> Scheduler \<Rightarrow> bool" where
  act_start: "c < length (chunk_states s) \<Longrightarrow> chunk_states s ! c \<noteq> COMPLETE
    \<Longrightarrow> sched_act s (s\<lparr>chunk_states := (chunk_states s)[c := DOWNLOADING]\<rparr>)"
| act_issue: "p < length (peer_slots s) \<Longrightarrow> c < length (chunk_states s) \<Longrightarrow> chunk_states s ! c \<noteq> COMPLETE
    \<Longrightarrow> i < unat (sub_total s c) \<Longrightarrow> \<not> chunk_sub_req s ! c ! i \<Longrightarrow> eligible c (peer_slots s ! p)
    \<Longrightarrow> pending_requests (peer_slots s ! p) < pipeline_cap (peer_slots s ! p)
    \<Longrightarrow> sched_act s (issue_sub_block p c now i s)"
| act_move: "p < length (peer_slots s) \<Longrightarrow> src < length (peer_slots s)
    \<Longrightarrow> slot_id (peer_slots s ! src) \<noteq> slot_id (peer_slots s ! p)
    \<Longrightarrow> c < length (chunk_states s) \<Longrightarrow> chunk_states s ! c \<noteq> COMPLETE
    \<Longrightarrow> c < length (remote_bitfield (peer_slots s ! p)) \<Longrightarrow> remote_bitfield (peer_slots s ! p) ! c
    \<Longrightarrow> is_full_source (peer_slots s ! src) (length (chunk_states s))
    \<Longrightarrow> b \<in> set (act_find c (active_sub_blocks (peer_slots s ! src)))
    \<Longrightarrow> \<not> sub_is_done s c (b div sub_size)
    \<Longrightarrow> pending_requests (peer_slots s ! p) < pipeline_cap (peer_slots s ! p)
    \<Longrightarrow> sched_act s (move_request p src c b now s)"
| act_forget: "src < length (peer_slots s) \<Longrightarrow> b \<in> set (act_find c (active_sub_blocks (peer_slots s ! src)))
    \<Longrightarrow> sub_is_done s c (b div sub_size)
    \<Longrightarrow> sched_act s (upd_peer src (\<lambda>q. q\<lparr>active_sub_blocks := act_erase c b (active_sub_blocks q)\<rparr>) s)"
| act_redundant: "peer_slot s sid = Some p \<Longrightarrow> c < length (chunk_states s) \<Longrightarrow> chunk_states s ! c = DOWNLOADING
    \<Longrightarrow> i < unat (sub_total s c) \<Longrightarrow> sub_is_hungry s c now threshold i
    \<Longrightarrow> q < length (peer_slots s) \<Longrightarrow> slot_id (peer_slots s ! q) = sid \<Longrightarrow> eligible c (peer_slots s ! q)
    \<Longrightarrow> sched_act s (request_redundant c i sid s)"

inductive_cases sched_act_cases: "sched_act s s'"

abbreviation sched_acts :: "Scheduler \<Rightarrow> Scheduler \<Rightarrow> bool" where
  "sched_acts \<equiv> sched_act\<^sup>*\<^sup>*"

lemma act_frame: "sched_act s s' \<Longrightarrow> sched_frame s s'"
  by (induction rule: sched_act.induct) (auto simp: frame_issue frame_move frame_redundant)

lemma acts_frame: "sched_acts s s' \<Longrightarrow> sched_frame s s'"
  by (induction rule: rtranclp_induct) (auto intro: act_frame sched_frame_trans)

text \<open>No action touches the completion of a chunk.\<close>

lemma issue_fields [simp]:
  "chunk_states (issue_sub_block p c now i s) = chunk_states s"
  "chunk_sub_blocks (issue_sub_block p c now i s) = chunk_sub_blocks s"
  "peer_slots (issue_sub_block p c now i s) = (peer_slots s)[p := (peer_slots s ! p)\<lparr>
     pending_requests := pending_requests (peer_slots s ! p) + 1,
     active_sub_blocks := act_insert c (sub_begin i) (active_sub_blocks (peer_slots s ! p))\<rparr>]"
  "out (issue_sub_block p c now i s) =
     out s @ [Issue_request (slot_id (peer_slots s ! p)) c (sub_begin i) sub_size]"
  "chunk_sub_req (issue_sub_block p c now i s) = set2 (chunk_sub_req s) c i True"
  "chunk_sub_req_time (issue_sub_block p c now i s) = set2 (chunk_sub_req_time s) c i now"
  "chunk_sub_done (issue_sub_block p c now i s) = chunk_sub_done s"
  "chunk_sub_done_count (issue_sub_block p c now i s) = chunk_sub_done_count s"
  "active_chunks (issue_sub_block p c now i s) = active_chunks s"
  "chunk_sub_req_count (issue_sub_block p c now i s) =
     (chunk_sub_req_count s)[c := chunk_sub_req_count s ! c + 1]"
  "availability (issue_sub_block p c now i s) = availability s"
  "local_speed_mbps (issue_sub_block p c now i s) = local_speed_mbps s"
  "phase (issue_sub_block p c now i s) = phase s"
  by (simp_all add: issue_sub_block_def Let_def list_update_beyond)

lemma move_fields [simp]:
  "chunk_states (move_request p src c b now s) = chunk_states s"
  "chunk_sub_blocks (move_request p src c b now s) = chunk_sub_blocks s"
  "chunk_sub_req (move_request p src c b now s) = set2 (chunk_sub_req s) c (b div sub_size) True"
  "chunk_sub_req_time (move_request p src c b now s) = set2 (chunk_sub_req_time s) c (b div sub_size) now"
  "chunk_sub_done (move_request p src c b now s) = chunk_sub_done s"
  "chunk_sub_done_count (move_request p src c b now s) = chunk_sub_done_count s"
  "chunk_sub_req_count (move_request p src c b now s) = chunk_sub_req_count s"
  "active_chunks (move_request p src c b now s) = active_chunks s"
  "availability (move_request p src c b now s) = availability s"
  "phase (move_request p src c b now s) = phase s"
  by (simp_all add: move_request_def Let_def)

lemma redundant_fields [simp]:
  "chunk_states (request_redundant c i sid s) = chunk_states s"
  "chunk_sub_blocks (request_redundant c i sid s) = chunk_sub_blocks s"
  "chunk_sub_req (request_redundant c i sid s) = chunk_sub_req s"
  "chunk_sub_req_time (request_redundant c i sid s) = chunk_sub_req_time s"
  "chunk_sub_done (request_redundant c i sid s) = chunk_sub_done s"
  "chunk_sub_done_count (request_redundant c i sid s) = chunk_sub_done_count s"
  "chunk_sub_req_count (request_redundant c i sid s) = chunk_sub_req_count s"
  "active_chunks (request_redundant c i sid s) = active_chunks s"
  "availability (request_redundant c i sid s) = availability s"
  "phase (request_redundant c i sid s) = phase s"
  by (simp_all add: request_redundant_def Let_def split: option.split)

definition same_completion :: "Scheduler \<Rightarrow> Scheduler \<Rightarrow> bool" where
  "same_completion s s' \<longleftrightarrow> length (chunk_states s') = length (chunk_states s)
     \<and> (\<forall>c < length (chunk_states s). chunk_states s' ! c = COMPLETE \<longleftrightarrow> chunk_states s ! c = COMPLETE)
     \<and> (\<forall>c < length (chunk_states s). chunk_states s ! c = DOWNLOADING \<longrightarrow> chunk_states s' ! c = DOWNLOADING)"

lemma act_completion: "sched_act s s' \<Longrightarrow> same_completion s s'"
  by (induction rule: sched_act.induct) (auto simp: same_completion_def nth_list_update)

lemma acts_completion: "sched_acts s s' \<Longrightarrow> same_completion s s'"
  by (induction rule: rtranclp_induct) (auto dest!: act_completion simp: same_completion_def)

lemma acts_keep:
  assumes "sched_acts s s'"
  shows "length (peer_slots s') = length (peer_slots s)" "sub_total s' = sub_total s"
    "length (chunk_states s') = length (chunk_states s)" "active_chunks s' = active_chunks s"
    "phase s' = phase s" "availability s' = availability s"
    and "p < length (peer_slots s) \<Longrightarrow> peer_static (peer_slots s' ! p) = peer_static (peer_slots s ! p)"
    and "c < length (chunk_states s) \<Longrightarrow> chunk_states s' ! c = COMPLETE \<longleftrightarrow> chunk_states s ! c = COMPLETE"
  using acts_frame[OF assms] acts_completion[OF assms] frame_peers[OF acts_frame[OF assms]]
  by (auto simp: sched_frame_def same_completion_def sub_total_def fun_eq_iff)

lemma sub_total_simps [simp]:
  "sub_total (issue_sub_block p c' now i s) = sub_total s"
  "sub_total (s\<lparr>chunk_states := x\<rparr>) = sub_total s"
  by (simp_all add: sub_total_def fun_eq_iff)

lemma eligible_simps [simp]:
  "eligible c (q\<lparr>pending_requests := x\<rparr>) = eligible c q"
  "eligible c (q\<lparr>active_sub_blocks := y\<rparr>) = eligible c q"
  by (simp_all add: eligible_def)

section \<open>The operations as sequences of actions\<close>

lemma issue_loop_acts:
  assumes "p < length (peer_slots s)" "c < length (chunk_states s)" "chunk_states s ! c \<noteq> COMPLETE"
    and "\<forall>i \<in> set subs. i < unat (sub_total s c)" "eligible c (peer_slots s ! p)"
    and "cap \<le> pipeline_cap (peer_slots s ! p)"
  shows "sched_acts s (snd (issue_loop p c now cap subs issued s))"
  using assms
proof (induction subs arbitrary: s issued)
  case (Cons i subs)
  let ?s' = "issue_sub_block p c now i s"
  show ?case
  proof (cases "pending_requests (peer_slots s ! p) \<ge> cap \<or> chunk_sub_req s ! c ! i")
    case True
    then show ?thesis using Cons by auto
  next
    case False
    have act: "sched_act s ?s'"
      using Cons.prems False by (intro act_issue) auto
    have "sched_acts ?s' (snd (issue_loop p c now cap subs True ?s'))"
      using Cons.prems by (intro Cons.IH) simp_all
    then show ?thesis using act False by (simp add: converse_rtranclp_into_rtranclp)
  qed
qed simp

lemma try_chunk_acts:
  assumes "p < length (peer_slots s)" "cap \<le> pipeline_cap (peer_slots s ! p)"
  shows "sched_acts s (snd (try_schedule_chunk_on_peer p c now cap s))"
proof (cases "c < length (chunk_states s) \<and> chunk_states s ! c \<noteq> COMPLETE \<and> eligible c (peer_slots s ! p)
    \<and> select_best_peer s c = Some (slot_id (peer_slots s ! p)) \<and> sub_total s c \<noteq> 0")
  case True
  let ?s1 = "s\<lparr>chunk_states := (chunk_states s)[c := DOWNLOADING]\<rparr>"
  have "sched_act s ?s1" using True by (intro act_start) auto
  moreover have "sched_acts ?s1 (snd (issue_loop p c now cap [0..<unat (sub_total s c)] False ?s1))"
    using True assms by (intro issue_loop_acts) (auto simp: sub_total_def)
  ultimately show ?thesis
    using True by (simp add: try_schedule_chunk_on_peer_def Let_def eligible_def converse_rtranclp_into_rtranclp)
next
  case False
  then show ?thesis by (auto simp: try_schedule_chunk_on_peer_def Let_def eligible_def)
qed

lemma schedule_loop_acts:
  assumes "p < length (peer_slots s)" "cap \<le> pipeline_cap (peer_slots s ! p)"
  shows "sched_acts s (snd (schedule_loop p now cap cs issued s))"
  using assms
proof (induction cs arbitrary: s issued)
  case (Cons c cs)
  obtain r s' where e: "try_schedule_chunk_on_peer p c now cap s = (r, s')" by fastforce
  then have a: "sched_acts s s'" using try_chunk_acts[OF Cons.prems, of c now] by simp
  have "sched_acts s' (snd (schedule_loop p now cap cs (issued \<or> r) s'))"
    using Cons.prems acts_keep(1)[OF a] peer_static_cong(4)[OF acts_keep(7)[OF a Cons.prems(1)]]
    by (intro Cons.IH) simp_all
  then show ?case using a e by auto
qed simp

lemma effective_cap_le: "effective_cap_of s p \<le> pipeline_cap (peer_slots s ! p)"
  by (simp add: effective_cap_of_def Let_def)

lemma try_schedule_acts:
  "p < length (peer_slots s) \<Longrightarrow> sched_acts s (snd (try_schedule_for_peer p now s))"
  using schedule_loop_acts[OF _ effective_cap_le] by (auto simp: try_schedule_for_peer_def Let_def)

lemma rebalance_sources_acts:
  assumes "p < length (peer_slots s)" "\<forall>src \<in> set srcs. src < length (peer_slots s)"
    and "c < length (chunk_states s)" "chunk_states s ! c \<noteq> COMPLETE"
    and "c < length (remote_bitfield (peer_slots s ! p))" "remote_bitfield (peer_slots s ! p) ! c"
    and "pending_requests (peer_slots s ! p) < pipeline_cap (peer_slots s ! p)"
  shows "sched_acts s (snd (rebalance_sources p c now srcs s))"
  using assms
proof (induction srcs arbitrary: s)
  case (Cons src srcs)
  let ?q = "peer_slots s ! src"
  show ?case
  proof (cases "slot_id ?q = slot_id (peer_slots s ! p) \<or> \<not> is_full_source ?q (length (chunk_states s))
      \<or> act_find c (active_sub_blocks ?q) = []")
    case True
    then show ?thesis using Cons by (auto simp: Let_def)
  next
    case False
    define b where "b = hd (act_find c (active_sub_blocks ?q))"
    have b: "b \<in> set (act_find c (active_sub_blocks ?q))" using False by (simp add: b_def)
    show ?thesis
    proof (cases "sub_is_done s c (b div sub_size)")
      case True
      let ?s' = "upd_peer src (\<lambda>q. q\<lparr>active_sub_blocks := act_erase c b (active_sub_blocks q)\<rparr>) s"
      have "sched_act s ?s'" using Cons.prems b True by (intro act_forget) auto
      moreover have "peer_slots s ! p = peer_slots ?s' ! p" using False by (cases "p = src") auto
      then have "sched_acts ?s' (snd (rebalance_sources p c now srcs ?s'))"
        using Cons.prems by (intro Cons.IH) simp_all
      ultimately show ?thesis
        using False True by (simp add: Let_def converse_rtranclp_into_rtranclp flip: b_def)
    next
      case no: False
      have "sched_act s (move_request p src c b now s)"
        using Cons.prems False b no by (intro act_move) auto
      then show ?thesis using False no by (simp add: Let_def flip: b_def)
    qed
  qed
qed simp

lemma rebalance_chunks_acts:
  assumes "p < length (peer_slots s)" "cap \<le> pipeline_cap (peer_slots s ! p)"
  shows "sched_acts s (snd (rebalance_chunks p now cap cs s))"
  using assms
proof (induction cs arbitrary: s)
  case (Cons c cs)
  let ?q = "peer_slots s ! p"
  show ?case
  proof (cases "pending_requests ?q \<ge> cap \<or> c \<ge> length (remote_bitfield ?q) \<or> \<not> remote_bitfield ?q ! c
      \<or> c \<ge> length (chunk_states s) \<or> chunk_states s ! c = COMPLETE")
    case True
    then show ?thesis using Cons by (auto simp: Let_def)
  next
    case False
    obtain m s' where e: "rebalance_sources p c now [0..<length (peer_slots s)] s = (m, s')" by fastforce
    have a: "sched_acts s s'"
      using rebalance_sources_acts[of p s "[0..<length (peer_slots s)]" c now] Cons.prems False e by auto
    have "sched_acts s' (snd (rebalance_chunks p now cap cs s'))"
      using Cons.prems acts_keep(1)[OF a] peer_static_cong(4)[OF acts_keep(7)[OF a Cons.prems(1)]]
    by (intro Cons.IH) simp_all
    then show ?thesis using False e a rtranclp_trans[OF a] by (simp add: Let_def)
  qed
qed simp

lemma rebalance_moves_acts:
  assumes "p < length (peer_slots s)" "cap \<le> pipeline_cap (peer_slots s ! p)"
  shows "sched_acts s (rebalance_moves p now cap n s)"
  using assms
proof (induction n arbitrary: s)
  case (Suc n)
  obtain m s' where e: "rebalance_chunks p now cap (active_chunks s) s = (m, s')" by fastforce
  have a: "sched_acts s s'" using rebalance_chunks_acts[OF Suc.prems, of now "active_chunks s"] e by simp
  have "sched_acts s' (rebalance_moves p now cap n s')"
    using Suc.prems acts_keep(1)[OF a] peer_static_cong(4)[OF acts_keep(7)[OF a Suc.prems(1)]]
    by (intro Suc.IH) simp_all
  then show ?case using e a by auto
qed simp

lemma rebalance_acts:
  "p < length (peer_slots s) \<Longrightarrow> sched_acts s (rebalance_seed_requests_for_peer p now k s)"
  using rebalance_moves_acts[OF _ order_refl] by (simp add: rebalance_seed_requests_for_peer_def)

lemma hungry_redundant [simp]:
  "sub_is_hungry (request_redundant c' i' sid s) c now th i = sub_is_hungry s c now th i"
  by (simp add: sub_is_hungry_def sub_is_done_def)

lemma sub_total_redundant [simp]: "sub_total (request_redundant c' i' sid s) = sub_total s"
  by (simp add: sub_total_def fun_eq_iff)

lemma redundant_peers:
  assumes "sid \<in> set (find_redundant_peers c ex k ps)"
  shows "sid \<noteq> ex" "\<exists>q < length ps. slot_id (ps ! q) = sid \<and> eligible c (ps ! q) \<and> act_find c (active_sub_blocks (ps ! q)) = []"
  using assms
  by (auto simp: find_redundant_peers_def Let_def dest!: in_set_takeD) (auto simp: in_set_conv_nth)

lemma redundant_fold_acts:
  assumes "c < length (chunk_states s)" "chunk_states s ! c = DOWNLOADING" "i < unat (sub_total s c)"
    "sub_is_hungry s c now th i"
    and "\<forall>sid \<in> set sids. \<exists>q < length (peer_slots s). slot_id (peer_slots s ! q) = sid \<and> eligible c (peer_slots s ! q)"
  shows "sched_acts s (fold (request_redundant c i) sids s)"
  using assms
proof (induction sids arbitrary: s)
  case (Cons sid sids)
  let ?s' = "request_redundant c i sid s"
  obtain q where q: "q < length (peer_slots s)" "slot_id (peer_slots s ! q) = sid" "eligible c (peer_slots s ! q)"
    using Cons.prems(5) by auto
  then obtain p where p: "peer_slot s sid = Some p"
    unfolding peer_slot_def using find_slot_None[of sid "peer_slots s"]
    by (metis not_None_eq nth_mem)
  have act: "sched_act s ?s'" using Cons.prems p q by (intro act_redundant) auto
  note f = frame_peers[OF act_frame[OF act]]
  have "\<exists>q < length (peer_slots ?s'). slot_id (peer_slots ?s' ! q) = x \<and> eligible c (peer_slots ?s' ! q)"
    if "x \<in> set sids" for x
  proof -
    obtain q where "q < length (peer_slots s)" "slot_id (peer_slots s ! q) = x" "eligible c (peer_slots s ! q)"
      using Cons.prems(5) \<open>x \<in> set sids\<close> by auto
    then show ?thesis using f(1) peer_static_cong(1,2)[OF f(2)[of q]] by auto
  qed
  then have "sched_acts ?s' (fold (request_redundant c i) sids ?s')"
    using Cons.prems by (intro Cons.IH) simp_all
  then show ?case using act by (simp add: converse_rtranclp_into_rtranclp)
qed simp

lemma endgame_subs_acts:
  assumes "c < length (chunk_states s)" "chunk_states s ! c = DOWNLOADING"
    "\<forall>i \<in> set subs. i < unat (sub_total s c)"
  shows "sched_acts s (snd (endgame_subs c primary now th subs hungry s))"
  using assms
proof (induction subs arbitrary: s hungry)
  case (Cons i subs)
  define s' where "s' = fold (request_redundant c i) (find_redundant_peers c primary MAX_REDUNDANT_PEERS (peer_slots s)) s"
  show ?case
  proof (cases "sub_is_hungry s c now th i")
    case True
    have a: "sched_acts s s'"
      unfolding s'_def using Cons.prems True redundant_peers(2)[of _ c primary MAX_REDUNDANT_PEERS "peer_slots s"]
      by (intro redundant_fold_acts) auto
    have "sched_acts s' (snd (endgame_subs c primary now th subs True s'))"
      using Cons.prems acts_keep(2,3)[OF a] acts_completion[OF a]
      by (intro Cons.IH) (auto simp: same_completion_def)
    then show ?thesis using True rtranclp_trans[OF a] by (simp flip: s'_def)
  next
    case False
    then show ?thesis using Cons by simp
  qed
qed simp

lemma endgame_chunks_acts:
  assumes "\<forall>c \<in> set cs. c < length (chunk_states s) \<and> chunk_states s ! c = DOWNLOADING"
  shows "sched_acts s (endgame_chunks now cs processed s)"
  using assms
proof (induction cs arbitrary: s processed)
  case (Cons c cs)
  define pr where "pr = primary_peer_of s c"
  obtain h s' where e: "endgame_subs c pr now (hunger_threshold_ms s pr) [0..<unat (sub_total s c)] False s = (h, s')"
    by fastforce
  have a: "sched_acts s s'"
    using endgame_subs_acts[of c s "[0..<unat (sub_total s c)]" pr now "hunger_threshold_ms s pr" False] Cons.prems e
    by simp
  have "sched_acts s' (endgame_chunks now cs x s')" for x
    using Cons.prems acts_completion[OF a] by (intro Cons.IH) (auto simp: same_completion_def)
  then have "sched_acts s (endgame_chunks now cs x s')" for x by (rule rtranclp_trans[OF a])
  then show ?case using Cons e by (auto simp: Let_def simp flip: pr_def)
qed simp

lemma tick_endgame_acts:
  assumes "std_sort srt"
  shows "sched_acts s (tick_endgame srt now s)"
proof -
  have "set (srt key xs) = set xs" for key xs
    using assms by (metis set_mset_mset std_sort_def)
  then show ?thesis by (auto simp: tick_endgame_def Let_def intro!: endgame_chunks_acts)
qed

lemma fold_acts:
  assumes "\<And>p s. p \<in> set ps \<Longrightarrow> P s \<Longrightarrow> sched_acts s (f p s)" "\<And>s s'. P s \<Longrightarrow> sched_acts s s' \<Longrightarrow> P s'" "P s"
  shows "sched_acts s (fold f ps s)"
  using assms(1,3)
proof (induction ps arbitrary: s)
  case (Cons p ps)
  have a: "sched_acts s (f p s)" using Cons.prems by simp
  moreover have "sched_acts (f p s) (fold f ps (f p s))"
    using Cons.prems assms(2)[OF _ a] by (intro Cons.IH) auto
  ultimately show ?case by simp
qed simp

lemma tick_acts:
  assumes "std_sort srt"
  shows "sched_acts s (tick srt now s)"
proof -
  let ?n = "length (peer_slots s)"
  define s1 where "s1 = fold (\<lambda>p. rebalance_seed_requests_for_peer p now 4) [0..<?n] s"
  define s2 where "s2 = fold (\<lambda>p. snd \<circ> try_schedule_for_peer p now) [0..<?n] s1"
  have 1: "sched_acts s s1"
    unfolding s1_def
    by (rule fold_acts[where P = "\<lambda>t. length (peer_slots t) = ?n"]) (auto intro: rebalance_acts simp: acts_keep(1))
  have 2: "sched_acts s1 s2"
    unfolding s2_def
    by (rule fold_acts[where P = "\<lambda>t. length (peer_slots t) = ?n"])
      (auto intro: try_schedule_acts simp: acts_keep(1)[OF 1] acts_keep(1))
  have "sched_acts s s2" using 1 2 by (rule rtranclp_trans)
  then show ?thesis
    using rtranclp_trans[OF _ tick_endgame_acts[OF assms, of s2 now]]
    by (simp add: tick_def Let_def flip: s1_def s2_def)
qed

end
