(* ===== verification/Scheduler_Inv.thy ===== *)
theory Scheduler_Inv
  imports Scheduler_Steps
begin

text \<open>
  Invariants of the scheduler. The shape of the vectors (which shows that no index is out of
  bounds), the cache of incomplete chunks, the per-chunk counters and the peers' outstanding
  sub-blocks are kept by every scheduling action (\<open>sched_act\<close>) and by every public operation;
  under the calling discipline of the daemon the count of missing chunks and the phase are exact,
  and the availability table counts the peers that hold each chunk.
\<close>

definition incomplete :: "Scheduler \<Rightarrow> nat set" where
  "incomplete s = {c. c < length (chunk_states s) \<and> chunk_states s ! c \<noteq> COMPLETE}"

definition shape_inv :: "Scheduler \<Rightarrow> bool" where
  "shape_inv s \<longleftrightarrow> (let n = length (chunk_states s) in
     length (chunk_sub_blocks s) = n \<and> length (availability s) = n \<and> length (chunk_sub_done s) = n
     \<and> length (chunk_sub_req s) = n \<and> length (chunk_sub_req_time s) = n
     \<and> length (chunk_sub_done_count s) = n \<and> length (chunk_sub_req_count s) = n
     \<and> (\<forall>c < n. unat (chunk_sub_blocks s ! c) \<le> 2 ^ 18
          \<and> length (chunk_sub_done s ! c) = unat (chunk_sub_blocks s ! c)
          \<and> length (chunk_sub_req s ! c) = unat (chunk_sub_blocks s ! c)
          \<and> length (chunk_sub_req_time s ! c) = unat (chunk_sub_blocks s ! c)))"

definition active_inv :: "Scheduler \<Rightarrow> bool" where
  "active_inv s \<longleftrightarrow> distinct (active_chunks s) \<and> set (active_chunks s) = incomplete s"

definition count_inv :: "Scheduler \<Rightarrow> bool" where
  "count_inv s \<longleftrightarrow> (\<forall>c < length (chunk_states s).
     unat (chunk_sub_req_count s ! c) \<le> marked (chunk_sub_req s ! c)
     \<and> unat (chunk_sub_done_count s ! c) = marked (chunk_sub_done s ! c))"

definition sub_ok :: "u32 list \<Rightarrow> nat \<Rightarrow> nat \<Rightarrow> bool" where
  "sub_ok blocks c b \<longleftrightarrow> b mod sub_size = 0 \<and> b div sub_size < unat (blocks ! c)"

definition valid_map :: "u32 list \<Rightarrow> active_map \<Rightarrow> bool" where
  "valid_map blocks m \<longleftrightarrow> (\<forall>(c, bs) \<in> set m. c < length blocks \<and> (\<forall>b \<in> set bs. sub_ok blocks c b))"

definition peers_inv :: "Scheduler \<Rightarrow> bool" where
  "peers_inv s \<longleftrightarrow> (\<forall>p \<in> set (peer_slots s). valid_map (chunk_sub_blocks s) (active_sub_blocks p))"

definition sched_inv :: "Scheduler \<Rightarrow> bool" where
  "sched_inv s \<longleftrightarrow> shape_inv s \<and> active_inv s \<and> count_inv s \<and> peers_inv s"

section \<open>The outstanding sub-blocks of a peer\<close>

lemma sub_size_value [simp]: "unat SUB_BLOCK_SIZE = 16384"
  by (simp add: SUB_BLOCK_SIZE_def)

lemma sub_begin_div: "i < 2 ^ 18 \<Longrightarrow> sub_begin i div sub_size = i"
  by (simp add: sub_begin_def)

lemma sub_begin_ok: "i < 2 ^ 18 \<Longrightarrow> i < unat (blocks ! c) \<Longrightarrow> sub_ok blocks c (sub_begin i)"
  by (simp add: sub_ok_def sub_begin_def)

lemma act_find_mem: "b \<in> set (act_find c m) \<Longrightarrow> \<exists>bs. (c, bs) \<in> set m \<and> b \<in> set bs"
  by (cases "map_of m c") (auto simp: act_find_def dest: map_of_SomeD)

lemma set_act_put: "set (act_put c bs m) \<subseteq> insert (c, bs) (set m)"
  by (induction c bs m rule: act_put.induct) auto

lemma valid_put:
  "valid_map blocks m \<Longrightarrow> c < length blocks \<Longrightarrow> \<forall>b \<in> set bs. sub_ok blocks c b
    \<Longrightarrow> valid_map blocks (act_put c bs m)"
  using set_act_put[of c bs m] by (fastforce simp: valid_map_def)

lemma valid_find:
  "valid_map blocks m \<Longrightarrow> b \<in> set (act_find c m) \<Longrightarrow> c < length blocks \<and> sub_ok blocks c b"
  by (fastforce simp: valid_map_def dest: act_find_mem)

lemma valid_insert:
  assumes "valid_map blocks m" "c < length blocks" "sub_ok blocks c b"
  shows "valid_map blocks (act_insert c b m)"
  unfolding act_insert_def Let_def
  using assms valid_find[OF assms(1)] by (intro valid_put) (auto simp: set_insort_key)

lemma valid_erase:
  assumes "valid_map blocks m"
  shows "valid_map blocks (act_erase c b m)"
  unfolding valid_map_def
proof (intro ballI)
  fix e assume "e \<in> set (act_erase c b m)"
  then obtain d ds where d: "(d, ds) \<in> set m" "fst e = d" "set (snd e) \<subseteq> set ds"
    using set_remove1_subset[of b] by (fastforce simp: act_erase_def split: if_splits)
  then have "d < length blocks" "\<forall>x \<in> set ds. sub_ok blocks d x"
    using assms by (auto simp: valid_map_def)
  then show "case e of (d, ds) \<Rightarrow> d < length blocks \<and> (\<forall>x \<in> set ds. sub_ok blocks d x)"
    using d(2,3) by (cases e) auto
qed

lemma valid_remove: "valid_map blocks m \<Longrightarrow> valid_map blocks (act_remove c m)"
  by (auto simp: valid_map_def act_remove_def)

lemma valid_erase_drop: "valid_map blocks m \<Longrightarrow> valid_map blocks (act_erase_drop c b m)"
  by (simp add: act_erase_drop_def Let_def valid_erase valid_remove)

lemmas valid_intros = valid_insert valid_erase valid_remove valid_erase_drop

lemma peers_upd:
  assumes "\<forall>q \<in> set ps. P q" "p < length ps \<Longrightarrow> P (f (ps ! p))"
  shows "\<forall>q \<in> set (ps[p := f (ps ! p)]). P q"
  using assms by (cases "p < length ps") (auto dest!: in_updated simp: list_update_beyond)

section \<open>Scheduling actions keep the invariant\<close>

lemma set2_nth: "c < length xss \<Longrightarrow> set2 xss c i v ! d = (if d = c then (xss ! c)[i := v] else xss ! d)"
  by (simp add: set2_def nth_list_update)

lemma length_set2 [simp]: "length (set2 xss c i v) = length xss"
  by (simp add: set2_def)

lemma length_set2_nth [simp]: "length (set2 xss c i v ! d) = length (xss ! d)"
  by (cases "c < length xss") (simp_all add: set2_def nth_list_update list_update_beyond)

lemma marked_set_True_ge: "i < length bs \<Longrightarrow> marked bs \<le> marked (bs[i := True])"
  by (cases "bs ! i") (simp_all add: marked_set_true marked_set_same)

lemma shape_issue: "shape_inv s \<Longrightarrow> shape_inv (issue_sub_block p c now i s)"
  by (simp add: shape_inv_def Let_def)

lemma shape_move: "shape_inv s \<Longrightarrow> shape_inv (move_request p src c b now s)"
  by (simp add: shape_inv_def Let_def)

lemma shapeD:
  assumes "shape_inv s" "c < length (chunk_states s)"
  shows "length (chunk_sub_req s ! c) = unat (sub_total s c)" "length (chunk_sub_done s ! c) = unat (sub_total s c)"
    "unat (sub_total s c) \<le> 2 ^ 18" "c < length (chunk_sub_req s)" "c < length (chunk_sub_done s)"
    "c < length (chunk_sub_blocks s)" "c < length (chunk_sub_req_count s)" "c < length (chunk_sub_done_count s)"
    "sub_total s c = chunk_sub_blocks s ! c" "length (chunk_sub_req_time s ! c) = unat (sub_total s c)"
    "c < length (chunk_sub_req_time s)"
  using assms by (auto simp: shape_inv_def Let_def sub_total_def)

lemma count_issue:
  assumes "shape_inv s" "count_inv s" "c < length (chunk_states s)" "i < unat (sub_total s c)" "\<not> chunk_sub_req s ! c ! i"
  shows "count_inv (issue_sub_block p c now i s)"
proof -
  note d = shapeD[OF assms(1,3)]
  have "unat (chunk_sub_req_count s ! c + 1) \<le> marked ((chunk_sub_req s ! c)[i := True])"
    using assms d unat_inc_le[of "chunk_sub_req_count s ! c"] by (simp add: marked_set_true count_inv_def) (meson Suc_le_mono le_trans)
  then show ?thesis
    using assms d by (auto simp: count_inv_def set2_nth nth_list_update)
qed

lemma count_move:
  assumes "shape_inv s" "count_inv s" "c < length (chunk_states s)" "b div sub_size < unat (sub_total s c)"
  shows "count_inv (move_request p src c b now s)"
proof -
  note d = shapeD[OF assms(1,3)]
  have "marked (chunk_sub_req s ! c) \<le> marked ((chunk_sub_req s ! c)[b div sub_size := True])"
    using assms d by (intro marked_set_True_ge) simp
  then show ?thesis
    using assms d by (auto simp: count_inv_def set2_nth intro: order_trans)
qed

lemma peers_issue:
  assumes "peers_inv s" "shape_inv s" "c < length (chunk_states s)" "i < unat (sub_total s c)"
  shows "peers_inv (issue_sub_block p c now i s)"
proof -
  note d = shapeD[OF assms(2,3)]
  have "i < 2 ^ 18" using assms(4) d(3) by linarith
  then have "sub_ok (chunk_sub_blocks s) c (sub_begin i)"
    using assms(4) d(9) by (simp add: sub_begin_ok)
  then show ?thesis
    using assms(1) d(6) unfolding peers_inv_def issue_fields
    by (intro peers_upd[where P = "\<lambda>q. valid_map (chunk_sub_blocks s) (active_sub_blocks q)"
          and f = "\<lambda>q. q\<lparr>pending_requests := pending_requests q + 1,
            active_sub_blocks := act_insert c (sub_begin i) (active_sub_blocks q)\<rparr>"]) (simp_all add: valid_insert)
qed

lemma peers_move:
  assumes "peers_inv s" "c < length (chunk_sub_blocks s)" "sub_ok (chunk_sub_blocks s) c b"
  shows "peers_inv (move_request p src c b now s)"
proof -
  define f where "f q = q\<lparr>pending_requests := (if pending_requests q > 0 then pending_requests q - 1 else pending_requests q),
                  active_sub_blocks := act_erase_drop c b (active_sub_blocks q)\<rparr>" for q :: PeerSlot
  define g where "g q = q\<lparr>pending_requests := pending_requests q + 1,
                  active_sub_blocks := act_insert c b (active_sub_blocks q)\<rparr>" for q :: PeerSlot
  define ps where "ps = (peer_slots s)[src := f (peer_slots s ! src)]"
  let ?P = "\<lambda>q. valid_map (chunk_sub_blocks s) (active_sub_blocks q)"
  have e: "peer_slots (move_request p src c b now s) = ps[p := g (ps ! p)]"
    by (simp add: move_request_def Let_def ps_def f_def g_def)
  have "\<forall>q \<in> set ps. ?P q"
    unfolding ps_def using assms by (intro peers_upd) (simp_all add: peers_inv_def f_def valid_erase_drop)
  then have "\<forall>q \<in> set (ps[p := g (ps ! p)]). ?P q"
    using assms by (intro peers_upd) (simp_all add: g_def valid_insert)
  then show ?thesis by (simp add: peers_inv_def e)
qed

lemma peers_redundant:
  assumes "peers_inv s" "shape_inv s" "c < length (chunk_states s)" "i < unat (sub_total s c)"
  shows "peers_inv (request_redundant c i sid s)"
proof (cases "peer_slot s sid")
  case (Some p)
  note d = shapeD[OF assms(2,3)]
  have "i < 2 ^ 18" using assms(4) d(3) by linarith
  then have b: "sub_ok (chunk_sub_blocks s) c (sub_begin i)"
    using assms(4) d(9) by (simp add: sub_begin_ok)
  let ?f = "\<lambda>q. q\<lparr>pending_requests := pending_requests q + 1, active_sub_blocks := act_insert c (sub_begin i) (active_sub_blocks q)\<rparr>"
  have "\<forall>q \<in> set ((peer_slots s)[p := ?f (peer_slots s ! p)]). valid_map (chunk_sub_blocks s) (active_sub_blocks q)"
    using assms(1) d(6) b by (intro peers_upd) (simp_all add: peers_inv_def valid_insert)
  then show ?thesis using Some by (simp add: request_redundant_def Let_def peers_inv_def)
qed (use assms in \<open>simp add: request_redundant_def\<close>)

lemma incomplete_cong:
  "same_completion s s' \<Longrightarrow> incomplete s' = incomplete s"
  by (auto simp: same_completion_def incomplete_def)

lemma act_sched_inv:
  assumes "sched_act s s'" "sched_inv s"
  shows "sched_inv s'"
proof -
  have active: "active_inv s'"
    using incomplete_cong[OF act_completion[OF assms(1)]] act_frame[OF assms(1)] assms(2)
    by (simp add: sched_inv_def active_inv_def sched_frame_def)
  have parts: "shape_inv s" "count_inv s" "peers_inv s" using assms(2) by (simp_all add: sched_inv_def)
  from assms(1) have "shape_inv s' \<and> count_inv s' \<and> peers_inv s'"
  proof cases
    case (act_start c)
    then show ?thesis using parts by (simp add: shape_inv_def count_inv_def peers_inv_def Let_def)
  next
    case (act_issue p c i now)
    then show ?thesis using parts by (simp add: shape_issue count_issue peers_issue)
  next
    case (act_move p src c b now)
    have "valid_map (chunk_sub_blocks s) (active_sub_blocks (peer_slots s ! src))"
      using parts act_move by (simp add: peers_inv_def)
    then have v: "c < length (chunk_sub_blocks s) \<and> sub_ok (chunk_sub_blocks s) c b"
      using act_move valid_find by blast
    then have "b div sub_size < unat (sub_total s c)" by (simp add: sub_total_def sub_ok_def)
    then show ?thesis using parts act_move v by (simp only: shape_move count_move peers_move simp_thms)
  next
    case (act_forget src b c)
    have "peers_inv s'"
      using parts(3) unfolding act_forget(1) peers_inv_def upd_peer_fields
      by (intro peers_upd[where P = "\<lambda>q. valid_map (chunk_sub_blocks s) (active_sub_blocks q)"
            and f = "\<lambda>q. q\<lparr>active_sub_blocks := act_erase c b (active_sub_blocks q)\<rparr>"]) (simp_all add: valid_erase)
    then show ?thesis using parts act_forget(1) by (simp add: shape_inv_def count_inv_def Let_def)
  next
    case (act_redundant sid p c i now th q)
    then show ?thesis
      using parts peers_redundant[OF parts(3,1), of c i sid] by (simp add: shape_inv_def count_inv_def Let_def)
  qed
  then show ?thesis using active by (simp add: sched_inv_def)
qed

lemma acts_sched_inv: "sched_acts s s' \<Longrightarrow> sched_inv s \<Longrightarrow> sched_inv s'"
  by (induction rule: rtranclp_induct) (auto intro: act_sched_inv)

section \<open>The public operations keep the invariant\<close>

lemmas inv_parts = sched_inv_def shape_inv_def active_inv_def count_inv_def peers_inv_def incomplete_def

lemma inv_emit [simp]: "sched_inv (emit ev s) = sched_inv s"
  by (simp add: inv_parts)

lemma inv_upd_peer:
  assumes "sched_inv s" "\<And>q. valid_map (chunk_sub_blocks s) (active_sub_blocks q)
      \<Longrightarrow> valid_map (chunk_sub_blocks s) (active_sub_blocks (f q))"
  shows "sched_inv (upd_peer p f s)"
proof -
  have "\<forall>q \<in> set ((peer_slots s)[p := f (peer_slots s ! p)]). valid_map (chunk_sub_blocks s) (active_sub_blocks q)"
    using assms by (intro peers_upd) (simp_all add: sched_inv_def peers_inv_def)
  then show ?thesis using assms(1) by (simp add: inv_parts)
qed

lemma inv_availability:
  "sched_inv s \<Longrightarrow> length av = length (availability s) \<Longrightarrow> sched_inv (s\<lparr>availability := av\<rparr>)"
  by (simp add: inv_parts)

lemma inv_peers:
  "sched_inv s \<Longrightarrow> \<forall>q \<in> set ps. valid_map (chunk_sub_blocks s) (active_sub_blocks q) \<Longrightarrow> sched_inv (s\<lparr>peer_slots := ps\<rparr>)"
  by (simp add: inv_parts)

lemma inv_phase: "sched_inv s \<Longrightarrow> sched_inv (s\<lparr>phase := x\<rparr>)"
  by (simp add: inv_parts)

lemma length_availability [simp]:
  "length (add_availability bf av) = length av" "length (drop_availability bf av) = length av"
  by (simp_all add: add_availability_def drop_availability_def)

lemma check_interest_inv: "sched_inv s \<Longrightarrow> sched_inv (check_peer_interest sid s)"
  by (simp add: check_peer_interest_def)

lemma check_interest_peers [simp]: "peer_slots (check_peer_interest sid s) = peer_slots s"
  by (simp add: check_peer_interest_def)

lemma on_peer_added_inv: "sched_inv s \<Longrightarrow> sched_inv (on_peer_added sid speed s)"
  unfolding on_peer_added_def by (rule inv_peers) (auto simp: sched_inv_def peers_inv_def valid_map_def)

lemma on_peer_speed_inv: "sched_inv s \<Longrightarrow> sched_inv (on_peer_speed sid speed s)"
  by (simp add: on_peer_speed_def inv_upd_peer split: option.split)

lemma on_choke_change_inv: "sched_inv s \<Longrightarrow> sched_inv (on_choke_change sid ch s)"
  by (simp add: on_choke_change_def inv_upd_peer split: option.split)

lemma on_bitfield_inv:
  assumes "sched_inv s"
  shows "sched_inv (on_bitfield sid bf now s)"
proof (cases "peer_slot s sid")
  case (Some p)
  then have p: "p < length (peer_slots s)" using find_slot_Some by (simp add: peer_slot_def)
  show ?thesis
    using Some p assms
    by (auto simp: on_bitfield_def Let_def intro!: acts_sched_inv[OF rebalance_acts] check_interest_inv
        inv_availability inv_upd_peer)
qed (use assms in \<open>simp add: on_bitfield_def\<close>)

lemma on_have_inv:
  assumes "sched_inv s"
  shows "sched_inv (on_have sid c now s)"
proof (cases "peer_slot s sid")
  case (Some p)
  then have p: "p < length (peer_slots s)" using find_slot_Some by (simp add: peer_slot_def)
  show ?thesis
    using Some p assms
    by (auto simp: on_have_def Let_def intro!: acts_sched_inv[OF rebalance_acts] check_interest_inv
        inv_availability inv_upd_peer)
qed (use assms in \<open>simp add: on_have_def\<close>)

lemma mark_done_inv:
  assumes "sched_inv s" "c < length (chunk_sub_done s)" "i < length (chunk_sub_done s ! c)" "\<not> chunk_sub_done s ! c ! i"
  shows "sched_inv (s\<lparr>chunk_sub_done := set2 (chunk_sub_done s) c i True,
      chunk_sub_done_count := (chunk_sub_done_count s)[c := chunk_sub_done_count s ! c + 1]\<rparr>)"
proof -
  have c: "c < length (chunk_states s)" using assms by (simp add: sched_inv_def shape_inv_def Let_def)
  have sh: "shape_inv s" and co: "count_inv s" using assms(1) by (simp_all add: sched_inv_def)
  note d = shapeD[OF sh c]
  have "marked (chunk_sub_done s ! c) < length (chunk_sub_done s ! c)"
    using marked_le_length[of "chunk_sub_done s ! c"] marked_full_iff[of "chunk_sub_done s ! c"] assms(3,4)
    by (metis le_neq_implies_less)
  then have "Suc (unat (chunk_sub_done_count s ! c)) < 2 ^ 32"
    using co c d(2,3) by (simp add: count_inv_def)
  then have "unat (chunk_sub_done_count s ! c + 1) = Suc (marked (chunk_sub_done s ! c))"
    using co c by (simp add: count_inv_def unat_word_ariths)
  then show ?thesis
    using assms co c d
    by (auto simp: sched_inv_def shape_inv_def active_inv_def peers_inv_def incomplete_def count_inv_def
        Let_def set2_nth nth_list_update marked_set_true)
qed

lemma note_piece_inv:
  assumes "sched_inv s"
  shows "sched_inv (note_piece p c begin s)"
proof -
  define s1 where "s1 = upd_peer p (\<lambda>q. q\<lparr>pending_requests := pending_requests q - 1\<rparr>) s"
  define s2 where "s2 = (if c < length (chunk_sub_done s1) \<and> begin div sub_size < length (chunk_sub_done s1 ! c)
        \<and> \<not> chunk_sub_done s1 ! c ! (begin div sub_size)
      then s1\<lparr>chunk_sub_done := set2 (chunk_sub_done s1) c (begin div sub_size) True,
              chunk_sub_done_count := (chunk_sub_done_count s1)[c := chunk_sub_done_count s1 ! c + 1]\<rparr>
      else s1)"
  have 1: "sched_inv s1" using assms by (simp add: s1_def inv_upd_peer)
  have 2: "sched_inv s2" using 1 mark_done_inv[OF 1] by (simp add: s2_def)
  have "note_piece p c begin s = (if c \<in> fst ` set (active_sub_blocks (peer_slots s2 ! p))
      then upd_peer p (\<lambda>q. q\<lparr>active_sub_blocks := act_erase_drop c begin (active_sub_blocks q)\<rparr>) s2 else s2)"
    by (simp only: note_piece_def Let_def s1_def s2_def)
  then show ?thesis using 2 by (simp add: inv_upd_peer valid_erase_drop)
qed

lemma note_piece_static [simp]:
  "map peer_static (peer_slots (note_piece p c b s)) = map peer_static (peer_slots s)"
  "length (peer_slots (note_piece p c b s)) = length (peer_slots s)"
  "availability (note_piece p c b s) = availability s" "phase (note_piece p c b s) = phase s"
  "missing_count (note_piece p c b s) = missing_count s" "chunk_states (note_piece p c b s) = chunk_states s"
  by (simp_all add: note_piece_def Let_def map_static_update)

lemma dec_peer_pending_inv:
  assumes "sched_inv s"
  shows "sched_inv (dec_peer_pending sid c begin now s)"
proof (cases "peer_slot s sid")
  case (Some p)
  then have p: "p < length (peer_slots s)" using find_slot_Some by (simp add: peer_slot_def)
  have "sched_inv (snd (try_schedule_for_peer p now (note_piece p c begin s)))"
    using p by (intro acts_sched_inv[OF try_schedule_acts note_piece_inv[OF assms]]) simp
  then show ?thesis
    using Some assms note_piece_inv[OF assms] by (simp add: dec_peer_pending_def Let_def)
qed (use assms in \<open>simp add: dec_peer_pending_def\<close>)

text \<open>Withdrawing a request: the flag is cleared and the counter, unless zero, decremented.\<close>

definition withdrawn :: "nat \<Rightarrow> nat \<Rightarrow> Scheduler \<Rightarrow> Scheduler \<Rightarrow> bool" where
  "withdrawn c i s s' \<longleftrightarrow> (\<exists>t x. s' = s\<lparr>chunk_sub_req := set2 (chunk_sub_req s) c i False,
       chunk_sub_req_time := t, chunk_sub_req_count := (chunk_sub_req_count s)[c := x]\<rparr>
     \<and> length t = length (chunk_sub_req_time s) \<and> (\<forall>d < length t. length (t ! d) = length (chunk_sub_req_time s ! d))
     \<and> unat x = unat (chunk_sub_req_count s ! c) - 1)"

lemma withdrawn_inv:
  assumes "withdrawn c i s s'" "sched_inv s" "c < length (chunk_sub_req s)" "i < length (chunk_sub_req s ! c)"
    "chunk_sub_req s ! c ! i"
  shows "sched_inv s'"
proof -
  obtain t x where e: "s' = s\<lparr>chunk_sub_req := set2 (chunk_sub_req s) c i False, chunk_sub_req_time := t,
      chunk_sub_req_count := (chunk_sub_req_count s)[c := x]\<rparr>"
    and t: "length t = length (chunk_sub_req_time s)" "\<forall>d < length t. length (t ! d) = length (chunk_sub_req_time s ! d)"
    and x: "unat x = unat (chunk_sub_req_count s ! c) - 1"
    using assms(1) by (auto simp: withdrawn_def)
  have c: "c < length (chunk_states s)" using assms(2,3) by (simp add: sched_inv_def shape_inv_def Let_def)
  have "unat (chunk_sub_req_count s ! c) \<le> marked (chunk_sub_req s ! c)"
    using assms(2) c by (simp add: sched_inv_def count_inv_def)
  then have "unat x \<le> marked ((chunk_sub_req s ! c)[i := False])"
    using x marked_set_false[OF assms(4,5)] by linarith
  then show ?thesis
    using assms(2-4) c t
    by (auto simp: e sched_inv_def shape_inv_def active_inv_def peers_inv_def incomplete_def count_inv_def
        Let_def set2_nth nth_list_update)
qed

lemma word_pred_or_zero:
  "unat (if (0 :: 'a::len word) < x then x - 1 else x) = unat x - 1"
  by (auto simp: unat_dec word_gt_0 unat_gt_0)

lemma release_withdrawn:
  assumes "c < length (chunk_sub_req s)" "begin div sub_size < length (chunk_sub_req s ! c)"
    "chunk_sub_req s ! c ! (begin div sub_size)" "c < length (chunk_sub_req_count s)"
  shows "withdrawn c (begin div sub_size) s (release_request c begin s)"
proof -
  have z: "chunk_sub_req_count s ! c = 0 \<Longrightarrow> (chunk_sub_req_count s)[c := 0] = chunk_sub_req_count s"
    by (metis list_update_id)
  show ?thesis
    using assms word_pred_or_zero[of "chunk_sub_req_count s ! c"] unfolding withdrawn_def
    by (intro exI[of _ "chunk_sub_req_time (release_request c begin s)"]
        exI[of _ "if 0 < chunk_sub_req_count s ! c then chunk_sub_req_count s ! c - 1 else chunk_sub_req_count s ! c"])
      (auto simp: release_request_def Let_def word_gt_0 z)
qed

lemma release_request_inv:
  assumes "sched_inv s"
  shows "sched_inv (release_request c begin s)"
proof (cases "c < length (chunk_sub_req s) \<and> begin div sub_size < length (chunk_sub_req s ! c)
    \<and> chunk_sub_req s ! c ! (begin div sub_size)")
  case True
  then have "c < length (chunk_sub_req_count s)" using assms by (simp add: sched_inv_def shape_inv_def Let_def)
  then show ?thesis using True assms release_withdrawn withdrawn_inv by blast
next
  case False
  then have "release_request c begin s = s" by (auto simp: release_request_def Let_def)
  then show ?thesis using assms by simp
qed

lemma timeout_withdrawn:
  assumes "c < length (chunk_states s)" "chunk_states s ! c \<noteq> COMPLETE" "c < length (chunk_sub_req s)"
    "begin div sub_size < length (chunk_sub_req s ! c)"
    "chunk_sub_req s ! c ! (begin div sub_size)" "c < length (chunk_sub_req_count s)"
  shows "withdrawn c (begin div sub_size) s (on_subblock_timeout c begin s)"
proof -
  have z: "chunk_sub_req_count s ! c = 0 \<Longrightarrow> (chunk_sub_req_count s)[c := 0] = chunk_sub_req_count s"
    by (metis list_update_id)
  show ?thesis
    using assms word_pred_or_zero[of "chunk_sub_req_count s ! c"] unfolding withdrawn_def
    by (intro exI[of _ "chunk_sub_req_time (on_subblock_timeout c begin s)"]
        exI[of _ "if 0 < chunk_sub_req_count s ! c then chunk_sub_req_count s ! c - 1 else chunk_sub_req_count s ! c"])
      (auto simp: on_subblock_timeout_def Let_def word_gt_0 z)
qed

lemma on_subblock_timeout_inv:
  assumes "sched_inv s"
  shows "sched_inv (on_subblock_timeout c begin s)"
proof (cases "c < length (chunk_states s) \<and> chunk_states s ! c \<noteq> COMPLETE \<and> c < length (chunk_sub_req s)
    \<and> begin div sub_size < length (chunk_sub_req s ! c) \<and> chunk_sub_req s ! c ! (begin div sub_size)")
  case True
  then have "c < length (chunk_sub_req_count s)" using assms by (simp add: sched_inv_def shape_inv_def Let_def)
  then show ?thesis using True assms timeout_withdrawn withdrawn_inv by blast
next
  case False
  then have "on_subblock_timeout c begin s = s \<or> on_subblock_timeout c begin s
      = s\<lparr>chunk_sub_req_time := set2 (chunk_sub_req_time s) c (begin div sub_size) 0\<rparr>"
    by (auto simp: on_subblock_timeout_def Let_def)
  then show ?thesis using assms by (auto simp: inv_parts Let_def)
qed

lemma release_static [simp]:
  "chunk_sub_blocks (release_request c b s) = chunk_sub_blocks s" "peer_slots (release_request c b s) = peer_slots s"
  "chunk_states (release_request c b s) = chunk_states s" "missing_count (release_request c b s) = missing_count s"
  "availability (release_request c b s) = availability s" "phase (release_request c b s) = phase s"
  by (simp_all add: release_request_def Let_def)

lemma release_fold_inv: "sched_inv s \<Longrightarrow> sched_inv (fold (release_request c) bs s)"
  by (induction bs arbitrary: s) (simp_all add: release_request_inv)

lemma release_fold_static [simp]:
  "chunk_sub_blocks (fold (release_request c) bs s) = chunk_sub_blocks s"
  "peer_slots (fold (release_request c) bs s) = peer_slots s"
  "chunk_states (fold (release_request c) bs s) = chunk_states s"
  "missing_count (fold (release_request c) bs s) = missing_count s"
  "availability (fold (release_request c) bs s) = availability s"
  "phase (fold (release_request c) bs s) = phase s"
  by (induction bs arbitrary: s) simp_all

lemma inv_to_missing:
  assumes "sched_inv s" "chunk_states s ! c \<noteq> COMPLETE"
  shows "sched_inv (s\<lparr>chunk_states := (chunk_states s)[c := MISSING]\<rparr>)"
proof -
  have "incomplete (s\<lparr>chunk_states := (chunk_states s)[c := MISSING]\<rparr>) = incomplete s"
    using assms(2) by (cases "c < length (chunk_states s)") (auto simp: incomplete_def nth_list_update list_update_beyond)
  then show ?thesis
    using assms(1) by (simp add: sched_inv_def shape_inv_def count_inv_def peers_inv_def active_inv_def)
qed

lemma release_chunk_inv: "sched_inv s \<Longrightarrow> sched_inv (release_chunk e s)"
  using release_fold_inv[of s "fst e" "snd e"] inv_to_missing[OF release_fold_inv[of s "fst e" "snd e"], of "fst e"]
  by (cases e) (simp add: release_chunk_def Let_def)

lemma release_chunk_static [simp]:
  "chunk_sub_blocks (release_chunk e s) = chunk_sub_blocks s" "peer_slots (release_chunk e s) = peer_slots s"
  "missing_count (release_chunk e s) = missing_count s" "availability (release_chunk e s) = availability s"
  "phase (release_chunk e s) = phase s"
  by (simp_all add: release_chunk_def Let_def split: prod.split)

lemma release_chunks_inv: "sched_inv s \<Longrightarrow> sched_inv (fold release_chunk es s)"
  by (induction es arbitrary: s) (simp_all add: release_chunk_inv)

lemma release_chunks_static [simp]:
  "chunk_sub_blocks (fold release_chunk es s) = chunk_sub_blocks s" "peer_slots (fold release_chunk es s) = peer_slots s"
  "missing_count (fold release_chunk es s) = missing_count s" "availability (fold release_chunk es s) = availability s"
  "phase (fold release_chunk es s) = phase s"
  by (induction es arbitrary: s) simp_all

lemma on_peer_removed_inv:
  assumes "sched_inv s"
  shows "sched_inv (on_peer_removed sid s)"
proof -
  define s1 where "s1 = (case peer_slot s sid of None \<Rightarrow> s
      | Some p \<Rightarrow> let q = peer_slots s ! p; s' = s\<lparr>availability := drop_availability (remote_bitfield q) (availability s)\<rparr>
                 in fold release_chunk (active_sub_blocks q) s')"
  have 1: "sched_inv s1"
    using assms by (simp add: s1_def Let_def release_chunks_inv inv_availability split: option.split)
  have e: "on_peer_removed sid s = s1\<lparr>peer_slots := filter (\<lambda>q. slot_id q \<noteq> sid) (peer_slots s1)\<rparr>"
    by (simp only: on_peer_removed_def Let_def s1_def)
  show ?thesis
    unfolding e using 1 by (intro inv_peers) (auto simp: sched_inv_def peers_inv_def)
qed

text \<open>Completions.\<close>

lemma find_index:
  assumes "c \<in> set cs"
  obtains i where "find (\<lambda>i. cs ! i = c) [0..<length cs] = Some i" "i < length cs" "cs ! i = c"
proof -
  have "find (\<lambda>i. cs ! i = c) [0..<length cs] \<noteq> None"
    using assms by (auto simp: find_None_iff in_set_conv_nth)
  then obtain i where i: "find (\<lambda>i. cs ! i = c) [0..<length cs] = Some i" by auto
  then have "i < length cs" "cs ! i = c" by (auto simp: find_Some_iff)
  then show thesis using that i by blast
qed

lemma swap_remove_set:
  assumes "distinct cs"
  shows "distinct (swap_remove c cs) \<and> set (swap_remove c cs) = set cs - {c}"
proof (cases "c \<in> set cs")
  case True
  then obtain i where i: "find (\<lambda>i. cs ! i = c) [0..<length cs] = Some i" "i < length cs" "cs ! i = c"
    by (rule find_index)
  obtain xs x where cs: "cs = xs @ [x]" using i(2) by (cases cs rule: rev_exhaust) auto
  show ?thesis
  proof (cases "i = length xs")
    case True
    then show ?thesis using assms i cs by (simp add: swap_remove_def)
  next
    case False
    then have i': "i < length xs" "xs ! i = c" using i(2,3) by (simp_all add: cs nth_append)
    then have e: "swap_remove c cs = xs[i := x]"
      using i(1) by (simp add: swap_remove_def cs list_update_append)
    have "distinct xs" "x \<notin> set xs" using assms cs by auto
    then have "distinct (xs[i := x])" by (simp add: distinct_list_update)
    moreover have "set (xs[i := x]) = insert x (set xs - {c})"
      using i' \<open>distinct xs\<close> by (simp add: set_update_distinct)
    moreover have "c \<noteq> x" using i' \<open>x \<notin> set xs\<close> by auto
    ultimately show ?thesis unfolding e by (simp add: cs insert_Diff_if)
  qed
next
  case False
  then have "find (\<lambda>i. cs ! i = c) [0..<length cs] = None" by (auto simp: find_None_iff)
  then show ?thesis using assms False by (simp add: swap_remove_def)
qed

lemma cancel_begins_inv: "sched_inv s \<Longrightarrow> sched_inv (cancel_begins p c bs s)"
proof (induction bs arbitrary: s)
  case (Cons b bs)
  then show ?case by (auto intro!: Cons.IH inv_upd_peer)
qed simp

lemma cancel_begins_static:
  "chunk_states (cancel_begins p c bs s) = chunk_states s" "missing_count (cancel_begins p c bs s) = missing_count s"
  "chunk_sub_blocks (cancel_begins p c bs s) = chunk_sub_blocks s" "availability (cancel_begins p c bs s) = availability s"
  "chunk_sub_req (cancel_begins p c bs s) = chunk_sub_req s" "phase (cancel_begins p c bs s) = phase s"
  "chunk_sub_req_count (cancel_begins p c bs s) = chunk_sub_req_count s"
  "active_chunks (cancel_begins p c bs s) = active_chunks s" "cancel_set (cancel_begins p c bs s) = cancel_set s"
  "not_interested_broadcaster_set (cancel_begins p c bs s) = not_interested_broadcaster_set s"
  "map peer_static (peer_slots (cancel_begins p c bs s)) = map peer_static (peer_slots s)"
  by (induction bs arbitrary: s) (simp_all add: map_static_update)

lemma cancel_at_inv: "sched_inv s \<Longrightarrow> sched_inv (cancel_at c ex p s)"
  by (auto simp: cancel_at_def Let_def intro!: inv_upd_peer cancel_begins_inv valid_remove)

lemma cancel_at_static:
  "chunk_states (cancel_at c ex p s) = chunk_states s" "missing_count (cancel_at c ex p s) = missing_count s"
  "chunk_sub_blocks (cancel_at c ex p s) = chunk_sub_blocks s" "availability (cancel_at c ex p s) = availability s"
  "chunk_sub_req (cancel_at c ex p s) = chunk_sub_req s" "phase (cancel_at c ex p s) = phase s"
  "chunk_sub_req_count (cancel_at c ex p s) = chunk_sub_req_count s"
  "active_chunks (cancel_at c ex p s) = active_chunks s" "cancel_set (cancel_at c ex p s) = cancel_set s"
  "not_interested_broadcaster_set (cancel_at c ex p s) = not_interested_broadcaster_set s"
  "map peer_static (peer_slots (cancel_at c ex p s)) = map peer_static (peer_slots s)"
  by (simp_all add: cancel_at_def Let_def cancel_begins_static map_static_update)

lemma cancel_fold_static:
  "sched_inv s \<Longrightarrow> sched_inv (fold (cancel_at c ex) ps s)"
  "chunk_states (fold (cancel_at c ex) ps s) = chunk_states s" "missing_count (fold (cancel_at c ex) ps s) = missing_count s"
  "chunk_sub_blocks (fold (cancel_at c ex) ps s) = chunk_sub_blocks s" "availability (fold (cancel_at c ex) ps s) = availability s"
  "chunk_sub_req (fold (cancel_at c ex) ps s) = chunk_sub_req s" "phase (fold (cancel_at c ex) ps s) = phase s"
  "chunk_sub_req_count (fold (cancel_at c ex) ps s) = chunk_sub_req_count s"
  "active_chunks (fold (cancel_at c ex) ps s) = active_chunks s" "cancel_set (fold (cancel_at c ex) ps s) = cancel_set s"
  "not_interested_broadcaster_set (fold (cancel_at c ex) ps s) = not_interested_broadcaster_set s"
  "map peer_static (peer_slots (fold (cancel_at c ex) ps s)) = map peer_static (peer_slots s)"
  by (induction ps arbitrary: s) (simp_all add: cancel_at_inv cancel_at_static)

lemma send_cancel_static [simp]:
  "sched_inv s \<Longrightarrow> sched_inv (send_cancel_for_chunk c ex s)"
  "chunk_states (send_cancel_for_chunk c ex s) = chunk_states s"
  "missing_count (send_cancel_for_chunk c ex s) = missing_count s"
  "chunk_sub_blocks (send_cancel_for_chunk c ex s) = chunk_sub_blocks s"
  "availability (send_cancel_for_chunk c ex s) = availability s"
  "chunk_sub_req (send_cancel_for_chunk c ex s) = chunk_sub_req s" "phase (send_cancel_for_chunk c ex s) = phase s"
  "chunk_sub_req_count (send_cancel_for_chunk c ex s) = chunk_sub_req_count s"
  "active_chunks (send_cancel_for_chunk c ex s) = active_chunks s"
  "not_interested_broadcaster_set (send_cancel_for_chunk c ex s) = not_interested_broadcaster_set s"
  "map peer_static (peer_slots (send_cancel_for_chunk c ex s)) = map peer_static (peer_slots s)"
  by (simp_all add: send_cancel_for_chunk_def cancel_fold_static)

lemma unat_update_zero_le: "unat ((xs :: u32 list)[c := 0] ! d) \<le> unat (xs ! d)"
  by (cases "c < length xs") (auto simp: nth_list_update list_update_beyond)

lemma inv_req_count_zero:
  "sched_inv s \<Longrightarrow> sched_inv (s\<lparr>chunk_sub_req_count := (chunk_sub_req_count s)[c := 0]\<rparr>)"
  using unat_update_zero_le[of "chunk_sub_req_count s" c]
  by (auto simp: inv_parts Let_def) (meson le_trans)

lemma inv_complete:
  assumes "sched_inv s"
  shows "sched_inv (s\<lparr>chunk_states := (chunk_states s)[c := COMPLETE], missing_count := x,
    active_chunks := swap_remove c (active_chunks s)\<rparr>)"
proof -
  have "incomplete (s\<lparr>chunk_states := (chunk_states s)[c := COMPLETE], missing_count := x,
      active_chunks := swap_remove c (active_chunks s)\<rparr>) = incomplete s - {c}"
    by (cases "c < length (chunk_states s)") (auto simp: incomplete_def nth_list_update list_update_beyond)
  then show ?thesis
    using assms swap_remove_set[of "active_chunks s" c]
    by (simp add: sched_inv_def shape_inv_def count_inv_def peers_inv_def active_inv_def)
qed

lemma complete_one_inv: "sched_inv s \<Longrightarrow> sched_inv (complete_one msg s)"
  using inv_req_count_zero[of "send_cancel_for_chunk (cc_chunk_idx msg) (cc_winning_peer_slot msg)
      (s\<lparr>chunk_states := (chunk_states s)[cc_chunk_idx msg := COMPLETE], missing_count := missing_count s - 1,
         active_chunks := swap_remove (cc_chunk_idx msg) (active_chunks s)\<rparr>)" "cc_chunk_idx msg"]
  by (simp add: complete_one_def Let_def inv_complete)

lemma complete_fold_inv: "sched_inv s \<Longrightarrow> sched_inv (fold complete_one msgs s)"
  by (induction msgs arbitrary: s) (simp_all add: complete_one_inv)

lemma process_completions_inv: "sched_inv s \<Longrightarrow> sched_inv (process_completions msgs s)"
  by (simp add: process_completions_def Let_def complete_fold_inv inv_phase)

lemma marked_cleared: "marked (map (\<lambda>_. False) xs) = 0"
  by (induction xs) auto

lemma on_verify_failed_inv:
  assumes "sched_inv s" "c < length (chunk_states s)"
  shows "sched_inv (on_verify_failed c s)"
proof -
  let ?s = "on_verify_failed c s"
  have "shape_inv s" "active_inv s" "count_inv s" "peers_inv s" using assms(1) by (simp_all add: sched_inv_def)
  have "incomplete ?s = insert c (incomplete s)"
    using assms(2) by (auto simp: on_verify_failed_def incomplete_def nth_list_update)
  then have "active_inv ?s"
    using \<open>active_inv s\<close> by (auto simp: active_inv_def on_verify_failed_def)
  moreover have "shape_inv ?s"
    using \<open>shape_inv s\<close> assms(2) by (simp add: shape_inv_def Let_def on_verify_failed_def nth_list_update)
  moreover have "count_inv ?s"
    using \<open>count_inv s\<close> \<open>shape_inv s\<close> assms(2)
    by (simp add: count_inv_def shape_inv_def Let_def on_verify_failed_def nth_list_update marked_cleared)
  moreover have "peers_inv ?s" using \<open>peers_inv s\<close> by (simp add: peers_inv_def on_verify_failed_def)
  ultimately show ?thesis by (simp add: sched_inv_def)
qed

lemma mark_one_inv: "sched_inv s \<Longrightarrow> sched_inv (mark_one bf i s)"
proof -
  assume s: "sched_inv s"
  define x where "x = (if chunk_states s ! i = MISSING then missing_count s - 1 else missing_count s)"
  define s2 where "s2 = s\<lparr>chunk_states := (chunk_states s)[i := COMPLETE], missing_count := x,
      active_chunks := swap_remove i (active_chunks s)\<rparr>"
  have "sched_inv s2" unfolding s2_def by (rule inv_complete[OF s])
  moreover have "mark_one bf i s = (if \<not> bf ! i then s else if chunk_states s ! i = COMPLETE then s
      else if i < length (chunk_sub_req_count s2) then s2\<lparr>chunk_sub_req_count := (chunk_sub_req_count s2)[i := 0]\<rparr> else s2)"
    by (simp add: mark_one_def Let_def s2_def x_def)
  ultimately show "sched_inv (mark_one bf i s)" using s by (simp add: inv_req_count_zero)
qed

lemma mark_fold_inv: "sched_inv s \<Longrightarrow> sched_inv (fold (mark_one bf) is s)"
  by (induction "is" arbitrary: s) (simp_all add: mark_one_inv)

lemma mark_all_complete_inv: "sched_inv s \<Longrightarrow> sched_inv (mark_all_complete bf s)"
  by (simp add: mark_all_complete_def Let_def mark_fold_inv inv_phase)

lemma randomize_inv:
  "sched_inv s \<Longrightarrow> mset (shuf (active_chunks s)) = mset (active_chunks s) \<Longrightarrow> sched_inv (randomize_piece_order shuf s)"
  using mset_eq_imp_distinct_iff[of "shuf (active_chunks s)" "active_chunks s"]
    mset_eq_setD[of "shuf (active_chunks s)" "active_chunks s"]
  by (auto simp: randomize_piece_order_def inv_parts)

lemma tick_inv: "std_sort srt \<Longrightarrow> sched_inv s \<Longrightarrow> sched_inv (tick srt now s)"
  by (rule acts_sched_inv[OF tick_acts])

text \<open>Initialisation.\<close>

lemma take_update_Suc: "i < length xs \<Longrightarrow> take (Suc i) (xs[i := y]) = take i xs @ [y]"
  by (simp add: take_Suc_conv_app_nth)

lemma assign_sizes_result:
  assumes "length (chunk_sub_blocks s) = i + length sizes" "length (chunk_sub_done s) = i + length sizes"
    "length (chunk_sub_req s) = i + length sizes" "length (chunk_sub_req_time s) = i + length sizes"
  shows "assign_sizes sizes i s = s\<lparr>
     chunk_sub_blocks := take i (chunk_sub_blocks s) @ map sub_block_count sizes,
     chunk_sub_done := take i (chunk_sub_done s) @ map (\<lambda>z. replicate (unat (sub_block_count z)) False) sizes,
     chunk_sub_req := take i (chunk_sub_req s) @ map (\<lambda>z. replicate (unat (sub_block_count z)) False) sizes,
     chunk_sub_req_time := take i (chunk_sub_req_time s) @ map (\<lambda>z. replicate (unat (sub_block_count z)) 0) sizes\<rparr>"
  using assms
proof (induction sizes arbitrary: i s)
  case (Cons z sizes)
  then show ?case by (simp add: Let_def take_update_Suc)
qed simp

lemma sub_block_count_le: "unat (sub_block_count z) \<le> 2 ^ 18"
proof -
  have "unat (sub_block_count z) = unat (z + SUB_BLOCK_SIZE - 1) div sub_size"
    by (simp only: sub_block_count_def unat_div)
  also have "\<dots> \<le> (2 ^ 32 - 1) div 16384"
    unfolding sub_size_value using unat_u32_less[of "z + SUB_BLOCK_SIZE - 1"] by (intro div_le_mono) simp
  finally show ?thesis by simp
qed

definition fresh_scheduler :: "u32 list \<Rightarrow> u32 \<Rightarrow> Scheduler" where
  "fresh_scheduler sizes speed = set_chunk_sizes sizes (init_scheduler (length sizes) speed new_scheduler)"

lemma fresh_inv: "sched_inv (fresh_scheduler sizes speed)"
proof -
  have m: "marked (replicate n False) = 0" for n by (rule marked_replicate_False)
  have "fresh_scheduler sizes speed = (init_scheduler (length sizes) speed new_scheduler)\<lparr>
     chunk_sub_blocks := map sub_block_count sizes,
     chunk_sub_done := map (\<lambda>z. replicate (unat (sub_block_count z)) False) sizes,
     chunk_sub_req := map (\<lambda>z. replicate (unat (sub_block_count z)) False) sizes,
     chunk_sub_req_time := map (\<lambda>z. replicate (unat (sub_block_count z)) 0) sizes\<rparr>"
    unfolding fresh_scheduler_def set_chunk_sizes_def Let_def
    by (subst assign_sizes_result) (simp_all add: init_scheduler_def new_scheduler_def)
  then show ?thesis
    using sub_block_count_le
    by (auto simp: inv_parts Let_def init_scheduler_def new_scheduler_def m)
qed

end
