(* ===== verification/Scheduler_Runs.thy ===== *)
theory Scheduler_Runs
  imports Scheduler_Inv "HOL-Library.Code_Target_Nat"
begin

text \<open>
  Runs of the scheduler: the calls the daemon makes, one constructor each, and the states they
  reach. In every reachable state the invariants of \<open>Scheduler_Inv\<close> hold; under the daemon's
  calling discipline (a chunk completes once, a digest fails only for an incomplete chunk, the
  start-up bitfield is given before downloading starts) the missing count and the phase are exact,
  and if a peer sends its bitfield once the availability table is exact.
\<close>

datatype sched_op =
    Add_peer nat u32 | Peer_speed nat u32 | Remove_peer nat | Choke_change nat bool
  | Sync_slot nat u32 u32 u32
  | Bitfield_from nat "bool list" u64 | Have_from nat nat u64 | Piece_from nat nat nat u64
  | Tick_at u64 | Completions "ChunkCompleteMsg list" | Verify_failed nat | Sub_timeout nat nat
  | Mark_complete "bool list"

fun exec_op :: "sorter \<Rightarrow> sched_op \<Rightarrow> Scheduler \<Rightarrow> Scheduler" where
  "exec_op srt (Add_peer sid v) s = on_peer_added sid v s"
| "exec_op srt (Peer_speed sid v) s = on_peer_speed sid v s"
| "exec_op srt (Remove_peer sid) s = on_peer_removed sid s"
| "exec_op srt (Choke_change sid ch) s = on_choke_change sid ch s"
| "exec_op srt (Sync_slot sid cap tmo rtt) s = sync_slot sid cap tmo rtt s"
| "exec_op srt (Bitfield_from sid bf now) s = on_bitfield sid bf now s"
| "exec_op srt (Have_from sid c now) s = on_have sid c now s"
| "exec_op srt (Piece_from sid c b now) s = dec_peer_pending sid c b now s"
| "exec_op srt (Tick_at now) s = tick srt now s"
| "exec_op srt (Completions msgs) s = process_completions msgs s"
| "exec_op srt (Verify_failed c) s = on_verify_failed c s"
| "exec_op srt (Sub_timeout c b) s = on_subblock_timeout c b s"
| "exec_op srt (Mark_complete bf) s = mark_all_complete bf s"

definition is_incomplete :: "Scheduler \<Rightarrow> nat \<Rightarrow> bool" where
  "is_incomplete s c \<longleftrightarrow> c < length (chunk_states s) \<and> chunk_states s ! c \<noteq> COMPLETE"

lemma is_incomplete_iff [simp]: "is_incomplete s c \<longleftrightarrow> c \<in> incomplete s"
  by (simp add: is_incomplete_def incomplete_def)

text \<open>The discipline of the callers.\<close>

fun op_ok :: "Scheduler \<Rightarrow> sched_op \<Rightarrow> bool" where
  "op_ok s (Completions msgs) \<longleftrightarrow> distinct (map cc_chunk_idx msgs) \<and> (\<forall>m \<in> set msgs. is_incomplete s (cc_chunk_idx m))"
| "op_ok s (Verify_failed c) \<longleftrightarrow> is_incomplete s c"
| "op_ok s (Mark_complete bf) \<longleftrightarrow>
     (\<forall>i \<in> set [0..<min (length bf) (length (chunk_states s))]. bf ! i \<longrightarrow> chunk_states s ! i \<in> {MISSING, COMPLETE})"
| "op_ok s _ \<longleftrightarrow> True"

inductive sched_run :: "sorter \<Rightarrow> Scheduler \<Rightarrow> sched_op list \<Rightarrow> Scheduler \<Rightarrow> bool" for srt where
  run_nil: "sched_run srt s [] s"
| run_cons: "op_ok s op \<Longrightarrow> sched_run srt (exec_op srt op s) ops s' \<Longrightarrow> sched_run srt s (op # ops) s'"

inductive_cases sched_run_nilE: "sched_run srt s [] s'"
inductive_cases sched_run_consE: "sched_run srt s (op # ops) s'"

definition exact_inv :: "Scheduler \<Rightarrow> bool" where
  "exact_inv s \<longleftrightarrow> unat (missing_count s) = card (incomplete s)
     \<and> (chunk_states s \<noteq> [] \<longrightarrow> (phase s = DONE \<longleftrightarrow> incomplete s = {}))"

section \<open>The invariant in every reachable state\<close>

lemma sync_slot_inv: "sched_inv s \<Longrightarrow> sched_inv (sync_slot sid cap tmo rtt s)"
  by (simp add: sync_slot_def inv_upd_peer split: option.split)

lemma exec_op_inv:
  assumes "std_sort srt" "sched_inv s" "op_ok s op"
  shows "sched_inv (exec_op srt op s)"
  using assms
  by (cases op) (auto intro: on_peer_added_inv on_peer_speed_inv on_peer_removed_inv on_choke_change_inv
      sync_slot_inv on_bitfield_inv on_have_inv dec_peer_pending_inv tick_inv process_completions_inv
      on_verify_failed_inv on_subblock_timeout_inv mark_all_complete_inv simp: incomplete_def)

section \<open>Missing chunks and phase\<close>

lemma finite_incomplete [simp]: "finite (incomplete s)"
  by (simp add: incomplete_def)

text \<open>Operations that leave completion, count and phase alone.\<close>

definition quiet :: "Scheduler \<Rightarrow> Scheduler \<Rightarrow> bool" where
  "quiet s s' \<longleftrightarrow> incomplete s' = incomplete s \<and> missing_count s' = missing_count s \<and> phase s' = phase s
     \<and> length (chunk_states s') = length (chunk_states s)"

lemma quiet_refl [simp]: "quiet s s"
  by (simp add: quiet_def)

lemma quiet_trans: "quiet s t \<Longrightarrow> quiet t u \<Longrightarrow> quiet s u"
  by (simp add: quiet_def)

lemma quiet_exact: "quiet s s' \<Longrightarrow> exact_inv s \<Longrightarrow> exact_inv s'"
  by (auto simp: quiet_def exact_inv_def)

lemma acts_quiet: "sched_acts s s' \<Longrightarrow> quiet s s'"
  using acts_completion[of s s'] acts_frame[of s s']
  by (auto simp: quiet_def sched_frame_def same_completion_def incomplete_cong)

lemma quiet_fields:
  "chunk_states s' = chunk_states s \<Longrightarrow> missing_count s' = missing_count s \<Longrightarrow> phase s' = phase s \<Longrightarrow> quiet s s'"
  by (simp add: quiet_def incomplete_def)

lemma quiet_to_missing:
  "chunk_states s ! c \<noteq> COMPLETE \<Longrightarrow> quiet s (s\<lparr>chunk_states := (chunk_states s)[c := MISSING]\<rparr>)"
  by (cases "c < length (chunk_states s)") (auto simp: quiet_def incomplete_def nth_list_update list_update_beyond)

lemma release_chunk_quiet: "quiet s (release_chunk e s)"
proof (cases e)
  case (Pair c bs)
  let ?t = "fold (release_request c) bs s"
  have "quiet s ?t" by (rule quiet_fields) simp_all
  moreover have "chunk_states ?t ! c \<noteq> COMPLETE \<Longrightarrow> quiet ?t (?t\<lparr>chunk_states := (chunk_states ?t)[c := MISSING]\<rparr>)"
    by (rule quiet_to_missing)
  ultimately show ?thesis
    unfolding Pair release_chunk_def Let_def prod.case by (auto intro: quiet_trans)
qed

lemma release_chunks_quiet: "quiet s (fold release_chunk es s)"
  by (induction es arbitrary: s) (auto intro: quiet_trans release_chunk_quiet)

lemma removed_quiet: "quiet s (on_peer_removed sid s)"
proof -
  have drop: "quiet t (t\<lparr>peer_slots := x\<rparr>)" for t x by (rule quiet_fields) simp_all
  have avail: "quiet s (fold release_chunk es (s\<lparr>availability := a\<rparr>))" for a es
    by (rule quiet_trans[OF quiet_fields release_chunks_quiet]) simp_all
  show ?thesis
    unfolding on_peer_removed_def Let_def
    by (rule quiet_trans[OF _ drop]) (simp add: avail split: option.split)
qed

lemma timeout_quiet: "quiet s (on_subblock_timeout c b s)"
  by (rule quiet_fields) (simp_all add: on_subblock_timeout_def Let_def)

lemma interest_quiet: "quiet s (check_peer_interest sid s)"
  by (rule quiet_fields) (simp_all add: check_peer_interest_def)

lemma upd_peer_quiet: "quiet s (upd_peer p f s)"
  by (rule quiet_fields) simp_all

lemma bitfield_quiet: "quiet s (on_bitfield sid bf now s)"
proof (cases "peer_slot s sid")
  case (Some p)
  then have "p < length (peer_slots s)" using find_slot_Some by (simp add: peer_slot_def)
  define s2 where "s2 = (upd_peer p (\<lambda>q. q\<lparr>remote_bitfield := bf\<rparr>) s)\<lparr>availability := add_availability bf (availability s)\<rparr>"
  have "quiet s s2" by (rule quiet_fields) (simp_all add: s2_def)
  moreover have "quiet s2 (check_peer_interest sid s2)" by (rule interest_quiet)
  moreover have "quiet (check_peer_interest sid s2) (rebalance_seed_requests_for_peer p now 16 (check_peer_interest sid s2))"
    using \<open>p < _\<close> by (intro acts_quiet rebalance_acts) (simp add: s2_def)
  ultimately show ?thesis using Some by (auto simp: on_bitfield_def Let_def s2_def intro: quiet_trans)
qed (simp add: on_bitfield_def)

lemma have_quiet: "quiet s (on_have sid c now s)"
proof (cases "peer_slot s sid")
  case (Some p)
  then have p: "p < length (peer_slots s)" using find_slot_Some by (simp add: peer_slot_def)
  have step: "quiet s t \<Longrightarrow> length (peer_slots t) = length (peer_slots s) \<Longrightarrow>
      quiet s (rebalance_seed_requests_for_peer p now 8 (check_peer_interest sid t))" for t
    by (rule quiet_trans[OF _ quiet_trans[OF interest_quiet acts_quiet[OF rebalance_acts]]]) (simp_all add: p)
  show ?thesis
    using Some by (auto simp: on_have_def Let_def intro!: step quiet_fields)
qed (simp add: on_have_def)

lemma dec_pending_quiet: "quiet s (dec_peer_pending sid c b now s)"
proof (cases "peer_slot s sid")
  case (Some p)
  then have p: "p < length (peer_slots s)" using find_slot_Some by (simp add: peer_slot_def)
  have 1: "quiet s (note_piece p c b s)" by (rule quiet_fields) simp_all
  have "quiet (note_piece p c b s) (snd (try_schedule_for_peer p now (note_piece p c b s)))"
    using p by (intro acts_quiet try_schedule_acts) simp
  then have "quiet s (snd (try_schedule_for_peer p now (note_piece p c b s)))" by (rule quiet_trans[OF 1])
  then show ?thesis using Some 1 by (simp add: dec_peer_pending_def Let_def)
qed (simp add: dec_peer_pending_def)

lemma quiet_op:
  assumes "std_sort srt" "\<And>msgs. op \<noteq> Completions msgs" "\<And>c. op \<noteq> Verify_failed c" "\<And>bf. op \<noteq> Mark_complete bf"
  shows "quiet s (exec_op srt op s)"
proof (cases op)
  case (Add_peer sid v)
  then show ?thesis by (auto intro!: quiet_fields simp: on_peer_added_def)
next
  case (Peer_speed sid v)
  then show ?thesis by (simp add: on_peer_speed_def upd_peer_quiet split: option.split)
next
  case (Choke_change sid ch)
  then show ?thesis by (simp add: on_choke_change_def upd_peer_quiet split: option.split)
next
  case (Sync_slot sid cap tmo rtt)
  then show ?thesis by (simp add: sync_slot_def upd_peer_quiet split: option.split)
qed (use assms in \<open>simp_all add: removed_quiet bitfield_quiet have_quiet dec_pending_quiet timeout_quiet
    acts_quiet tick_acts\<close>)

text \<open>Completing an incomplete chunk takes it out and decrements the count.\<close>

lemma complete_one_exact:
  assumes "cc_chunk_idx msg \<in> incomplete s" "unat (missing_count s) = card (incomplete s)"
  shows "incomplete (complete_one msg s) = incomplete s - {cc_chunk_idx msg}"
    "unat (missing_count (complete_one msg s)) = card (incomplete s) - 1"
    "length (chunk_states (complete_one msg s)) = length (chunk_states s)"
    "not_interested_broadcaster_set (complete_one msg s) = not_interested_broadcaster_set s"
proof -
  have "card (incomplete s) \<noteq> 0" using assms(1) by auto
  then have "missing_count s \<noteq> 0" using assms(2) by auto
  then show "unat (missing_count (complete_one msg s)) = card (incomplete s) - 1"
    using assms(2) by (simp add: complete_one_def Let_def unat_dec)
  show "incomplete (complete_one msg s) = incomplete s - {cc_chunk_idx msg}"
    using assms(1) by (auto simp: complete_one_def Let_def incomplete_def nth_list_update)
qed (simp_all add: complete_one_def Let_def)

lemma complete_fold_exact:
  assumes "distinct (map cc_chunk_idx msgs)" "cc_chunk_idx ` set msgs \<subseteq> incomplete s"
    "unat (missing_count s) = card (incomplete s)"
  shows "incomplete (fold complete_one msgs s) = incomplete s - cc_chunk_idx ` set msgs
     \<and> unat (missing_count (fold complete_one msgs s)) = card (incomplete (fold complete_one msgs s))
     \<and> length (chunk_states (fold complete_one msgs s)) = length (chunk_states s)"
  using assms
proof (induction msgs arbitrary: s)
  case (Cons m msgs)
  have m: "cc_chunk_idx m \<in> incomplete s" using Cons.prems(2) by simp
  note e = complete_one_exact[OF m Cons.prems(3)]
  have c: "unat (missing_count (complete_one m s)) = card (incomplete (complete_one m s))"
    using e(1,2) m by simp
  have "cc_chunk_idx ` set msgs \<subseteq> incomplete (complete_one m s)" using Cons.prems(1,2) e(1) by (force simp: image_iff)
  then show ?case using Cons.IH[OF _ _ c] Cons.prems(1) e by auto
qed simp

lemma completions_exact:
  assumes "exact_inv s" "op_ok s (Completions msgs)" "chunk_states s \<noteq> []"
  shows "incomplete (process_completions msgs s) = incomplete s - cc_chunk_idx ` set msgs"
    "exact_inv (process_completions msgs s)"
proof -
  define t where "t = fold complete_one msgs s"
  have t: "incomplete t = incomplete s - cc_chunk_idx ` set msgs" "unat (missing_count t) = card (incomplete t)"
      "length (chunk_states t) = length (chunk_states s)"
    using complete_fold_exact[of msgs s] assms(1,2) by (simp_all add: exact_inv_def t_def image_subset_iff)
  show "incomplete (process_completions msgs s) = incomplete s - cc_chunk_idx ` set msgs"
    using t(1) by (simp add: process_completions_def Let_def incomplete_def flip: t_def)
  have z: "missing_count t = 0 \<longleftrightarrow> incomplete t = {}"
    using t(2) by (metis card_0_eq finite_incomplete unat_eq_zero)
  have "phase t = phase s"
  proof -
    have "phase (fold complete_one ms u) = phase u" for ms u
      by (induction ms arbitrary: u) (simp_all add: complete_one_def Let_def)
    then show ?thesis by (simp add: t_def)
  qed
  then show "exact_inv (process_completions msgs s)"
    using t z assms(1,3)
    by (auto simp: process_completions_def Let_def exact_inv_def incomplete_def simp flip: t_def)
qed

lemma mark_one_exact:
  assumes "i < length (chunk_states s)" "bf ! i \<longrightarrow> chunk_states s ! i \<in> {MISSING, COMPLETE}"
    "unat (missing_count s) = card (incomplete s)"
  shows "incomplete (mark_one bf i s) = incomplete s - (if bf ! i then {i} else {})"
    "unat (missing_count (mark_one bf i s)) = card (incomplete (mark_one bf i s))"
    "phase (mark_one bf i s) = phase s"
    "chunk_states (mark_one bf i s) = (if bf ! i then (chunk_states s)[i := COMPLETE] else chunk_states s)"
proof -
  show 1: "chunk_states (mark_one bf i s) = (if bf ! i then (chunk_states s)[i := COMPLETE] else chunk_states s)"
    using list_update_id[of "chunk_states s" i] by (cases "chunk_states s ! i = COMPLETE") (simp_all add: mark_one_def Let_def)
  show 2: "incomplete (mark_one bf i s) = incomplete s - (if bf ! i then {i} else {})"
    using assms(1) by (auto simp: incomplete_def 1 nth_list_update)
  show "phase (mark_one bf i s) = phase s" by (simp add: mark_one_def Let_def)
  show "unat (missing_count (mark_one bf i s)) = card (incomplete (mark_one bf i s))"
  proof (cases "bf ! i \<and> i \<in> incomplete s")
    case True
    then have "card (incomplete s) \<noteq> 0" "chunk_states s ! i = MISSING"
      using assms(2) by (auto simp: incomplete_def)
    moreover have "missing_count s \<noteq> 0" using calculation(1) assms(3) by auto
    moreover have "missing_count (mark_one bf i s) = missing_count s - 1"
      using True calculation by (simp add: mark_one_def Let_def)
    ultimately show ?thesis using True assms(3) by (simp add: 2 unat_dec)
  next
    case False
    then have "incomplete (mark_one bf i s) = incomplete s" using 2 by auto
    moreover have "missing_count (mark_one bf i s) = missing_count s"
      using False assms(1) by (auto simp: mark_one_def Let_def incomplete_def)
    ultimately show ?thesis using assms(3) by simp
  qed
qed

lemma mark_fold_exact:
  assumes "\<forall>i \<in> set is. i < length (chunk_states s) \<and> (bf ! i \<longrightarrow> chunk_states s ! i \<in> {MISSING, COMPLETE})"
    "unat (missing_count s) = card (incomplete s)"
  shows "incomplete (fold (mark_one bf) is s) = incomplete s - {i \<in> set is. bf ! i}
     \<and> unat (missing_count (fold (mark_one bf) is s)) = card (incomplete (fold (mark_one bf) is s))
     \<and> phase (fold (mark_one bf) is s) = phase s
     \<and> length (chunk_states (fold (mark_one bf) is s)) = length (chunk_states s)"
  using assms
proof (induction "is" arbitrary: s)
  case (Cons i "is")
  let ?t = "mark_one bf i s"
  note e = mark_one_exact[of i s bf] and pr = Cons.prems
  have "\<forall>j \<in> set is. j < length (chunk_states ?t) \<and> (bf ! j \<longrightarrow> chunk_states ?t ! j \<in> {MISSING, COMPLETE})"
    using pr e(4) by (auto simp: nth_list_update)
  then have "incomplete (fold (mark_one bf) is ?t) = incomplete ?t - {i \<in> set is. bf ! i}
     \<and> unat (missing_count (fold (mark_one bf) is ?t)) = card (incomplete (fold (mark_one bf) is ?t))
     \<and> phase (fold (mark_one bf) is ?t) = phase ?t
     \<and> length (chunk_states (fold (mark_one bf) is ?t)) = length (chunk_states ?t)"
    using pr e(2) by (intro Cons.IH) auto
  moreover have "incomplete ?t = incomplete s - (if bf ! i then {i} else {})" "phase ?t = phase s"
      "length (chunk_states ?t) = length (chunk_states s)"
    using pr e by auto
  ultimately show ?case by auto
qed simp

lemma mark_all_exact:
  assumes "exact_inv s" "op_ok s (Mark_complete bf)" "chunk_states s \<noteq> []"
  shows "exact_inv (mark_all_complete bf s)"
    "incomplete (mark_all_complete bf s) = incomplete s - {i. i < length bf \<and> bf ! i}"
    "length (chunk_states (mark_all_complete bf s)) = length (chunk_states s)"
proof -
  define t where "t = fold (mark_one bf) [0..<min (length bf) (length (chunk_states s))] s"
  have t: "incomplete t = incomplete s - {i \<in> set [0..<min (length bf) (length (chunk_states s))]. bf ! i}"
      "unat (missing_count t) = card (incomplete t)" "phase t = phase s"
      "length (chunk_states t) = length (chunk_states s)"
    using mark_fold_exact[of "[0..<min (length bf) (length (chunk_states s))]" s bf] assms(1,2)
    by (simp_all add: exact_inv_def t_def)
  have m: "mark_all_complete bf s = (if missing_count t = 0 then t\<lparr>phase := DONE\<rparr>
      else if missing_count t < ENDGAME_THRESHOLD then t\<lparr>phase := ENDGAME\<rparr> else t)"
    by (simp add: mark_all_complete_def Let_def t_def)
  then have inc: "incomplete (mark_all_complete bf s) = incomplete t" by (simp add: incomplete_def)
  show "incomplete (mark_all_complete bf s) = incomplete s - {i. i < length bf \<and> bf ! i}"
    unfolding inc t(1) by (auto simp: incomplete_def)
  show "length (chunk_states (mark_all_complete bf s)) = length (chunk_states s)" using t(4) by (simp add: m)
  have z: "missing_count t = 0 \<longleftrightarrow> incomplete t = {}"
    using t(2) by (metis card_0_eq finite_incomplete unat_eq_zero)
  have sub: "incomplete t \<noteq> {} \<Longrightarrow> incomplete s \<noteq> {}" using t(1) by auto
  show "exact_inv (mark_all_complete bf s)"
    using t z sub assms(1,3) inc unfolding exact_inv_def by (auto simp: m)
qed

lemma verify_failed_quiet: "c \<in> incomplete s \<Longrightarrow> quiet s (on_verify_failed c s)"
  by (auto simp: quiet_def incomplete_def on_verify_failed_def nth_list_update)

lemma exec_op_exact:
  assumes "std_sort srt" "exact_inv s" "op_ok s op" "chunk_states s \<noteq> []"
  shows "exact_inv (exec_op srt op s) \<and> chunk_states (exec_op srt op s) \<noteq> []"
proof -
  have q: "exact_inv t \<and> chunk_states t \<noteq> []" if "quiet s t" for t
    using that quiet_exact[OF that assms(2)] assms(4) by (auto simp: quiet_def)
  show ?thesis
  proof (cases op)
    case (Completions msgs)
    have "length (chunk_states (process_completions msgs s)) = length (chunk_states s)"
      using complete_fold_exact[of msgs s] assms(2,3) Completions
      by (simp add: process_completions_def Let_def exact_inv_def image_subset_iff)
    then show ?thesis using completions_exact(2)[of s msgs] assms Completions by auto
  next
    case (Verify_failed c)
    then show ?thesis using q verify_failed_quiet assms(3) by simp
  next
    case (Mark_complete bf)
    then show ?thesis using mark_all_exact[of s bf] assms by auto
  qed (use q quiet_op[OF assms(1), of op s] in auto)
qed

lemma run_invariant:
  assumes "sched_run srt s ops s'" "std_sort srt" "sched_inv s" "exact_inv s" "chunk_states s \<noteq> []"
  shows "sched_inv s' \<and> exact_inv s' \<and> chunk_states s' \<noteq> []"
  using assms
proof (induction rule: sched_run.induct)
  case (run_cons s op ops s')
  then show ?case using exec_op_inv[of srt s op] exec_op_exact[of srt s op] by blast
qed simp

lemma fresh_exact:
  assumes "length sizes < 2 ^ 32" "sizes \<noteq> []"
  shows "exact_inv (fresh_scheduler sizes speed) \<and> chunk_states (fresh_scheduler sizes speed) \<noteq> []"
proof -
  have keep: "chunk_states (assign_sizes zs i s) = chunk_states s \<and> missing_count (assign_sizes zs i s) = missing_count s
      \<and> phase (assign_sizes zs i s) = phase s" for zs i s
    by (induction zs arbitrary: i s) (simp_all add: Let_def)
  have s: "chunk_states (fresh_scheduler sizes speed) = replicate (length sizes) MISSING"
    "missing_count (fresh_scheduler sizes speed) = of_nat (length sizes)" "phase (fresh_scheduler sizes speed) = NORMAL"
    by (simp_all add: fresh_scheduler_def set_chunk_sizes_def Let_def keep init_scheduler_def)
  have "incomplete (fresh_scheduler sizes speed) = {..<length sizes}"
    by (auto simp: incomplete_def s(1))
  then show ?thesis using assms by (simp add: exact_inv_def s unat_of_nat_u32 lessThan_empty_iff)
qed

fun check_run :: "sorter \<Rightarrow> Scheduler \<Rightarrow> sched_op list \<Rightarrow> bool" where
  "check_run srt s [] \<longleftrightarrow> True"
| "check_run srt s (op # ops) \<longleftrightarrow> op_ok s op \<and> check_run srt (exec_op srt op s) ops"

lemma check_run_run: "check_run srt s ops \<Longrightarrow> sched_run srt s ops (fold (exec_op srt) ops s)"
  by (induction srt s ops rule: check_run.induct) (auto intro: sched_run.intros)

lemma std_sort_sort_key: "std_sort (\<lambda>key. sort_key key)"
  by (simp add: std_sort_def)

definition example_sizes :: "u32 list" where
  "example_sizes = [40000, 16384, 20000]"

definition example_ops :: "sched_op list" where
  "example_ops = [Add_peer 1 1000, Bitfield_from 1 [True, True, True] 10, Choke_change 1 False,
     Add_peer 2 1000, Bitfield_from 2 [True, False, True] 20, Tick_at 30,
     Piece_from 1 1 0 40, Completions [\<lparr>cc_chunk_idx = 1, cc_winning_peer_slot = 1\<rparr>],
     Verify_failed 0, Sub_timeout 2 0, Remove_peer 1]"

lemma example_run:
  "sched_run (\<lambda>key. sort_key key) (fresh_scheduler example_sizes 1000) example_ops
     (fold (exec_op (\<lambda>key. sort_key key)) example_ops (fresh_scheduler example_sizes 1000))"
  by (rule check_run_run) code_simp



end
