(* ===== verification/Scheduler_Requests.thy ===== *)
theory Scheduler_Requests
  imports Scheduler_Runs
begin

text \<open>
  What the scheduler asks of its peers. The availability table counts the peers that hold a chunk;
  \<open>select_best_peer\<close> returns an eligible peer of greatest score; every request names a sub-block of
  an incomplete chunk that the peer holds; the pipeline of a peer is never filled beyond its cap;
  a peer that is best for an open sub-block gets a request; and a completed chunk is cancelled at
  every other peer.
\<close>

section \<open>Availability\<close>

definition holds_chunk :: "nat \<Rightarrow> PeerSlot \<Rightarrow> bool" where
  "holds_chunk c p \<longleftrightarrow> c < length (remote_bitfield p) \<and> remote_bitfield p ! c"

definition holders :: "PeerSlot list \<Rightarrow> nat \<Rightarrow> nat" where
  "holders ps c = length (filter (holds_chunk c) ps)"

definition avail_inv :: "Scheduler \<Rightarrow> bool" where
  "avail_inv s \<longleftrightarrow> distinct (map slot_id (peer_slots s))
     \<and> (\<forall>c < length (availability s). availability s ! c = of_nat (holders (peer_slots s) c))"

lemma holders_static: "map peer_static ps' = map peer_static ps \<Longrightarrow> holders ps' c = holders ps c"
proof (induction ps arbitrary: ps')
  case (Cons p ps)
  then obtain q qs where "ps' = q # qs" "peer_static q = peer_static p" "map peer_static qs = map peer_static ps"
    by (cases ps') auto
  then show ?case using Cons.IH[of qs] peer_static_cong(3)[of q p] by (simp add: holders_def holds_chunk_def)
qed simp

lemma ids_static: "map peer_static ps' = map peer_static ps \<Longrightarrow> map slot_id ps' = map slot_id ps"
proof (induction ps arbitrary: ps')
  case (Cons p ps)
  then obtain q qs where "ps' = q # qs" "peer_static q = peer_static p" "map peer_static qs = map peer_static ps"
    by (cases ps') auto
  then show ?case using Cons.IH[of qs] peer_static_cong(1)[of q p] by simp
qed simp

lemma avail_static:
  "map peer_static (peer_slots s') = map peer_static (peer_slots s) \<Longrightarrow> availability s' = availability s
     \<Longrightarrow> avail_inv s \<Longrightarrow> avail_inv s'"
  using holders_static ids_static unfolding avail_inv_def by metis

lemma acts_avail: "sched_acts s s' \<Longrightarrow> avail_inv s \<Longrightarrow> avail_inv s'"
  using acts_frame[of s s'] by (intro avail_static[of s' s]) (simp_all add: sched_frame_def)

lemma holders_update:
  "p < length ps \<Longrightarrow> holders (ps[p := q]) c + (if holds_chunk c (ps ! p) then 1 else 0)
     = holders ps c + (if holds_chunk c q then 1 else 0)"
  by (simp add: holders_def filter_update_count)

lemma avail_upd_peer:
  assumes "avail_inv s" "\<And>q. slot_id (f q) = slot_id q" "\<And>q c. holds_chunk c (f q) = holds_chunk c q"
  shows "avail_inv (upd_peer p f s)"
proof (cases "p < length (peer_slots s)")
  case True
  have "holders ((peer_slots s)[p := f (peer_slots s ! p)]) c = holders (peer_slots s) c" for c
    using holders_update[OF True, of "f (peer_slots s ! p)" c] assms(3) by simp
  then show ?thesis
    using assms(1,2) list_update_id[of "map slot_id (peer_slots s)" p] True
    by (simp add: avail_inv_def map_update)
next
  case False
  then show ?thesis using assms(1) by (simp add: avail_inv_def list_update_beyond)
qed

lemma avail_added:
  assumes "avail_inv s" "peer_slot s sid = None"
  shows "avail_inv (on_peer_added sid v s)"
  using assms find_slot_None[of sid "peer_slots s"]
  by (auto simp: avail_inv_def on_peer_added_def holders_def holds_chunk_def peer_slot_def)

text \<open>The first slot with an id is the only one when ids are distinct.\<close>

lemma filter_ids:
  assumes "distinct (map slot_id ps)" "find_slot sid ps = Some p"
  shows "holders (filter (\<lambda>q. slot_id q \<noteq> sid) ps) c + (if holds_chunk c (ps ! p) then 1 else 0) = holders ps c"
  using assms
proof (induction ps arbitrary: p)
  case (Cons q qs)
  show ?case
  proof (cases "slot_id q = sid")
    case True
    then have "filter (\<lambda>q. slot_id q \<noteq> sid) qs = qs" using Cons.prems(1) by (force simp: filter_id_conv image_iff)
    then show ?thesis using True Cons.prems(2) by (simp add: holders_def)
  next
    case False
    then obtain p' where p': "find_slot sid qs = Some p'" "p = Suc p'" using Cons.prems(2) by auto
    then have "holders (filter (\<lambda>q. slot_id q \<noteq> sid) qs) c + (if holds_chunk c (qs ! p') then 1 else 0) = holders qs c"
      using Cons by simp
    then show ?thesis using False p'(2) by (auto simp: holders_def split: if_splits)
  qed
qed simp

lemma avail_removed:
  assumes "avail_inv s"
  shows "avail_inv (on_peer_removed sid s)"
proof (cases "peer_slot s sid")
  case None
  then have "filter (\<lambda>q. slot_id q \<noteq> sid) (peer_slots s) = peer_slots s"
    using find_slot_None[of sid "peer_slots s"] by (auto simp: peer_slot_def filter_id_conv)
  then show ?thesis using assms None by (simp add: on_peer_removed_def avail_inv_def)
next
  case (Some p)
  let ?q = "peer_slots s ! p"
  let ?ps = "filter (\<lambda>q. slot_id q \<noteq> sid) (peer_slots s)"
  have ids: "distinct (map slot_id (peer_slots s))" using assms by (simp add: avail_inv_def)
  have "drop_availability (remote_bitfield ?q) (availability s) ! c = of_nat (holders ?ps c)"
    if c: "c < length (availability s)" for c
  proof -
    have h: "holders ?ps c + (if holds_chunk c ?q then 1 else 0) = holders (peer_slots s) c"
      using filter_ids[OF ids] Some by (simp add: peer_slot_def)
    have "drop_availability (remote_bitfield ?q) (availability s) ! c
        = availability s ! c - (if holds_chunk c ?q then 1 else 0)"
      using c by (simp add: drop_availability_def holds_chunk_def)
    also have "\<dots> = of_nat (holders (peer_slots s) c) - (if holds_chunk c ?q then 1 else 0)"
      using assms c by (simp add: avail_inv_def)
    also have "\<dots> = of_nat (holders ?ps c)" unfolding h[symmetric] by simp
    finally show ?thesis .
  qed
  then show ?thesis
    using Some ids
    by (simp add: on_peer_removed_def Let_def avail_inv_def distinct_map_filter)
qed

lemma interest_avail: "avail_inv s \<Longrightarrow> avail_inv (check_peer_interest sid s)"
  by (simp add: check_peer_interest_def avail_inv_def)

lemma length_upd_ids: "map slot_id (peer_slots (upd_peer p (\<lambda>q. q\<lparr>remote_bitfield := g q\<rparr>) s)) = map slot_id (peer_slots s)"
  by (cases "p < length (peer_slots s)")
    (simp_all add: map_update list_update_beyond, metis length_map list_update_id nth_map)

lemma avail_bitfield:
  assumes "avail_inv s" "\<And>p. peer_slot s sid = Some p \<Longrightarrow> True \<notin> set (remote_bitfield (peer_slots s ! p))"
  shows "avail_inv (on_bitfield sid bf now s)"
proof (cases "peer_slot s sid")
  case (Some p)
  then have p: "p < length (peer_slots s)" using find_slot_Some by (simp add: peer_slot_def)
  define s1 where "s1 = upd_peer p (\<lambda>q. q\<lparr>remote_bitfield := bf\<rparr>) s"
  define s2 where "s2 = s1\<lparr>availability := add_availability bf (availability s1)\<rparr>"
  have none: "\<not> holds_chunk c (peer_slots s ! p)" for c
    using assms(2)[OF Some] by (metis holds_chunk_def nth_mem)
  have "add_availability bf (availability s) ! c = of_nat (holders (peer_slots s1) c)"
    if c: "c < length (availability s)" for c
  proof -
    have "holders (peer_slots s1) c = holders (peer_slots s) c + (if c < length bf \<and> bf ! c then 1 else 0)"
      using holders_update[OF p, of "(peer_slots s ! p)\<lparr>remote_bitfield := bf\<rparr>" c] none
      by (simp add: s1_def) (simp add: holds_chunk_def)
    then show ?thesis using assms(1) c by (simp add: add_availability_def avail_inv_def)
  qed
  then have "avail_inv s2"
    using assms(1) length_upd_ids[of p "\<lambda>_. bf" s] by (simp add: avail_inv_def s2_def) (simp add: s1_def)
  then have "avail_inv (rebalance_seed_requests_for_peer p now 16 (check_peer_interest sid s2))"
    using p by (intro acts_avail[OF rebalance_acts] interest_avail) (simp_all add: s2_def s1_def)
  then show ?thesis using Some by (simp add: on_bitfield_def Let_def s2_def s1_def)
qed (use assms in \<open>simp add: on_bitfield_def\<close>)

lemma avail_have:
  assumes "avail_inv s"
  shows "avail_inv (on_have sid c now s)"
proof (cases "peer_slot s sid")
  case (Some p)
  then have p: "p < length (peer_slots s)" using find_slot_Some by (simp add: peer_slot_def)
  let ?bf = "remote_bitfield (peer_slots s ! p)"
  define s1 where "s1 = upd_peer p (\<lambda>q. q\<lparr>remote_bitfield := (remote_bitfield q)[c := True]\<rparr>) s"
  define s2 where "s2 = s1\<lparr>availability := (availability s1)[c := availability s1 ! c + 1]\<rparr>"
  have step: "avail_inv t \<Longrightarrow> length (peer_slots t) = length (peer_slots s) \<Longrightarrow>
      avail_inv (rebalance_seed_requests_for_peer p now 8 (check_peer_interest sid t))" for t
    using p by (intro acts_avail[OF rebalance_acts] interest_avail) simp_all
  show ?thesis
  proof (cases "c < length ?bf \<and> \<not> ?bf ! c")
    case True
    have h: "holders (peer_slots s1) d = holders (peer_slots s) d + (if d = c then 1 else 0)" for d
      using holders_update[OF p, of "(peer_slots s ! p)\<lparr>remote_bitfield := ?bf[c := True]\<rparr>" d] True
      by (auto simp: s1_def holds_chunk_def nth_list_update split: if_splits)
    have 2: "avail_inv (if c < length (availability s1) then s2 else s1)"
      using assms length_upd_ids[of p "\<lambda>q. (remote_bitfield q)[c := True]" s]
      by (auto simp: avail_inv_def h s2_def nth_list_update) (auto simp: s1_def)
    have "on_have sid c now s = rebalance_seed_requests_for_peer p now 8
        (check_peer_interest sid (if c < length (availability s1) then s2 else s1))"
      using Some True by (simp add: on_have_def Let_def s1_def s2_def)
    then show ?thesis using step[OF 2] by (simp add: s1_def s2_def)
  next
    case False
    then show ?thesis using Some assms step[OF assms] by (auto simp: on_have_def Let_def)
  qed
qed (use assms in \<open>simp add: on_have_def\<close>)

lemma avail_dec_pending:
  assumes "avail_inv s"
  shows "avail_inv (dec_peer_pending sid c b now s)"
proof (cases "peer_slot s sid")
  case (Some p)
  then have p: "p < length (peer_slots s)" using find_slot_Some by (simp add: peer_slot_def)
  have 1: "avail_inv (note_piece p c b s)" by (rule avail_static[OF _ _ assms]) simp_all
  then have "avail_inv (snd (try_schedule_for_peer p now (note_piece p c b s)))"
    using p by (intro acts_avail[OF try_schedule_acts]) simp_all
  then show ?thesis using Some assms 1 by (simp add: dec_peer_pending_def Let_def)
qed (use assms in \<open>simp add: dec_peer_pending_def\<close>)

lemma avail_complete_fold: "avail_inv s \<Longrightarrow> avail_inv (fold complete_one msgs s)"
proof (induction msgs arbitrary: s)
  case (Cons m msgs)
  have "avail_inv (complete_one m s)"
    using Cons.prems by (intro avail_static[of "complete_one m s" s]) (simp_all add: complete_one_def Let_def)
  then show ?case using Cons.IH by simp
qed simp

lemma avail_mark_fold: "avail_inv s \<Longrightarrow> avail_inv (fold (mark_one bf) is s)"
proof (induction "is" arbitrary: s)
  case (Cons i "is")
  have "avail_inv (mark_one bf i s)"
    using Cons.prems by (intro avail_static[of "mark_one bf i s" s]) (simp_all add: mark_one_def Let_def)
  then show ?case using Cons.IH by simp
qed simp

fun avail_ok :: "Scheduler \<Rightarrow> sched_op \<Rightarrow> bool" where
  "avail_ok s (Add_peer sid v) \<longleftrightarrow> peer_slot s sid = None"
| "avail_ok s (Bitfield_from sid bf now) \<longleftrightarrow>
     (case peer_slot s sid of None \<Rightarrow> True | Some p \<Rightarrow> True \<notin> set (remote_bitfield (peer_slots s ! p)))"
| "avail_ok s _ \<longleftrightarrow> True"

lemma exec_op_avail:
  assumes "std_sort srt" "avail_inv s" "avail_ok s op"
  shows "avail_inv (exec_op srt op s)"
proof (cases op)
  case (Add_peer sid v)
  then show ?thesis using assms by (simp add: avail_added)
next
  case (Bitfield_from sid bf now)
  then show ?thesis using assms(2,3) by (auto intro!: avail_bitfield)
next
  case (Peer_speed sid v)
  then show ?thesis using assms(2) by (auto simp: on_peer_speed_def holds_chunk_def intro!: avail_upd_peer split: option.split)
next
  case (Choke_change sid ch)
  then show ?thesis using assms(2) by (auto simp: on_choke_change_def holds_chunk_def intro!: avail_upd_peer split: option.split)
next
  case (Sync_slot sid cap tmo rtt)
  then show ?thesis using assms(2) by (auto simp: sync_slot_def holds_chunk_def intro!: avail_upd_peer split: option.split)
next
  case (Tick_at now)
  then show ?thesis using assms acts_avail[OF tick_acts] by simp
next
  case (Completions msgs)
  have "avail_inv (fold complete_one msgs s)" using assms(2) by (rule avail_complete_fold)
  then show ?thesis by (simp add: Completions process_completions_def Let_def avail_inv_def)
next
  case (Verify_failed c)
  then show ?thesis using assms(2) by (simp add: on_verify_failed_def avail_inv_def)
next
  case (Sub_timeout c b)
  then show ?thesis using assms(2) by (simp add: on_subblock_timeout_def Let_def avail_inv_def)
next
  case (Mark_complete bf)
  have "avail_inv (fold (mark_one bf) [0..<min (length bf) (length (chunk_states s))] s)"
    using assms(2) by (rule avail_mark_fold)
  then show ?thesis by (simp add: Mark_complete mark_all_complete_def Let_def avail_inv_def)
qed (use assms in \<open>simp_all add: avail_removed avail_have avail_dec_pending\<close>)

fun avail_disciplined :: "sorter \<Rightarrow> Scheduler \<Rightarrow> sched_op list \<Rightarrow> bool" where
  "avail_disciplined srt s [] \<longleftrightarrow> True"
| "avail_disciplined srt s (op # ops) \<longleftrightarrow> avail_ok s op \<and> avail_disciplined srt (exec_op srt op s) ops"

lemma avail_run:
  "std_sort srt \<Longrightarrow> avail_inv s \<Longrightarrow> avail_disciplined srt s ops \<Longrightarrow> avail_inv (fold (exec_op srt) ops s)"
  by (induction ops arbitrary: s) (simp_all add: exec_op_avail)

lemma fresh_avail: "avail_inv (fresh_scheduler sizes speed)"
proof -
  have keep: "availability (assign_sizes zs i s) = availability s \<and> peer_slots (assign_sizes zs i s) = peer_slots s" for zs i s
    by (induction zs arbitrary: i s) (simp_all add: Let_def)
  show ?thesis
    by (simp add: avail_inv_def fresh_scheduler_def set_chunk_sizes_def Let_def keep init_scheduler_def new_scheduler_def holders_def)
qed

section \<open>Which requests are issued\<close>

text \<open>A request the scheduler may issue in state \<open>s\<close>: its peer holds the chunk, the chunk is
  incomplete and the offset is that of a sub-block.\<close>

fun event_ok :: "Scheduler \<Rightarrow> sched_event \<Rightarrow> bool" where
  "event_ok s (Issue_request sid c b n) \<longleftrightarrow> n = sub_size \<and> c \<in> incomplete s \<and> sub_ok (chunk_sub_blocks s) c b
     \<and> (\<exists>q \<in> set (peer_slots s). slot_id q = sid \<and> holds_chunk c q)"
| "event_ok s (Cancel_request sid c b n) \<longleftrightarrow> n = sub_size \<and> (\<exists>q \<in> set (peer_slots s). slot_id q = sid)"
| "event_ok s _ \<longleftrightarrow> True"

lemma static_mem:
  assumes "map peer_static ps' = map peer_static ps" "q' \<in> set ps'"
  shows "\<exists>q \<in> set ps. peer_static q' = peer_static q"
  using assms by (metis (mono_tags, lifting) imageE image_eqI list.set_map)

lemma event_ok_acts:
  assumes "sched_acts s s'" "event_ok s' ev"
  shows "event_ok s ev"
proof -
  have f: "map peer_static (peer_slots s') = map peer_static (peer_slots s)" "chunk_sub_blocks s' = chunk_sub_blocks s"
    using acts_frame[OF assms(1)] by (simp_all add: sched_frame_def)
  have i: "incomplete s' = incomplete s" by (rule incomplete_cong[OF acts_completion[OF assms(1)]])
  have "\<exists>q \<in> set (peer_slots s). slot_id q = slot_id q' \<and> (\<forall>c. holds_chunk c q = holds_chunk c q')"
    if "q' \<in> set (peer_slots s')" for q'
    using static_mem[OF f(1) that] peer_static_cong(1,3) by (metis holds_chunk_def)
  then show ?thesis using assms(2) by (cases ev) (fastforce simp: f i)+
qed

lemma act_events:
  assumes "sched_act s s'" "sched_inv s"
  shows "\<exists>evs. out s' = out s @ evs \<and> (\<forall>ev \<in> set evs. event_ok s ev)"
  using assms(1)
proof cases
  case (act_issue p c i now)
  have sh: "shape_inv s" using assms(2) by (simp add: sched_inv_def)
  note d = shapeD[OF sh act_issue(3)]
  have "i < 2 ^ 18" using act_issue(5) d(3) by linarith
  then have "sub_ok (chunk_sub_blocks s) c (sub_begin i)" using act_issue(5) d(9) by (simp add: sub_begin_ok)
  moreover have "peer_slots s ! p \<in> set (peer_slots s)" using act_issue(2) by simp
  ultimately show ?thesis
    using act_issue by (auto simp: incomplete_def eligible_def holds_chunk_def)
next
  case (act_move p src c b now)
  have "valid_map (chunk_sub_blocks s) (active_sub_blocks (peer_slots s ! src))"
    using assms(2) act_move(3) by (simp add: sched_inv_def peers_inv_def)
  then have "sub_ok (chunk_sub_blocks s) c b" using act_move(10) valid_find by blast
  moreover have "peer_slots s ! p \<in> set (peer_slots s)" "peer_slots s ! src \<in> set (peer_slots s)" using act_move by simp_all
  moreover have "src \<noteq> p" using act_move by auto
  ultimately show ?thesis
    using act_move by (auto simp: move_request_def Let_def incomplete_def holds_chunk_def)
next
  case (act_redundant sid p c i now th q)
  have sh: "shape_inv s" using assms(2) by (simp add: sched_inv_def)
  note d = shapeD[OF sh act_redundant(3)]
  have "i < 2 ^ 18" using act_redundant(5) d(3) by linarith
  then have "sub_ok (chunk_sub_blocks s) c (sub_begin i)" using act_redundant(5) d(9) by (simp add: sub_begin_ok)
  moreover have "peer_slots s ! q \<in> set (peer_slots s)" using act_redundant by simp
  ultimately show ?thesis
    using act_redundant
    by (auto simp: request_redundant_def Let_def incomplete_def eligible_def holds_chunk_def)
qed auto

lemma acts_events:
  assumes "sched_acts s s'" "sched_inv s"
  shows "\<exists>evs. out s' = out s @ evs \<and> (\<forall>ev \<in> set evs. event_ok s ev)"
  using assms
proof (induction rule: rtranclp_induct)
  case (step t u)
  then obtain evs where e: "out t = out s @ evs" "\<forall>ev \<in> set evs. event_ok s ev" by auto
  obtain evs' where e': "out u = out t @ evs'" "\<forall>ev \<in> set evs'. event_ok t ev"
    using act_events[OF step(2)] acts_sched_inv[OF step(1)] step.prems by auto
  have "\<forall>ev \<in> set evs'. event_ok s ev" using e'(2) event_ok_acts[OF step(1)] by blast
  then show ?case using e e' by auto
qed simp

section \<open>The best peer\<close>

text \<open>Peer \<open>q\<close> does not beat score \<open>b\<close> held by a peer with \<open>h\<close> chunks (ties go to the rarer source).\<close>

definition no_better :: "u32 \<Rightarrow> int \<Rightarrow> nat \<Rightarrow> PeerSlot \<Rightarrow> bool" where
  "no_better ls b h q \<longleftrightarrow> peer_score ls q < b \<or> peer_score ls q = b \<and> h \<le> peer_have_count q"

definition beats :: "int \<Rightarrow> nat \<Rightarrow> int \<Rightarrow> nat \<Rightarrow> bool" where
  "beats b h b0 h0 \<longleftrightarrow> b0 < b \<or> b0 = b \<and> h < h0"

lemma beats_trans: "beats b h b1 h1 \<Longrightarrow> beats b1 h1 b0 h0 \<Longrightarrow> beats b h b0 h0"
  by (auto simp: beats_def)

lemma no_better_mono: "no_better ls b0 h0 q \<Longrightarrow> beats b h b0 h0 \<Longrightarrow> no_better ls b h q"
  by (auto simp: beats_def no_better_def)

lemma no_better_self: "no_better ls (peer_score ls p) (peer_have_count p) p"
  by (simp add: no_better_def)

lemma not_beats: "\<not> beats (peer_score ls p) (peer_have_count p) b0 h0 \<Longrightarrow> no_better ls b0 h0 p"
  by (auto simp: beats_def no_better_def)

definition chosen :: "u32 \<Rightarrow> nat \<Rightarrow> PeerSlot list \<Rightarrow> int \<Rightarrow> nat \<Rightarrow> nat \<Rightarrow> bool" where
  "chosen ls c ps b h i \<longleftrightarrow> (\<exists>p \<in> set ps. eligible c p \<and> b = peer_score ls p \<and> h = peer_have_count p \<and> i = slot_id p)
     \<and> (\<forall>q \<in> set ps. eligible c q \<longrightarrow> no_better ls b h q)"

lemma best_loop:
  assumes "best_peer_loop ls c ps (b0, h0, i0) = (b, h, i)"
  shows "(b, h, i) = (b0, h0, i0) \<and> (\<forall>q \<in> set ps. eligible c q \<longrightarrow> no_better ls b0 h0 q)
     \<or> beats b h b0 h0 \<and> chosen ls c ps b h i"
  using assms
proof (induction ps arbitrary: b0 h0 i0)
  case (Cons p ps)
  let ?s = "peer_score ls p" and ?h = "peer_have_count p"
  show ?case
  proof (cases "eligible c p \<and> beats ?s ?h b0 h0")
    case True
    then have "best_peer_loop ls c ps (?s, ?h, slot_id p) = (b, h, i)"
      using Cons.prems by (auto simp: beats_def)
    from Cons.IH[OF this] show ?thesis
    proof
      assume "(b, h, i) = (?s, ?h, slot_id p) \<and> (\<forall>q \<in> set ps. eligible c q \<longrightarrow> no_better ls ?s ?h q)"
      then show ?thesis using True no_better_self[of ls p] by (auto simp: chosen_def)
    next
      assume a: "beats b h ?s ?h \<and> chosen ls c ps b h i"
      then have "no_better ls b h p" using no_better_mono[OF no_better_self] by blast
      then have "chosen ls c (p # ps) b h i" using a by (auto simp: chosen_def)
      moreover have "beats b h b0 h0" using a True beats_trans by blast
      ultimately show ?thesis by blast
    qed
  next
    case False
    then have "best_peer_loop ls c ps (b0, h0, i0) = (b, h, i)" using Cons.prems by (auto simp: beats_def)
    from Cons.IH[OF this] show ?thesis
      using False not_beats[of ls p b0 h0] no_better_mono[of ls b0 h0 p b h] by (auto simp: chosen_def)
  qed
qed simp

lemma select_best_Some:
  assumes "select_best_peer s c = Some sid"
  shows "\<exists>p \<in> set (peer_slots s). slot_id p = sid \<and> eligible c p
     \<and> (\<forall>q \<in> set (peer_slots s). eligible c q \<longrightarrow>
          no_better (local_speed_mbps s) (peer_score (local_speed_mbps s) p) (peer_have_count p) q)"
proof -
  obtain b h i where e: "best_peer_loop (local_speed_mbps s) c (peer_slots s) (INT_MIN, SIZE_MAX, 0) = (b, h, i)"
    by (metis prod_cases3)
  then have "b \<noteq> INT_MIN" "i = sid" using assms by (auto simp: select_best_peer_def split: if_splits)
  then show ?thesis using best_loop[OF e] by (auto simp: chosen_def)
qed

lemma select_best_None:
  assumes "select_best_peer s c = None" "p \<in> set (peer_slots s)" "eligible c p"
  shows "peer_score (local_speed_mbps s) p \<le> INT_MIN"
proof -
  obtain b h i where e: "best_peer_loop (local_speed_mbps s) c (peer_slots s) (INT_MIN, SIZE_MAX, 0) = (b, h, i)"
    by (metis prod_cases3)
  then have "b = INT_MIN" using assms by (auto simp: select_best_peer_def split: if_splits)
  then show ?thesis using best_loop[OF e] assms(2,3) by (auto simp: chosen_def no_better_def)
qed

section \<open>Pipelines\<close>

definition pending_at :: "Scheduler \<Rightarrow> nat \<Rightarrow> u32" where
  "pending_at s p = pending_requests (peer_slots s ! p)"

lemma word_inc_le: "(x :: u32) < c \<Longrightarrow> x + 1 \<le> c"
  by (simp add: inc_le)

lemma issue_loop_cap:
  assumes "p < length (peer_slots s)" "pending_at s p \<le> cap"
  shows "pending_at (snd (issue_loop p c now cap subs r s)) p \<le> cap
     \<and> length (peer_slots (snd (issue_loop p c now cap subs r s))) = length (peer_slots s)
     \<and> (\<forall>q. q \<noteq> p \<longrightarrow> peer_slots (snd (issue_loop p c now cap subs r s)) ! q = peer_slots s ! q)"
  using assms
proof (induction subs arbitrary: s r)
  case (Cons i subs)
  let ?t = "issue_sub_block p c now i s"
  have "pending_at s p < cap \<Longrightarrow> pending_at ?t p \<le> cap"
    using Cons.prems by (simp add: pending_at_def word_inc_le)
  then show ?case using Cons.IH[of s r] Cons.IH[of ?t True] Cons.prems by (auto simp: pending_at_def not_le)
qed simp

lemma try_chunk_cap:
  assumes "p < length (peer_slots s)" "pending_at s p \<le> cap"
  shows "pending_at (snd (try_schedule_chunk_on_peer p c now cap s)) p \<le> cap
     \<and> length (peer_slots (snd (try_schedule_chunk_on_peer p c now cap s))) = length (peer_slots s)
     \<and> (\<forall>q. q \<noteq> p \<longrightarrow> peer_slots (snd (try_schedule_chunk_on_peer p c now cap s)) ! q = peer_slots s ! q)"
proof -
  let ?t = "s\<lparr>chunk_states := (chunk_states s)[c := DOWNLOADING]\<rparr>"
  show ?thesis
    using assms issue_loop_cap[of p ?t cap c now "[0..<unat (sub_total s c)]" False]
    by (auto simp: try_schedule_chunk_on_peer_def Let_def pending_at_def)
qed

lemma schedule_loop_cap:
  assumes "p < length (peer_slots s)" "pending_at s p \<le> cap"
  shows "pending_at (snd (schedule_loop p now cap cs r s)) p \<le> cap
     \<and> (\<forall>q. q \<noteq> p \<longrightarrow> peer_slots (snd (schedule_loop p now cap cs r s)) ! q = peer_slots s ! q)"
  using assms
proof (induction cs arbitrary: s r)
  case (Cons c cs)
  obtain r' s' where e: "try_schedule_chunk_on_peer p c now cap s = (r', s')" by fastforce
  show ?case
    using Cons.IH[of s' "r \<or> r'"] try_chunk_cap[OF Cons.prems, of c now] Cons.prems e by (auto simp: pending_at_def)
qed simp

section \<open>Progress\<close>

text \<open>A scheduling attempt that issues nothing leaves the peers and the request flags alone.\<close>

definition no_request :: "Scheduler \<Rightarrow> Scheduler \<Rightarrow> bool" where
  "no_request s s' \<longleftrightarrow> peer_slots s' = peer_slots s \<and> chunk_sub_req s' = chunk_sub_req s
     \<and> chunk_sub_blocks s' = chunk_sub_blocks s \<and> local_speed_mbps s' = local_speed_mbps s
     \<and> same_completion s s'"

lemma issue_loop_True: "fst (issue_loop p c now cap subs True s)"
  by (induction subs arbitrary: s) auto

lemma issue_loop_False:
  assumes "\<not> fst (issue_loop p c now cap subs r s)"
  shows "snd (issue_loop p c now cap subs r s) = s"
    and "pending_at s p < cap \<Longrightarrow> i \<in> set subs \<Longrightarrow> chunk_sub_req s ! c ! i"
  using assms issue_loop_True
  by (induction subs arbitrary: r) (auto simp: pending_at_def not_le split: if_splits)

lemma best_same: "no_request s s' \<Longrightarrow> select_best_peer s' c = select_best_peer s c"
  by (simp add: no_request_def select_best_peer_def)

lemma try_chunk_cases:
  obtains "try_schedule_chunk_on_peer p c now cap s = (False, s)"
  | "c < length (chunk_states s)" "chunk_states s ! c \<noteq> COMPLETE" "eligible c (peer_slots s ! p)"
    "try_schedule_chunk_on_peer p c now cap s = issue_loop p c now cap [0..<unat (sub_total s c)] False
       (s\<lparr>chunk_states := (chunk_states s)[c := DOWNLOADING]\<rparr>)"
proof (cases "c < length (chunk_states s) \<and> chunk_states s ! c \<noteq> COMPLETE \<and> eligible c (peer_slots s ! p)
    \<and> select_best_peer s c = Some (slot_id (peer_slots s ! p)) \<and> sub_total s c \<noteq> 0")
  case True
  then have "try_schedule_chunk_on_peer p c now cap s = issue_loop p c now cap [0..<unat (sub_total s c)] False
       (s\<lparr>chunk_states := (chunk_states s)[c := DOWNLOADING]\<rparr>)"
    by (auto simp: try_schedule_chunk_on_peer_def Let_def eligible_def)
  then show thesis using that(2) True by blast
next
  case False
  then have "try_schedule_chunk_on_peer p c now cap s = (False, s)"
    by (auto simp: try_schedule_chunk_on_peer_def Let_def eligible_def)
  then show thesis by (rule that(1))
qed

lemma try_chunk_False:
  assumes "\<not> fst (try_schedule_chunk_on_peer p c now cap s)"
  shows "no_request s (snd (try_schedule_chunk_on_peer p c now cap s))"
proof (cases rule: try_chunk_cases[of p c now cap s])
  case 1
  then show ?thesis by (simp add: no_request_def same_completion_def)
next
  case 2
  let ?t = "s\<lparr>chunk_states := (chunk_states s)[c := DOWNLOADING]\<rparr>"
  have "same_completion s ?t" using 2(1,2) by (intro act_completion act_start)
  moreover have "snd (try_schedule_chunk_on_peer p c now cap s) = ?t"
    using issue_loop_False(1)[of p c now cap "[0..<unat (sub_total s c)]" False ?t] assms 2(4) by simp
  ultimately show ?thesis by (simp add: no_request_def)
qed

lemma try_chunk_open:
  assumes "c \<in> incomplete s" "eligible c (peer_slots s ! p)" "select_best_peer s c = Some (slot_id (peer_slots s ! p))"
    "i < unat (sub_total s c)" "\<not> chunk_sub_req s ! c ! i" "pending_at s p < cap"
  shows "fst (try_schedule_chunk_on_peer p c now cap s)"
proof (rule ccontr)
  let ?t = "s\<lparr>chunk_states := (chunk_states s)[c := DOWNLOADING]\<rparr>"
  assume n: "\<not> ?thesis"
  have nz: "sub_total s c \<noteq> 0" using assms(4) by auto
  have e: "try_schedule_chunk_on_peer p c now cap s = issue_loop p c now cap [0..<unat (sub_total s c)] False ?t"
    using assms nz by (auto simp: try_schedule_chunk_on_peer_def Let_def incomplete_def eligible_def)
  then show False
    using issue_loop_False(2)[of p c now cap "[0..<unat (sub_total s c)]" False ?t i] n assms
    by (simp add: pending_at_def)
qed

lemma schedule_loop_True: "fst (schedule_loop p now cap cs True s)"
  by (induction cs arbitrary: s) (auto split: prod.split)

lemma schedule_loop_open:
  assumes "c \<in> set cs" "c \<in> incomplete s" "eligible c (peer_slots s ! p)"
    "select_best_peer s c = Some (slot_id (peer_slots s ! p))"
    "i < unat (sub_total s c)" "\<not> chunk_sub_req s ! c ! i" "pending_at s p < cap"
  shows "fst (schedule_loop p now cap cs r s)"
  using assms
proof (induction cs arbitrary: s r)
  case (Cons d cs)
  obtain r' s' where e: "try_schedule_chunk_on_peer p d now cap s = (r', s')" by fastforce
  show ?case
  proof (cases r')
    case True
    then show ?thesis using e Cons.prems(7) schedule_loop_True by (auto simp: pending_at_def not_le)
  next
    case False
    then have n: "no_request s s'" using try_chunk_False[of p d now cap s] e by simp
    have "d \<noteq> c" using try_chunk_open[OF Cons.prems(2-7), of now] e False by auto
    then have "c \<in> set cs" using Cons.prems(1) by simp
    moreover have "peer_slots s' = peer_slots s" "sub_total s' c = sub_total s c" "chunk_sub_req s' = chunk_sub_req s"
      "incomplete s' = incomplete s"
      using n incomplete_cong by (auto simp: no_request_def sub_total_def)
    ultimately have "fst (schedule_loop p now cap cs (r \<or> r') s')"
      using Cons.prems best_same[OF n] by (intro Cons.IH) (simp_all add: pending_at_def)
    then show ?thesis using e Cons.prems(7) by (auto simp: pending_at_def not_le)
  qed
qed simp

text \<open>An unrequested sub-block keeps its chunk among the candidates: the counter never exceeds the flags.\<close>

lemma open_is_pending:
  assumes "sched_inv s" "c \<in> incomplete s" "holds_chunk c (peer_slots s ! p)"
    "i < unat (sub_total s c)" "\<not> chunk_sub_req s ! c ! i"
  shows "c \<in> set (pending_chunks s p)"
proof -
  have c: "c < length (chunk_states s)" using assms(2) by (simp add: incomplete_def)
  have parts: "shape_inv s" "count_inv s" "active_inv s" using assms(1) by (simp_all add: sched_inv_def)
  note d = shapeD[OF parts(1) c]
  have "marked (chunk_sub_req s ! c) < length (chunk_sub_req s ! c)"
    using marked_le_length[of "chunk_sub_req s ! c"] marked_full_iff[of "chunk_sub_req s ! c"] assms(4,5) d(1)
    by (metis le_neq_implies_less)
  moreover have "unat (chunk_sub_req_count s ! c) \<le> marked (chunk_sub_req s ! c)" using parts(2) c by (simp add: count_inv_def)
  ultimately have "chunk_sub_req_count s ! c < sub_total s c" using d(1) by (simp add: word_less_nat_alt)
  then show ?thesis
    using assms(2,3) parts(3) d(7)
    by (simp add: pending_chunks_def Let_def requested_of_def active_inv_def incomplete_def holds_chunk_def)
qed

lemma try_schedule_open:
  assumes "sched_inv s" "c \<in> incomplete s" "select_best_peer s c = Some (slot_id (peer_slots s ! p))"
    "eligible c (peer_slots s ! p)" "i < unat (sub_total s c)" "\<not> chunk_sub_req s ! c ! i"
    "pending_at s p < effective_cap_of s p"
  shows "fst (try_schedule_for_peer p now s)"
proof -
  have "c \<in> set (pending_chunks s p)"
    using assms by (intro open_is_pending) (auto simp: holds_chunk_def eligible_def)
  then show ?thesis
    using schedule_loop_open[OF _ assms(2,4,3,5-7), of "pending_chunks s p" now False] assms(7)
    by (simp add: try_schedule_for_peer_def Let_def pending_at_def not_le)
qed

section \<open>Cancelling a completed chunk\<close>

lemma act_find_remove: "act_find c (act_remove c m) = []"
  by (induction m) (auto simp: act_find_def act_remove_def split: option.splits)

lemma cancel_begins_result:
  assumes "p < length (peer_slots s)"
  shows "out (cancel_begins p c bs s) = out s @ map (\<lambda>b. Cancel_request (slot_id (peer_slots s ! p)) c b sub_size) bs"
    "length (peer_slots (cancel_begins p c bs s)) = length (peer_slots s)"
    "q \<noteq> p \<Longrightarrow> peer_slots (cancel_begins p c bs s) ! q = peer_slots s ! q"
    "active_sub_blocks (peer_slots (cancel_begins p c bs s) ! p) = active_sub_blocks (peer_slots s ! p)"
    "slot_id (peer_slots (cancel_begins p c bs s) ! p) = slot_id (peer_slots s ! p)"
  using assms by (induction bs arbitrary: s) auto

lemma cancel_at_result:
  assumes "p < length (peer_slots s)"
  shows "length (peer_slots (cancel_at c ex p s)) = length (peer_slots s)"
    "q \<noteq> p \<Longrightarrow> peer_slots (cancel_at c ex p s) ! q = peer_slots s ! q"
    "slot_id (peer_slots (cancel_at c ex p s) ! p) = slot_id (peer_slots s ! p)"
    "slot_id (peer_slots s ! p) \<noteq> ex \<Longrightarrow> act_find c (active_sub_blocks (peer_slots (cancel_at c ex p s) ! p)) = []"
    "out (cancel_at c ex p s) = out s @ (if slot_id (peer_slots s ! p) = ex then [] else
        map (\<lambda>b. Cancel_request (slot_id (peer_slots s ! p)) c b sub_size) (act_find c (active_sub_blocks (peer_slots s ! p))))"
  using assms cancel_begins_result[OF assms]
  by (auto simp: cancel_at_def Let_def act_find_remove)

definition cancels_of :: "nat \<Rightarrow> nat \<Rightarrow> PeerSlot \<Rightarrow> sched_event list" where
  "cancels_of c ex q = (if slot_id q = ex then [] else
     map (\<lambda>b. Cancel_request (slot_id q) c b sub_size) (act_find c (active_sub_blocks q)))"

lemma cancel_fold_result:
  assumes "distinct ps" "\<forall>p \<in> set ps. p < length (peer_slots s)"
  shows "out (fold (cancel_at c ex) ps s) = out s @ concat (map (\<lambda>p. cancels_of c ex (peer_slots s ! p)) ps)
     \<and> length (peer_slots (fold (cancel_at c ex) ps s)) = length (peer_slots s)
     \<and> (\<forall>q. q \<notin> set ps \<longrightarrow> peer_slots (fold (cancel_at c ex) ps s) ! q = peer_slots s ! q)
     \<and> (\<forall>p \<in> set ps. slot_id (peer_slots s ! p) \<noteq> ex \<longrightarrow>
          act_find c (active_sub_blocks (peer_slots (fold (cancel_at c ex) ps s) ! p)) = [])"
  using assms
proof (induction ps arbitrary: s)
  case (Cons p ps)
  let ?t = "cancel_at c ex p s"
  have p: "p < length (peer_slots s)" using Cons.prems by simp
  note r = cancel_at_result[OF p]
  have ih: "out (fold (cancel_at c ex) ps ?t) = out ?t @ concat (map (\<lambda>q. cancels_of c ex (peer_slots ?t ! q)) ps)
     \<and> length (peer_slots (fold (cancel_at c ex) ps ?t)) = length (peer_slots ?t)
     \<and> (\<forall>q. q \<notin> set ps \<longrightarrow> peer_slots (fold (cancel_at c ex) ps ?t) ! q = peer_slots ?t ! q)
     \<and> (\<forall>q \<in> set ps. slot_id (peer_slots ?t ! q) \<noteq> ex \<longrightarrow>
          act_find c (active_sub_blocks (peer_slots (fold (cancel_at c ex) ps ?t) ! q)) = [])"
    using Cons.prems r(1) by (intro Cons.IH) auto
  have other: "q \<in> set ps \<Longrightarrow> peer_slots ?t ! q = peer_slots s ! q" for q
    using r(2)[of q] Cons.prems(1) by (cases "q = p") auto
  have o: "concat (map (\<lambda>q. cancels_of c ex (peer_slots ?t ! q)) ps) = concat (map (\<lambda>q. cancels_of c ex (peer_slots s ! q)) ps)"
    using other by (metis (mono_tags, lifting) map_eq_conv)
  have "p \<notin> set ps" using Cons.prems(1) by simp
  then show ?case
    using ih o r other by (auto simp: cancels_of_def)
qed simp

lemma cancel_all_result:
  assumes "cancel_set s"
  shows "out (send_cancel_for_chunk c ex s) = out s @ concat (map (cancels_of c ex) (peer_slots s))"
    "p < length (peer_slots s) \<Longrightarrow> slot_id (peer_slots s ! p) \<noteq> ex \<Longrightarrow>
       act_find c (active_sub_blocks (peer_slots (send_cancel_for_chunk c ex s) ! p)) = []"
proof -
  have "map (\<lambda>p. cancels_of c ex (peer_slots s ! p)) [0..<length (peer_slots s)] = map (cancels_of c ex) (peer_slots s)"
    by (rule nth_equalityI) simp_all
  then show "out (send_cancel_for_chunk c ex s) = out s @ concat (map (cancels_of c ex) (peer_slots s))"
    using cancel_fold_result[of "[0..<length (peer_slots s)]" s c ex] assms by (simp add: send_cancel_for_chunk_def)
  show "p < length (peer_slots s) \<Longrightarrow> slot_id (peer_slots s ! p) \<noteq> ex \<Longrightarrow>
       act_find c (active_sub_blocks (peer_slots (send_cancel_for_chunk c ex s) ! p)) = []"
    using cancel_fold_result[of "[0..<length (peer_slots s)]" s c ex] assms by (simp add: send_cancel_for_chunk_def)
qed

section \<open>Requests of every operation\<close>

text \<open>What an operation appends to the events: the requests among them are judged in the state it leaves.\<close>

definition is_request :: "sched_event \<Rightarrow> bool" where
  "is_request ev \<longleftrightarrow> (case ev of Issue_request _ _ _ _ \<Rightarrow> True | _ \<Rightarrow> False)"

definition requests_ok :: "Scheduler \<Rightarrow> Scheduler \<Rightarrow> bool" where
  "requests_ok s s' \<longleftrightarrow> (\<exists>evs. out s' = out s @ evs \<and> (\<forall>ev \<in> set evs. is_request ev \<longrightarrow> event_ok s' ev))"

lemma event_ok_acts_forward:
  assumes "sched_acts s s'" "event_ok s ev"
  shows "event_ok s' ev"
proof -
  have f: "map peer_static (peer_slots s) = map peer_static (peer_slots s')" "chunk_sub_blocks s' = chunk_sub_blocks s"
    using acts_frame[OF assms(1)] by (simp_all add: sched_frame_def)
  have i: "incomplete s' = incomplete s" by (rule incomplete_cong[OF acts_completion[OF assms(1)]])
  have "\<exists>q \<in> set (peer_slots s'). slot_id q = slot_id q' \<and> (\<forall>c. holds_chunk c q = holds_chunk c q')"
    if "q' \<in> set (peer_slots s)" for q'
    using static_mem[OF f(1) that] peer_static_cong(1,3) by (metis holds_chunk_def)
  then show ?thesis using assms(2) by (cases ev) (fastforce simp: f i)+
qed

lemma acts_requests_ok:
  assumes "sched_acts t s'" "sched_inv t" "out t = out s @ es" "\<forall>ev \<in> set es. \<not> is_request ev"
  shows "requests_ok s s'"
proof -
  obtain evs where "out s' = out t @ evs" "\<forall>ev \<in> set evs. event_ok t ev" using acts_events[OF assms(1,2)] by blast
  then have "out s' = out s @ (es @ evs) \<and> (\<forall>ev \<in> set (es @ evs). is_request ev \<longrightarrow> event_ok s' ev)"
    using assms(3,4) event_ok_acts_forward[OF assms(1)] by auto
  then show ?thesis unfolding requests_ok_def by blast
qed

lemma no_requests_ok: "out s' = out s @ es \<Longrightarrow> \<forall>ev \<in> set es. \<not> is_request ev \<Longrightarrow> requests_ok s s'"
  by (auto simp: requests_ok_def)

lemma interest_out: "\<exists>es. out (check_peer_interest sid s) = out s @ es \<and> (\<forall>ev \<in> set es. \<not> is_request ev)"
  by (simp add: check_peer_interest_def is_request_def)


lemma rebalance_requests:
  assumes "sched_inv t" "p < length (peer_slots t)" "out t = out s"
  shows "requests_ok s (rebalance_seed_requests_for_peer p now n (check_peer_interest sid t))"
proof -
  obtain es where "out (check_peer_interest sid t) = out s @ es" "\<forall>ev \<in> set es. \<not> is_request ev"
    using interest_out[of sid t] assms(3) by auto
  then show ?thesis
    using assms(1,2) by (intro acts_requests_ok[OF rebalance_acts check_interest_inv]) simp_all
qed

lemma requests_ok_refl [simp]: "requests_ok s s"
  by (simp add: requests_ok_def)

lemma on_bitfield_requests:
  assumes "sched_inv s"
  shows "requests_ok s (on_bitfield sid bf now s)"
proof (cases "peer_slot s sid")
  case (Some p)
  then have p: "p < length (peer_slots s)" using find_slot_Some by (simp add: peer_slot_def)
  then show ?thesis
    using Some assms
    by (auto simp: on_bitfield_def Let_def intro!: rebalance_requests inv_availability inv_upd_peer)
qed (simp add: on_bitfield_def)

lemma on_have_requests:
  assumes "sched_inv s"
  shows "requests_ok s (on_have sid c now s)"
proof (cases "peer_slot s sid")
  case (Some p)
  then have p: "p < length (peer_slots s)" using find_slot_Some by (simp add: peer_slot_def)
  then show ?thesis
    using Some assms
    by (auto simp: on_have_def Let_def intro!: rebalance_requests inv_availability inv_upd_peer)
qed (simp add: on_have_def)

lemma note_piece_out [simp]: "out (note_piece p c begin s) = out s"
  by (simp add: note_piece_def Let_def)

lemma same_out_ok: "out s' = out s \<Longrightarrow> requests_ok s s'"
  by (simp add: requests_ok_def)

lemma dec_pending_requests:
  assumes "sched_inv s"
  shows "requests_ok s (dec_peer_pending sid c begin now s)"
proof (cases "peer_slot s sid")
  case (Some p)
  then have p: "p < length (peer_slots s)" using find_slot_Some by (simp add: peer_slot_def)
  have "requests_ok s (snd (try_schedule_for_peer p now (note_piece p c begin s)))"
    using p by (intro acts_requests_ok[OF try_schedule_acts note_piece_inv[OF assms], where es = "[]"]) simp_all
  then show ?thesis using Some by (simp add: dec_peer_pending_def Let_def same_out_ok)
qed (simp add: dec_peer_pending_def)

lemma out_release_request [simp]: "out (release_request c b s) = out s"
  by (simp add: release_request_def Let_def)

lemma out_fold_keep: "(\<And>x t. out (f x t) = out t) \<Longrightarrow> out (fold f xs s) = out s"
  by (induction xs arbitrary: s) simp_all

lemma out_release_chunk [simp]: "out (release_chunk en s) = out s"
  by (simp add: release_chunk_def Let_def out_fold_keep split: prod.split)

lemma out_peer_removed [simp]: "out (on_peer_removed sid s) = out s"
  by (simp add: on_peer_removed_def Let_def out_fold_keep split: option.split)

lemma out_timeout [simp]: "out (on_subblock_timeout c b s) = out s"
  by (simp add: on_subblock_timeout_def Let_def)

lemma out_mark_all [simp]: "out (mark_all_complete bf s) = out s"
proof -
  have "out (mark_one bf i t) = out t" for i t by (simp add: mark_one_def Let_def)
  then have "out (fold (mark_one bf) is s) = out s" for "is" by (rule out_fold_keep)
  then show ?thesis by (simp add: mark_all_complete_def Let_def)
qed

definition no_requests :: "Scheduler \<Rightarrow> Scheduler \<Rightarrow> bool" where
  "no_requests s s' \<longleftrightarrow> (\<exists>es. out s' = out s @ es \<and> (\<forall>ev \<in> set es. \<not> is_request ev))"

lemma no_requests_trans: "no_requests s t \<Longrightarrow> no_requests t u \<Longrightarrow> no_requests s u"
  by (force simp: no_requests_def)

lemma complete_one_no_requests: "no_requests s (complete_one msg s)"
proof -
  let ?s1 = "s\<lparr>chunk_states := (chunk_states s)[cc_chunk_idx msg := COMPLETE], missing_count := missing_count s - 1,
      active_chunks := swap_remove (cc_chunk_idx msg) (active_chunks s)\<rparr>"
  have "\<exists>es. out (send_cancel_for_chunk (cc_chunk_idx msg) (cc_winning_peer_slot msg) ?s1) = out s @ es \<and> (\<forall>ev \<in> set es. \<not> is_request ev)"
    using cancel_all_result(1)[where s = ?s1 and c = "cc_chunk_idx msg" and ex = "cc_winning_peer_slot msg"]
    by (cases "cancel_set s") (auto simp: send_cancel_for_chunk_def cancels_of_def is_request_def)
  then show ?thesis by (auto simp: no_requests_def complete_one_def Let_def is_request_def)
qed

lemma completions_no_requests: "no_requests s (process_completions msgs s)"
proof -
  have "no_requests s (fold complete_one msgs s)"
  proof (induction msgs arbitrary: s)
    case Nil then show ?case by (simp add: no_requests_def)
  next
    case (Cons m msgs)
    show ?case using no_requests_trans[OF complete_one_no_requests Cons.IH] by simp
  qed
  then show ?thesis by (auto simp: no_requests_def process_completions_def Let_def is_request_def)
qed

lemma exec_op_requests:
  assumes "std_sort srt" "sched_inv s"
  shows "requests_ok s (exec_op srt op s)"
proof (cases op)
  case (Tick_at now)
  then show ?thesis using acts_requests_ok[OF tick_acts[OF assms(1)] assms(2), where es = "[]" and s = s] by simp
next
  case (Completions msgs)
  then show ?thesis using completions_no_requests[of s msgs] by (auto simp: no_requests_def intro: no_requests_ok)
qed (use assms in \<open>auto simp: on_bitfield_requests on_have_requests dec_pending_requests on_peer_added_def on_peer_speed_def
   on_choke_change_def sync_slot_def on_verify_failed_def intro!: same_out_ok split: option.split\<close>)
definition example_open :: Scheduler where
  "example_open = exec_op (\<lambda>key. sort_key key) (Choke_change 1 False)
     (exec_op (\<lambda>key. sort_key key) (Bitfield_from 1 [True] 10)
       (exec_op (\<lambda>key. sort_key key) (Add_peer 1 1000) (fresh_scheduler [40000] 1000)))"

lemma example_open_inv: "sched_inv example_open"
  unfolding example_open_def by (intro exec_op_inv[OF std_sort_sort_key] fresh_inv) simp_all

section \<open>Properties\<close>

text \<open>C19. The availability table is exact: if every slot id is added once and a peer sends its
  bitfield before any of its chunks is known, then after any calls the entry of each chunk is the
  number of connected peers that hold it.\<close>

theorem availability_exact:
  assumes "std_sort srt" "avail_disciplined srt (fresh_scheduler sizes speed) ops"
    and "s = fold (exec_op srt) ops (fresh_scheduler sizes speed)"
  shows "\<forall>c < length (availability s). availability s ! c = of_nat (holders (peer_slots s) c)"
  using avail_run[OF assms(1) fresh_avail assms(2)] assms(3) by (simp add: avail_inv_def)

definition example_end :: Scheduler where
  "example_end = fold (exec_op (\<lambda>key. sort_key key)) example_ops (fresh_scheduler example_sizes 1000)"

theorem availability_exact_witness: "availability example_end ! 0 = of_nat (holders (peer_slots example_end) 0)"
proof -
  have "avail_disciplined (\<lambda>key. sort_key key) (fresh_scheduler example_sizes 1000) example_ops" by code_simp
  moreover have "0 < length (availability example_end)" by code_simp
  ultimately show ?thesis using availability_exact[OF std_sort_sort_key _ example_end_def] by blast
qed

text \<open>C20. Every request is wanted: whatever call the daemon makes on a well-formed scheduler, events are
  only appended, and each request among the new ones asks a connected peer that holds the chunk for one
  whole sub-block, at an aligned offset inside a chunk that is not complete.\<close>

theorem requests_wanted:
  assumes "std_sort srt" "sched_inv s"
  shows "\<exists>evs. out (exec_op srt op s) = out s @ evs
     \<and> (\<forall>ev \<in> set evs. is_request ev \<longrightarrow> event_ok (exec_op srt op s) ev)"
  using exec_op_requests[OF assms] by (simp add: requests_ok_def)

theorem requests_wanted_witness:
  "\<exists>evs. out (exec_op (\<lambda>key. sort_key key) (Tick_at 50) example_open) = out example_open @ evs
     \<and> (\<exists>ev \<in> set evs. is_request ev \<and> event_ok (exec_op (\<lambda>key. sort_key key) (Tick_at 50) example_open) ev)"
proof -
  have "\<exists>ev \<in> set (drop (length (out example_open)) (out (exec_op (\<lambda>key. sort_key key) (Tick_at 50) example_open))). is_request ev"
    by code_simp
  then show ?thesis
    using requests_wanted[OF std_sort_sort_key example_open_inv, of "Tick_at 50"] by fastforce
qed

text \<open>C21. \<open>select_best_peer\<close> returns an unchoked peer that holds the chunk and has not timed out
  three times, none of the eligible peers has a higher score, and among equal scores it takes one that
  holds the fewest chunks; it returns nothing exactly when no peer is eligible.\<close>

theorem best_peer_is_best:
  assumes "\<forall>p \<in> set (peer_slots s). eligible c p \<longrightarrow> peer_score (local_speed_mbps s) p > INT_MIN"
  shows "case select_best_peer s c of
       None \<Rightarrow> \<forall>p \<in> set (peer_slots s). \<not> eligible c p
     | Some sid \<Rightarrow> \<exists>p \<in> set (peer_slots s). slot_id p = sid \<and> eligible c p
         \<and> (\<forall>q \<in> set (peer_slots s). eligible c q \<longrightarrow>
              peer_score (local_speed_mbps s) q < peer_score (local_speed_mbps s) p
              \<or> peer_score (local_speed_mbps s) q = peer_score (local_speed_mbps s) p
                \<and> peer_have_count p \<le> peer_have_count q)"
proof (cases "select_best_peer s c")
  case None
  then show ?thesis using select_best_None[OF None] assms by fastforce
next
  case (Some sid)
  then show ?thesis using select_best_Some[OF Some] by (simp add: no_better_def)
qed

definition example_peer :: "nat \<Rightarrow> PeerSlot" where
  "example_peer n = \<lparr>slot_id = n, pending_requests = 0, consecutive_timeouts = 0, rtt_us = 0,
     link_speed_mbps = 1000, link_speed_reported = 1000, pipeline_cap = 128, am_choking = False,
     remote_bitfield = [True], active_sub_blocks = []\<rparr>"

theorem best_peer_is_best_witness:
  "\<exists>p \<in> set (peer_slots (new_scheduler\<lparr>peer_slots := [example_peer 7]\<rparr>)). slot_id p = 7 \<and> eligible 0 p"
proof -
  have h: "\<forall>p \<in> set (peer_slots (new_scheduler\<lparr>peer_slots := [example_peer 7]\<rparr>)). eligible 0 p \<longrightarrow>
      peer_score (local_speed_mbps (new_scheduler\<lparr>peer_slots := [example_peer 7]\<rparr>)) p > INT_MIN"
    by code_simp
  have s: "select_best_peer (new_scheduler\<lparr>peer_slots := [example_peer 7]\<rparr>) 0 = Some 7" by code_simp
  show ?thesis using best_peer_is_best[OF h] unfolding s by auto
qed

text \<open>C22. Filling a peer's pipeline respects its cap: after \<open>try_schedule_for_peer\<close> the peer has at
  most its effective cap of requests outstanding (or what it had before), and no other peer's slot
  changed.\<close>

theorem pipeline_respected:
  assumes "p < length (peer_slots s)"
  shows "pending_at (snd (try_schedule_for_peer p now s)) p \<le> max (pending_at s p) (effective_cap_of s p)
     \<and> (\<forall>q. q \<noteq> p \<longrightarrow> peer_slots (snd (try_schedule_for_peer p now s)) ! q = peer_slots s ! q)"
proof (cases "pending_at s p < effective_cap_of s p")
  case True
  then show ?thesis
    using schedule_loop_cap[OF assms, of "effective_cap_of s p" now "pending_chunks s p" False]
    by (auto simp: try_schedule_for_peer_def Let_def pending_at_def le_max_iff_disj)
next
  case False
  then show ?thesis by (auto simp: try_schedule_for_peer_def Let_def pending_at_def not_less)
qed

theorem pipeline_respected_witness:
  "pending_at (snd (try_schedule_for_peer 0 9 (new_scheduler\<lparr>peer_slots := [example_peer 7]\<rparr>))) 0
     \<le> max (pending_at (new_scheduler\<lparr>peer_slots := [example_peer 7]\<rparr>) 0)
         (effective_cap_of (new_scheduler\<lparr>peer_slots := [example_peer 7]\<rparr>) 0)"
  using pipeline_respected[of 0 "new_scheduler\<lparr>peer_slots := [example_peer 7]\<rparr>" 9] by simp

text \<open>C23. The scheduler does not stall: if an incomplete chunk has an unrequested sub-block, the peer
  is the best peer for that chunk and its pipeline has room, then \<open>try_schedule_for_peer\<close> issues a
  request.\<close>

theorem schedule_progress:
  assumes "sched_inv s" "is_incomplete s c" "select_best_peer s c = Some (slot_id (peer_slots s ! p))"
    and "eligible c (peer_slots s ! p)" "i < unat (sub_total s c)" "\<not> chunk_sub_req s ! c ! i"
    and "pending_at s p < effective_cap_of s p"
  shows "fst (try_schedule_for_peer p now s)"
  using try_schedule_open[OF assms(1) _ assms(3-7)] assms(2) by simp

theorem schedule_progress_witness: "fst (try_schedule_for_peer 0 50 example_open)"
  by (rule schedule_progress[OF example_open_inv, where c = 0 and i = 1]) code_simp+

text \<open>C24. Completing a chunk cancels it everywhere else: one cancel is sent for each outstanding
  sub-block of the chunk at each peer but the winner, and none of those peers keeps any.\<close>

theorem completion_cancels:
  assumes "cancel_set s" "p < length (peer_slots s)" "slot_id (peer_slots s ! p) \<noteq> cc_winning_peer_slot msg"
  shows "act_find (cc_chunk_idx msg) (active_sub_blocks (peer_slots (complete_one msg s) ! p)) = []
     \<and> (\<forall>b \<in> set (act_find (cc_chunk_idx msg) (active_sub_blocks (peer_slots s ! p))).
          Cancel_request (slot_id (peer_slots s ! p)) (cc_chunk_idx msg) b sub_size \<in> set (out (complete_one msg s)))"
proof -
  let ?c = "cc_chunk_idx msg"
  let ?s1 = "s\<lparr>chunk_states := (chunk_states s)[?c := COMPLETE], missing_count := missing_count s - 1,
      active_chunks := swap_remove ?c (active_chunks s)\<rparr>"
  note r = cancel_all_result(1)[where s = ?s1 and c = ?c and ex = "cc_winning_peer_slot msg"]
    cancel_all_result(2)[where s = ?s1 and c = ?c and ex = "cc_winning_peer_slot msg" and p = p]
  have "peer_slots s ! p \<in> set (peer_slots s)" using assms(2) by simp
  then have "set (cancels_of ?c (cc_winning_peer_slot msg) (peer_slots s ! p)) \<subseteq> set (out (send_cancel_for_chunk ?c (cc_winning_peer_slot msg) ?s1))"
    using r(1) assms(1) by auto
  then show ?thesis
    using r(2) assms by (auto simp: complete_one_def Let_def cancels_of_def)
qed

theorem completion_cancels_witness:
  "act_find 0 (active_sub_blocks (peer_slots (complete_one \<lparr>cc_chunk_idx = 0, cc_winning_peer_slot = 2\<rparr>
     (new_scheduler\<lparr>peer_slots := [(example_peer 7)\<lparr>active_sub_blocks := [(0, [0])]\<rparr>], cancel_set := True\<rparr>)) ! 0)) = []"
  using completion_cancels[of "new_scheduler\<lparr>peer_slots := [(example_peer 7)\<lparr>active_sub_blocks := [(0, [0])]\<rparr>], cancel_set := True\<rparr>"
      0 "\<lparr>cc_chunk_idx = 0, cc_winning_peer_slot = 2\<rparr>"]
  by (simp add: example_peer_def)

definition rebalance_ops :: "sched_op list" where
  "rebalance_ops = [Add_peer 1 1000, Bitfield_from 1 [True, True] 10, Choke_change 1 False, Tick_at 20,
     Add_peer 2 1000, Bitfield_from 2 [True, False] 30]"

definition rebalance_end :: Scheduler where
  "rebalance_end = fold (exec_op (\<lambda>key. sort_key key)) rebalance_ops
     (set_cancel_issuer (fresh_scheduler [16384, 16384] 1000))"

text \<open>Rebalancing does not look at choking: the daemon's calls reach a state in which a request
  that was outstanding at an unchoked full source has been cancelled there and reissued to a peer that
  has never unchoked us (and so will drop it).\<close>

theorem rebalance_ignores_choke:
  "sched_run (\<lambda>key. sort_key key) (set_cancel_issuer (fresh_scheduler [16384, 16384] 1000)) rebalance_ops rebalance_end
   \<and> (\<exists>q \<in> set (peer_slots rebalance_end). slot_id q = 2 \<and> am_choking q)
   \<and> (\<exists>evs. out rebalance_end = evs @ [Cancel_request 1 0 0 sub_size, Issue_request 2 0 0 sub_size])"
proof (intro conjI)
  show "sched_run (\<lambda>key. sort_key key) (set_cancel_issuer (fresh_scheduler [16384, 16384] 1000)) rebalance_ops rebalance_end"
    unfolding rebalance_end_def by (rule check_run_run) code_simp
  show "\<exists>q \<in> set (peer_slots rebalance_end). slot_id q = 2 \<and> am_choking q" by code_simp
  have "out rebalance_end = [Issue_request 1 0 0 16384, Issue_request 1 1 0 16384,
      Cancel_request 1 0 0 16384, Issue_request 2 0 0 16384]" by code_simp
  then show "\<exists>evs. out rebalance_end = evs @ [Cancel_request 1 0 0 sub_size, Issue_request 2 0 0 sub_size]" by simp
qed

end
