(* ===== verification/Peer_Session.thy ===== *)
theory Peer_Session
  imports Complex_Main Protocol Scheduler_Requests Text_Util
begin

unbundle bit_operations_syntax

text \<open>
  \<open>src/src/daemon/peer_session.hpp/.cpp\<close>: one connection to a peer. The session's members are a
  record; the write side (queue, writing flag, what was handed to the socket, how many asynchronous
  writes have been started and not finished) is a record of its own.
  A handler takes the session together with the scheduler it points to (\<open>None\<close> when there is none)
  and returns both, with an event for every other effect (piece handed to the I/O pool, file read
  posted, callback invoked, disconnect). A result \<open>None\<close> is undefined behaviour: a message body
  shorter than the bytes its handler copies. The byte order of the host, the clock (microseconds)
  and the random bytes of the peer id are arguments. Doubles are modelled as rationals, rounding is not.
\<close>

section \<open>State\<close>

record writer =
  write_queue :: "bytes list"
  is_writing :: bool
  wire :: "bytes list"
  in_flight :: nat

datatype session_state = HANDSHAKE | CONNECTED | DISCONNECTED

datatype session_event =
    Ev_disconnect
  | Ev_handshake_done
  | Ev_piece nat u32 bytes nat
  | Ev_pex_peer string u16 u8
  | Ev_pex_remove string u16
  | Ev_post_read u64 u32 u32 u32
  | Ev_post_sendfile u64 u32 u32 u32
  | Ev_timer nat

record PeerSession =
  ps_info_hash :: bytes
  ps_local_speed_mbps :: u32
  ps_local_listen_port :: u16
  ps_state :: session_state
  ps_handshake_sent :: bool
  ps_remote_speed_mbps :: u32
  ps_remote_listen_port :: u16
  ps_remote_bitfield :: "bool list"
  ps_peer_choking_me :: bool
  ps_choking_peer :: bool
  ps_peer_interested :: bool
  ps_am_interested :: bool
  ps_writer :: writer
  ps_pending_requests :: u32
  ps_pipeline_cap :: u32
  ps_slot_id :: nat
  ps_has_io_pool :: bool
  ps_has_file :: bool
  ps_chunk_offsets :: "u64 list option"
  ps_cancelled_set :: "(nat \<times> nat) set"
  ps_pending_times :: "((nat \<times> nat) \<times> nat) list"
  ps_consecutive_timeouts :: u32
  ps_pipeline_eval_cycles :: u32
  ps_timeout_count_this_cycle :: u32
  ps_avg_latency_us :: rat
  ps_last_eval_time :: nat
  ps_recv_bytes :: u64
  ps_sent_bytes :: u64
  ps_download_rate_kbps :: u32
  ps_upload_rate_kbps :: u32
  ps_last_download_eval_time :: nat
  ps_last_upload_eval_time :: nat
  ps_use_sendfile :: bool
  ps_closed :: bool
  ps_endpoint :: "(string \<times> u16) option"
  ps_has_disconnect_cb :: bool
  ps_has_handshake_cb :: bool
  ps_has_pex_cb :: bool
  ps_has_pex_remove_cb :: bool
  ps_has_timeout_cb :: bool
  ps_events :: "session_event list"

definition MAX_MSG_SIZE :: u32 where "MAX_MSG_SIZE = 65536"
definition PIPELINE_EVAL_MS :: nat where "PIPELINE_EVAL_MS = 500"
definition REQUEST_TIMEOUT_MS :: nat where "REQUEST_TIMEOUT_MS = 3000"
definition REQUEST_TIMEOUT_LIMIT :: u32 where "REQUEST_TIMEOUT_LIMIT = 3"
definition PIPELINE_MIN :: u32 where "PIPELINE_MIN = 8"
definition PIPELINE_MAX :: u32 where "PIPELINE_MAX = 100"
definition LATENCY_THRESHOLD_US :: rat where "LATENCY_THRESHOLD_US = 2000"
definition PIPELINE_UP_FACTOR :: rat where "PIPELINE_UP_FACTOR = 3 / 2"
definition LATENCY_EMA_ALPHA :: rat where "LATENCY_EMA_ALPHA = 3 / 10"

definition new_session :: "bytes \<Rightarrow> u32 \<Rightarrow> u16 \<Rightarrow> bool \<Rightarrow> nat \<Rightarrow> PeerSession" where
  "new_session ih speed port enable_sendfile now = \<lparr>
     ps_info_hash = take 20 ih, ps_local_speed_mbps = speed, ps_local_listen_port = port,
     ps_state = HANDSHAKE, ps_handshake_sent = False, ps_remote_speed_mbps = 0, ps_remote_listen_port = 0,
     ps_remote_bitfield = [], ps_peer_choking_me = True, ps_choking_peer = True, ps_peer_interested = False,
     ps_am_interested = False, ps_writer = \<lparr>write_queue = [], is_writing = False, wire = [], in_flight = 0\<rparr>,
     ps_pending_requests = 0, ps_pipeline_cap = 128, ps_slot_id = 0, ps_has_io_pool = False, ps_has_file = False,
     ps_chunk_offsets = None, ps_cancelled_set = {}, ps_pending_times = [], ps_consecutive_timeouts = 0,
     ps_pipeline_eval_cycles = 0, ps_timeout_count_this_cycle = 0, ps_avg_latency_us = 500,
     ps_last_eval_time = now, ps_recv_bytes = 0, ps_sent_bytes = 0, ps_download_rate_kbps = 0,
     ps_upload_rate_kbps = 0, ps_last_download_eval_time = now, ps_last_upload_eval_time = now,
     ps_use_sendfile = enable_sendfile, ps_closed = False, ps_endpoint = None,
     ps_has_disconnect_cb = False, ps_has_handshake_cb = False, ps_has_pex_cb = False,
     ps_has_pex_remove_cb = False, ps_has_timeout_cb = False, ps_events = []\<rparr>"

section \<open>Writing\<close>

text \<open>\<open>do_write\<close> hands the front of the queue to the socket; the completion handler of the
  asynchronous write starts the next one or clears the flag.\<close>

definition do_write :: "writer \<Rightarrow> writer" where
  "do_write w =
     (case write_queue w of
        [] \<Rightarrow> w\<lparr>is_writing := False\<rparr>
      | m # ms \<Rightarrow> w\<lparr>write_queue := ms, wire := wire w @ [m], in_flight := in_flight w + 1\<rparr>)"

definition queue_message :: "bytes \<Rightarrow> writer \<Rightarrow> writer" where
  "queue_message buf w =
     (let w1 = w\<lparr>write_queue := write_queue w @ [buf]\<rparr>
      in if is_writing w1 then w1 else do_write (w1\<lparr>is_writing := True\<rparr>))"

definition write_done :: "writer \<Rightarrow> writer" where
  "write_done w =
     (let w1 = w\<lparr>in_flight := in_flight w - 1\<rparr>
      in if write_queue w1 \<noteq> [] then do_write w1 else w1\<lparr>is_writing := False\<rparr>)"

definition send_message :: "bytes \<Rightarrow> PeerSession \<Rightarrow> PeerSession" where
  "send_message buf ps = ps\<lparr>ps_writer := queue_message buf (ps_writer ps)\<rparr>"

definition sess_event :: "session_event \<Rightarrow> PeerSession \<Rightarrow> PeerSession" where
  "sess_event ev ps = ps\<lparr>ps_events := ps_events ps @ [ev]\<rparr>"

definition disconnect :: "PeerSession \<Rightarrow> PeerSession" where
  "disconnect ps =
     (if ps_state ps = DISCONNECTED then ps
      else let ps1 = ps\<lparr>ps_state := DISCONNECTED, ps_closed := True, ps_endpoint := None\<rparr>
           in if ps_has_disconnect_cb ps1 then sess_event Ev_disconnect ps1 else ps1)"

definition on_write_complete :: "bool \<Rightarrow> PeerSession \<Rightarrow> PeerSession" where
  "on_write_complete failed ps =
     (if failed then disconnect ps else ps\<lparr>ps_writer := write_done (ps_writer ps)\<rparr>)"

text \<open>The remote endpoint is known while the socket is connected; closing it forgets it.\<close>

definition remote_ip :: "PeerSession \<Rightarrow> string" where
  "remote_ip ps = (case ps_endpoint ps of None \<Rightarrow> ''unknown'' | Some (ip, _) \<Rightarrow> ip)"

definition remote_port :: "PeerSession \<Rightarrow> u16" where
  "remote_port ps = (case ps_endpoint ps of None \<Rightarrow> 0 | Some (_, port) \<Rightarrow> port)"

definition send_interested :: "endian \<Rightarrow> PeerSession \<Rightarrow> PeerSession" where
  "send_interested e ps =
     (if ps_am_interested ps then ps else send_message (build_interested e) (ps\<lparr>ps_am_interested := True\<rparr>))"

definition send_not_interested :: "endian \<Rightarrow> PeerSession \<Rightarrow> PeerSession" where
  "send_not_interested e ps =
     (if \<not> ps_am_interested ps then ps else send_message (build_not_interested e) (ps\<lparr>ps_am_interested := False\<rparr>))"

section \<open>Handshake\<close>

definition send_handshake :: "endian \<Rightarrow> bytes \<Rightarrow> PeerSession \<Rightarrow> PeerSession" where
  "send_handshake e rnd ps =
     (let h = handshake_build e empty_handshake (ps_info_hash ps) (ps_local_speed_mbps ps) (ps_local_listen_port ps);
          h' = h\<lparr>hs_peer_id := take 20 rnd\<rparr>
      in (send_message (serialize_handshake e h') ps)\<lparr>ps_handshake_sent := True\<rparr>)"

definition start_eval_timer :: "nat \<Rightarrow> PeerSession \<Rightarrow> PeerSession" where
  "start_eval_timer now ps = sess_event (Ev_timer PIPELINE_EVAL_MS) (ps\<lparr>ps_last_eval_time := now\<rparr>)"

text \<open>The received 67 bytes, or \<open>None\<close> when the read failed.\<close>

definition handle_handshake :: "endian \<Rightarrow> nat \<Rightarrow> bytes \<Rightarrow> bytes option \<Rightarrow> PeerSession \<Rightarrow> PeerSession" where
  "handle_handshake e now rnd received ps =
     (case received of
        None \<Rightarrow> disconnect ps
      | Some buf \<Rightarrow>
          (case parse_handshake e buf of
             None \<Rightarrow> disconnect ps
           | Some h \<Rightarrow>
               if hs_info_hash h \<noteq> ps_info_hash ps then disconnect ps
               else let ps1 = ps\<lparr>ps_remote_speed_mbps := hs_speed_mbps h,
                                 ps_remote_listen_port := handshake_listen_port e h\<rparr>;
                        ps2 = (if ps_handshake_sent ps1 then ps1 else send_handshake e rnd ps1);
                        ps3 = start_eval_timer now (ps2\<lparr>ps_state := CONNECTED\<rparr>)
                    in if ps_has_handshake_cb ps3 then sess_event Ev_handshake_done ps3 else ps3))"

text \<open>The two ways a session starts: on an accepted socket, or when a connection attempt ends.\<close>

definition start_inbound :: "(string \<times> u16) option \<Rightarrow> PeerSession \<Rightarrow> PeerSession" where
  "start_inbound ep ps = ps\<lparr>ps_endpoint := ep, ps_has_disconnect_cb := True\<rparr>"

definition start_outbound :: "PeerSession \<Rightarrow> PeerSession" where
  "start_outbound ps = ps\<lparr>ps_has_disconnect_cb := True\<rparr>"

definition on_outbound_connected ::
    "endian \<Rightarrow> bytes \<Rightarrow> (string \<times> u16) option \<Rightarrow> PeerSession \<Rightarrow> PeerSession" where
  "on_outbound_connected e rnd ep ps =
     (case ep of None \<Rightarrow> disconnect ps
      | Some _ \<Rightarrow> send_handshake e rnd (ps\<lparr>ps_endpoint := ep\<rparr>))"

section \<open>Reading\<close>

text \<open>The read chain: a five-byte header, then the body it announces. A frame is the id byte and the
  body; reading stops (and the session disconnects) at the end of the stream, at a header that does not
  parse or at a body over the limit.\<close>

type_synonym frame = "u8 \<times> bytes"

function read_frames :: "endian \<Rightarrow> bytes \<Rightarrow> frame list" where
  "read_frames e bs =
     (case parse_message_header e (take 5 bs) of
        None \<Rightarrow> []
      | Some (msg_len, i) \<Rightarrow>
          let body_len = msg_len - 1
          in if body_len > MAX_MSG_SIZE then []
             else if length (drop 5 bs) < unat body_len then []
             else (i, take (unat body_len) (drop 5 bs)) # read_frames e (drop (unat body_len) (drop 5 bs)))"
  by pat_completeness auto
termination
proof (relation "measure (\<lambda>(e, bs). length bs)", goal_cases)
  case (2 e bs x msg_len i body_len)
  then have "5 \<le> length bs" by (auto simp: parse_message_header_def split: if_splits)
  then show ?case by simp
qed simp

declare read_frames.simps [simp del]

definition read_u32 :: "endian \<Rightarrow> nat \<Rightarrow> bytes \<Rightarrow> u32" where
  "read_u32 e off data = ntoh32 e (unmem e (take 4 (drop off data)))"

type_synonym conn = "PeerSession \<times> Scheduler option"

definition record_have :: "nat \<Rightarrow> PeerSession \<Rightarrow> PeerSession" where
  "record_have c ps =
     (if c < length (ps_remote_bitfield ps) then ps\<lparr>ps_remote_bitfield := (ps_remote_bitfield ps)[c := True]\<rparr> else ps)"

definition record_bitfield :: "bytes \<Rightarrow> PeerSession \<Rightarrow> PeerSession" where
  "record_bitfield data ps = ps\<lparr>ps_remote_bitfield :=
     map (\<lambda>i. drop_bit (7 - i mod 8) (data ! (i div 8)) AND 1 \<noteq> 0) [0..<length data * 8]\<rparr>"

definition interested_if_wanted :: "endian \<Rightarrow> conn \<Rightarrow> conn" where
  "interested_if_wanted e cn =
     (case cn of (ps, sc) \<Rightarrow>
        (case sc of None \<Rightarrow> (ps, sc)
         | Some s \<Rightarrow> (if wants_peer s (ps_slot_id ps) then send_interested e ps else ps, sc)))"

definition handle_have_msg :: "endian \<Rightarrow> u64 \<Rightarrow> bytes \<Rightarrow> conn \<Rightarrow> conn option" where
  "handle_have_msg e now data cn =
     (if length data < 4 then None
      else case cn of (ps, sc) \<Rightarrow>
        let ci = unat (read_u32 e 0 data);
            ps1 = record_have ci ps;
            sc1 = map_option (on_have (ps_slot_id ps1) ci now) sc
        in Some (interested_if_wanted e (ps1, sc1)))"

definition handle_bitfield_msg :: "endian \<Rightarrow> u64 \<Rightarrow> bytes \<Rightarrow> conn \<Rightarrow> conn option" where
  "handle_bitfield_msg e now data cn =
     (case cn of (ps, sc) \<Rightarrow>
        let ps1 = record_bitfield data ps;
            sc1 = map_option (on_bitfield (ps_slot_id ps1) (ps_remote_bitfield ps1) now) sc
        in Some (interested_if_wanted e (ps1, sc1)))"

text \<open>A request names a place in the file: the chunk's offset (or a multiple of 128 KiB when the offset
  table does not have the chunk) plus the offset in the chunk, modulo \<open>2 ^ 64\<close>. The read is posted to a
  pool; with sendfile enabled and an idle writer the writer is taken and the zero-copy job is posted.\<close>

definition request_offset :: "PeerSession \<Rightarrow> u32 \<Rightarrow> u32 \<Rightarrow> u64" where
  "request_offset ps index begin =
     (let base_off = (case ps_chunk_offsets ps of
                        Some offs \<Rightarrow> if unat index < length offs then offs ! unat index else ucast index * 131072
                      | None \<Rightarrow> ucast index * 131072)
      in base_off + ucast begin)"

definition handle_request_msg :: "endian \<Rightarrow> bytes \<Rightarrow> conn \<Rightarrow> conn option" where
  "handle_request_msg e data cn =
     (case cn of (ps, sc) \<Rightarrow>
        if ps_choking_peer ps then Some (ps, sc)
        else if length data < 12 then None
        else let index = read_u32 e 0 data; begin = read_u32 e 4 data; len = read_u32 e 8 data
             in if (unat index, unat begin) \<in> ps_cancelled_set ps then Some (ps, sc)
                else if \<not> ps_has_file ps then Some (ps, sc)
                else let file_off = request_offset ps index begin;
                         try_sendfile = (ps_use_sendfile ps \<and> write_queue (ps_writer ps) = [] \<and> \<not> is_writing (ps_writer ps))
                     in if try_sendfile
                        then Some (sess_event (Ev_post_sendfile file_off len index begin)
                                     (ps\<lparr>ps_writer := (ps_writer ps)\<lparr>is_writing := True\<rparr>\<rparr>), sc)
                        else Some (sess_event (Ev_post_read file_off len index begin) ps, sc))"

text \<open>The completion of a posted read: \<open>pread\<close> returned \<open>n\<close>, the buffer is \<open>data\<close>.\<close>

definition add_sent_bytes :: "u32 \<Rightarrow> PeerSession \<Rightarrow> PeerSession" where
  "add_sent_bytes n ps = ps\<lparr>ps_sent_bytes := ps_sent_bytes ps + ucast n\<rparr>"

definition on_read_done :: "endian \<Rightarrow> u32 \<Rightarrow> u32 \<Rightarrow> int \<Rightarrow> bytes \<Rightarrow> PeerSession \<Rightarrow> PeerSession" where
  "on_read_done e idx bg n data ps =
     (if ps_closed ps then ps
      else if n > 0 \<and> data \<noteq> []
      then let msg = build_piece e idx bg (take (nat n) data)
           in send_message msg (add_sent_bytes (of_nat (length msg)) ps)
      else ps)"

text \<open>The zero-copy job: \<open>hn\<close> is what \<open>send\<close> returned for the header, \<open>body\<close> the bytes the sendfile
  call transferred (none when it failed).\<close>

definition sendfile_header :: "endian \<Rightarrow> u32 \<Rightarrow> u32 \<Rightarrow> u32 \<Rightarrow> bytes" where
  "sendfile_header e send_len idx bg =
     (let msg_len = 1 + 8 + send_len
      in mem e 4 (hton32 e msg_len) @ [msg_id_byte PIECE] @ mem e 4 (hton32 e idx) @ mem e 4 (hton32 e bg))"

definition on_sendfile_done :: "nat \<Rightarrow> PeerSession \<Rightarrow> PeerSession" where
  "on_sendfile_done sent_body ps =
     (let ps1 = (if sent_body > 0 then add_sent_bytes (of_nat (13 + sent_body)) ps else ps);
          w = (ps_writer ps1)\<lparr>is_writing := False\<rparr>
      in ps1\<lparr>ps_writer := (if write_queue w \<noteq> [] then do_write w else w)\<rparr>)"

definition sendfile_job :: "endian \<Rightarrow> u32 \<Rightarrow> u32 \<Rightarrow> u32 \<Rightarrow> int \<Rightarrow> bytes \<Rightarrow> PeerSession \<Rightarrow> PeerSession" where
  "sendfile_job e send_len idx bg hn body ps =
     (if ps_closed ps then ps
      else let hdr = sendfile_header e send_len idx bg;
               sent = (if hn = 13 then body else []);
               w = ps_writer ps
           in on_sendfile_done (length sent)
                (ps\<lparr>ps_writer := w\<lparr>wire := wire w @ [take (nat hn) hdr @ sent]\<rparr>\<rparr>))"

definition handle_cancel_msg :: "endian \<Rightarrow> bytes \<Rightarrow> conn \<Rightarrow> conn option" where
  "handle_cancel_msg e data cn =
     (if length data < 8 then None
      else case cn of (ps, sc) \<Rightarrow>
        Some (ps\<lparr>ps_cancelled_set := insert (unat (read_u32 e 0 data), unat (read_u32 e 4 data)) (ps_cancelled_set ps)\<rparr>, sc))"

text \<open>\<open>inet_ntoa\<close> prints the four bytes of the address as they lie in memory.\<close>

definition inet_ntoa :: "endian \<Rightarrow> u32 \<Rightarrow> string" where
  "inet_ntoa e ip =
     (let b = map (\<lambda>x. show_nat (unat x)) (mem e 4 ip)
      in b ! 0 @ ''.'' @ b ! 1 @ ''.'' @ b ! 2 @ ''.'' @ b ! 3)"

definition pex_step :: "endian \<Rightarrow> u8 \<Rightarrow> PexPeer \<Rightarrow> PeerSession \<Rightarrow> PeerSession" where
  "pex_step e op p ps =
     (let is_left = (pex_flags p AND 0x80 \<noteq> 0)
      in if op = 1 \<and> is_left
         then (if ps_has_pex_remove_cb ps
               then sess_event (Ev_pex_remove (inet_ntoa e (pex_ip p)) (ntoh16 e (pex_port p))) ps else ps)
         else if \<not> is_left \<and> ps_has_pex_cb ps
         then sess_event (Ev_pex_peer (inet_ntoa e (pex_ip p)) (ntoh16 e (pex_port p)) (pex_flags p)) ps
         else ps)"

definition handle_pex_msg :: "endian \<Rightarrow> bytes \<Rightarrow> conn \<Rightarrow> conn option" where
  "handle_pex_msg e data cn =
     (case cn of (ps, sc) \<Rightarrow>
        if length data < 3 then Some (ps, sc)
        else let op = data ! 0; cnt = unat (ntoh16 e (unmem e (take 2 (drop 1 data))))
             in if length data < 3 + cnt * 8 then Some (ps, sc)
                else Some (fold (\<lambda>i. pex_step e op (pex_of_mem e (take 8 (drop (3 + i * 8) data)))) [0..<cnt] ps, sc))"

definition inc_pending :: "PeerSession \<Rightarrow> PeerSession" where
  "inc_pending ps = ps\<lparr>ps_pending_requests := ps_pending_requests ps + 1\<rparr>"

definition dec_pending :: "PeerSession \<Rightarrow> PeerSession" where
  "dec_pending ps =
     (if ps_pending_requests ps > 0 then ps\<lparr>ps_pending_requests := ps_pending_requests ps - 1\<rparr> else ps)"

text \<open>\<open>pending_times_\<close>, a \<open>std::map\<close>: an association list in the order of its keys.\<close>

fun times_put :: "nat \<times> nat \<Rightarrow> nat \<Rightarrow> ((nat \<times> nat) \<times> nat) list \<Rightarrow> ((nat \<times> nat) \<times> nat) list" where
  "times_put k v [] = [(k, v)]"
| "times_put k v ((k', v') # es) =
     (if k = k' then (k, v) # es
      else if fst k < fst k' \<or> fst k = fst k' \<and> snd k < snd k' then (k, v) # (k', v') # es
      else (k', v') # times_put k v es)"

definition times_erase :: "nat \<times> nat \<Rightarrow> ((nat \<times> nat) \<times> nat) list \<Rightarrow> ((nat \<times> nat) \<times> nat) list" where
  "times_erase k es = filter (\<lambda>(k', _). k' \<noteq> k) es"

definition note_latency :: "nat \<Rightarrow> nat \<times> nat \<Rightarrow> PeerSession \<Rightarrow> PeerSession" where
  "note_latency now_us key ps =
     (case map_of (ps_pending_times ps) key of
        None \<Rightarrow> ps
      | Some t \<Rightarrow> ps\<lparr>ps_avg_latency_us := LATENCY_EMA_ALPHA * of_nat (now_us - t)
                       + (1 - LATENCY_EMA_ALPHA) * ps_avg_latency_us ps,
                   ps_pending_times := times_erase key (ps_pending_times ps)\<rparr>)"

definition handle_piece_msg :: "endian \<Rightarrow> nat \<Rightarrow> u64 \<Rightarrow> bytes \<Rightarrow> conn \<Rightarrow> conn option" where
  "handle_piece_msg e now_us now data cn =
     (case cn of (ps, sc) \<Rightarrow>
        if length data < 8 \<or> \<not> ps_has_io_pool ps then Some (ps, sc)
        else let index = read_u32 e 0 data; begin = read_u32 e 4 data;
                 ps1 = note_latency now_us (unat index, unat begin) (ps\<lparr>ps_consecutive_timeouts := 0\<rparr>);
                 ps2 = ps1\<lparr>ps_recv_bytes := ps_recv_bytes ps1 + of_nat (length data - 8)\<rparr>;
                 ps3 = sess_event (Ev_piece (unat index) begin (drop 8 data) (ps_slot_id ps2)) ps2;
                 ps4 = dec_pending ps3
             in Some (ps4, map_option (dec_peer_pending (ps_slot_id ps4) (unat index) (unat begin) now) sc))"

definition dispatch_message :: "endian \<Rightarrow> nat \<Rightarrow> u64 \<Rightarrow> frame \<Rightarrow> conn \<Rightarrow> conn option" where
  "dispatch_message e now_us now fr cn =
     (case (fr, cn) of ((i, data), (ps, sc)) \<Rightarrow>
        (case msg_id_of_byte i of
           Some CHOKE \<Rightarrow>
             Some (ps\<lparr>ps_peer_choking_me := True\<rparr>, map_option (on_choke_change (ps_slot_id ps) True) sc)
         | Some UNCHOKE \<Rightarrow>
             let ps1 = ps\<lparr>ps_peer_choking_me := False\<rparr>
             in (case sc of None \<Rightarrow> Some (ps1, None)
                 | Some s \<Rightarrow> let s1 = on_choke_change (ps_slot_id ps1) False s
                            in Some (if missing_count s1 > 0 then send_interested e ps1 else ps1, Some s1))
         | Some INTERESTED \<Rightarrow>
             let ps1 = ps\<lparr>ps_peer_interested := True\<rparr>
             in Some (if ps_choking_peer ps1
                      then send_message (build_message e UNCHOKE []) (ps1\<lparr>ps_choking_peer := False\<rparr>) else ps1, sc)
         | Some NOT_INTERESTED \<Rightarrow> Some (ps\<lparr>ps_peer_interested := False\<rparr>, sc)
         | Some HAVE \<Rightarrow> handle_have_msg e now data cn
         | Some BITFIELD \<Rightarrow> handle_bitfield_msg e now data cn
         | Some REQUEST \<Rightarrow> handle_request_msg e data cn
         | Some PIECE \<Rightarrow> handle_piece_msg e now_us now data cn
         | Some CANCEL \<Rightarrow> handle_cancel_msg e data cn
         | Some PEX \<Rightarrow> handle_pex_msg e data cn
         | None \<Rightarrow> Some cn))"

section \<open>Timers\<close>

definition record_request_sent :: "nat \<Rightarrow> nat \<Rightarrow> nat \<Rightarrow> PeerSession \<Rightarrow> PeerSession" where
  "record_request_sent c begin now_us ps =
     ps\<lparr>ps_pending_times := times_put (c, begin) now_us (ps_pending_times ps)\<rparr>"

text \<open>The scan over \<open>pending_times_\<close>: an entry older than the limit is cancelled, reported to the
  scheduler (the callback \<open>PeerManager::on_peer_connected\<close> installs) and erased.\<close>

definition expire_request :: "endian \<Rightarrow> nat \<times> nat \<Rightarrow> conn \<Rightarrow> conn" where
  "expire_request e key cn =
     (case (key, cn) of ((c, begin), (ps, sc)) \<Rightarrow>
        let ps1 = send_message (build_cancel e (of_nat c) (of_nat begin) SUB_BLOCK_SIZE) ps;
            sc1 = (if ps_has_timeout_cb ps1 then map_option (on_subblock_timeout c begin) sc else sc)
        in (ps1\<lparr>ps_pending_times := times_erase (c, begin) (ps_pending_times ps1),
                ps_consecutive_timeouts := ps_consecutive_timeouts ps1 + 1,
                ps_timeout_count_this_cycle := ps_timeout_count_this_cycle ps1 + 1\<rparr>, sc1))"

fun expire_requests :: "endian \<Rightarrow> nat \<Rightarrow> ((nat \<times> nat) \<times> nat) list \<Rightarrow> conn \<Rightarrow> conn" where
  "expire_requests e now_us [] cn = cn"
| "expire_requests e now_us ((key, t) # es) cn =
     (if (now_us - t) div 1000 \<ge> REQUEST_TIMEOUT_MS
      then expire_requests e now_us es (expire_request e key cn)
      else expire_requests e now_us es cn)"

definition next_cap :: "PeerSession \<Rightarrow> u32" where
  "next_cap ps =
     (if ps_timeout_count_this_cycle ps = 0 \<and> ps_avg_latency_us ps < LATENCY_THRESHOLD_US
      then min (of_int \<lceil>of_nat (unat (ps_pipeline_cap ps)) * PIPELINE_UP_FACTOR\<rceil>) PIPELINE_MAX
      else max (ps_pipeline_cap ps div 2) PIPELINE_MIN)"

definition do_eval_tick :: "endian \<Rightarrow> nat \<Rightarrow> conn \<Rightarrow> conn" where
  "do_eval_tick e now_us cn =
     (case cn of (ps, sc) \<Rightarrow>
        if ps_state ps \<noteq> CONNECTED then (ps, sc)
        else let elapsed_ms = (now_us - ps_last_eval_time ps) div 1000
             in if elapsed_ms < PIPELINE_EVAL_MS then (sess_event (Ev_timer (PIPELINE_EVAL_MS - elapsed_ms)) ps, sc)
                else (case expire_requests e now_us (ps_pending_times ps) (ps\<lparr>ps_last_eval_time := now_us\<rparr>, sc) of
                        (ps1, sc1) \<Rightarrow>
                          if ps_consecutive_timeouts ps1 \<ge> REQUEST_TIMEOUT_LIMIT then (disconnect ps1, sc1)
                          else let ps2 = ps1\<lparr>ps_pipeline_eval_cycles := ps_pipeline_eval_cycles ps1 + 1,
                                             ps_pipeline_cap := next_cap ps1, ps_timeout_count_this_cycle := 0\<rparr>;
                                   sc2 = map_option (sync_slot (ps_slot_id ps2) (ps_pipeline_cap ps2)
                                            (ps_consecutive_timeouts ps2) (of_int \<lfloor>ps_avg_latency_us ps2\<rfloor>)) sc1
                               in (sess_event (Ev_timer PIPELINE_EVAL_MS) ps2, sc2)))"

text \<open>\<open>bytes * 8.0 / elapsed_s / 1000.0\<close>, the time in microseconds.\<close>

definition rate_kbps :: "u64 \<Rightarrow> nat \<Rightarrow> u32" where
  "rate_kbps byte_count elapsed_us =
     of_int \<lfloor>of_nat (unat byte_count) * 8 / (of_nat elapsed_us / 1000000) / (1000 :: rat)\<rfloor>"

definition update_download_rate :: "nat \<Rightarrow> PeerSession \<Rightarrow> PeerSession" where
  "update_download_rate now_us ps =
     (let elapsed = now_us - ps_last_download_eval_time ps;
          ps1 = (if elapsed > 0 then ps\<lparr>ps_download_rate_kbps := rate_kbps (ps_recv_bytes ps) elapsed\<rparr> else ps)
      in ps1\<lparr>ps_recv_bytes := 0, ps_last_download_eval_time := now_us\<rparr>)"

definition update_upload_rate :: "nat \<Rightarrow> PeerSession \<Rightarrow> PeerSession" where
  "update_upload_rate now_us ps =
     (let elapsed = now_us - ps_last_upload_eval_time ps;
          ps1 = (if elapsed > 0 then ps\<lparr>ps_upload_rate_kbps := rate_kbps (ps_sent_bytes ps) elapsed\<rparr> else ps)
      in ps1\<lparr>ps_sent_bytes := 0, ps_last_upload_eval_time := now_us\<rparr>)"

end
