(* ===== verification/Session_Streams.thy ===== *)
theory Session_Streams
  imports Peer_Session "HOL-Library.Sublist"
begin

unbundle bit_operations_syntax

text \<open>
  What a connection guarantees: messages leave in the order they were submitted, one asynchronous
  write at a time, and the other side reads back exactly the messages that were handed to the socket.
  The contract of the write queue is the locale \<open>write_channel\<close>, interpreted on the session's writer.
\<close>

section \<open>The write channel\<close>

datatype 'm chan_op = Submit 'm | Finish

fun submitted :: "'m chan_op list \<Rightarrow> 'm list" where
  "submitted [] = []"
| "submitted (Submit m # ops) = m # submitted ops"
| "submitted (Finish # ops) = submitted ops"

text \<open>A completion happens only for a write in flight.\<close>

fun channel_step :: "('m \<Rightarrow> 'w \<Rightarrow> 'w) \<Rightarrow> ('w \<Rightarrow> 'w) \<Rightarrow> ('w \<Rightarrow> nat) \<Rightarrow> 'm chan_op \<Rightarrow> 'w \<Rightarrow> 'w" where
  "channel_step submit finish flying (Submit m) w = submit m w"
| "channel_step submit finish flying Finish w = (if flying w > 0 then finish w else w)"

locale write_channel =
  fixes submit :: "'m \<Rightarrow> 'w \<Rightarrow> 'w" and finish :: "'w \<Rightarrow> 'w"
    and sent :: "'w \<Rightarrow> 'm list" and waiting :: "'w \<Rightarrow> 'm list" and flying :: "'w \<Rightarrow> nat"
    and ok :: "'w \<Rightarrow> bool"
  assumes ok_submit: "ok w \<Longrightarrow> ok (submit m w)"
    and ok_finish: "ok w \<Longrightarrow> flying w > 0 \<Longrightarrow> ok (finish w)"
    and one_flying: "ok w \<Longrightarrow> flying w \<le> 1"
    and idle_empty: "ok w \<Longrightarrow> flying w = 0 \<Longrightarrow> waiting w = []"
    and submit_content: "ok w \<Longrightarrow> sent (submit m w) @ waiting (submit m w) = sent w @ waiting w @ [m]"
    and finish_content: "ok w \<Longrightarrow> sent (finish w) @ waiting (finish w) = sent w @ waiting w"
    and finish_moves: "ok w \<Longrightarrow> flying w > 0 \<Longrightarrow> length (waiting (finish w)) = length (waiting w) - 1"
begin

abbreviation step where "step \<equiv> channel_step submit finish flying"

lemma step_ok: "ok w \<Longrightarrow> ok (step op w)"
  by (cases op) (auto intro: ok_submit ok_finish)

lemma run_ok: "ok w \<Longrightarrow> ok (fold step ops w)"
  by (induction ops arbitrary: w) (auto intro: step_ok)

lemma run_content:
  "ok w \<Longrightarrow> sent (fold step ops w) @ waiting (fold step ops w) = sent w @ waiting w @ submitted ops"
proof (induction ops arbitrary: w)
  case (Cons op ops)
  then show ?case
    using Cons.IH[OF step_ok[OF Cons.prems, of op]] submit_content[OF Cons.prems] finish_content[OF Cons.prems]
    by (cases op) (auto simp flip: append_assoc)
qed simp

lemma finishes_drain:
  "ok w \<Longrightarrow> n \<ge> length (waiting w) \<Longrightarrow> waiting (fold step (replicate n Finish) w) = []"
proof (induction n arbitrary: w)
  case (Suc n)
  show ?case
  proof (cases "flying w > 0")
    case True
    then show ?thesis
      using Suc.IH[OF ok_finish[OF Suc.prems(1) True]] finish_moves[OF Suc.prems(1) True] Suc.prems(2) by simp
  next
    case False
    then show ?thesis using Suc.IH[OF Suc.prems(1)] idle_empty[OF Suc.prems(1)] by simp
  qed
qed simp

lemma all_delivered:
  assumes "ok w" "n \<ge> length (waiting (fold step ops w))"
  shows "sent (fold step (ops @ replicate n Finish) w) = sent w @ waiting w @ submitted ops"
proof -
  let ?v = "fold step ops w"
  have sub: "submitted (replicate k Finish) = []" for k by (induction k) simp_all
  show ?thesis
    using run_content[OF run_ok[OF assms(1)], of "replicate n Finish" ops] finishes_drain[OF run_ok[OF assms(1)] assms(2)]
      run_content[OF assms(1), of ops] by (simp add: sub)
qed

end

text \<open>The session's writer keeps the contract as long as only \<open>send_message\<close> and write completions
  touch it.\<close>

definition writer_ok :: "writer \<Rightarrow> bool" where
  "writer_ok w \<longleftrightarrow> in_flight w = (if is_writing w then 1 else 0) \<and> (\<not> is_writing w \<longrightarrow> write_queue w = [])"

lemmas writer_defs = queue_message_def write_done_def do_write_def Let_def

interpretation wc: write_channel queue_message write_done wire write_queue in_flight writer_ok
proof unfold_locales
  fix w m
  show "writer_ok w \<Longrightarrow> writer_ok (queue_message m w)"
    by (auto simp: writer_ok_def writer_defs split: list.splits)
  show "writer_ok w \<Longrightarrow> in_flight w > 0 \<Longrightarrow> writer_ok (write_done w)"
    by (auto simp: writer_ok_def writer_defs split: list.splits if_splits)
  show "writer_ok w \<Longrightarrow> in_flight w \<le> 1" by (simp add: writer_ok_def)
  show "writer_ok w \<Longrightarrow> in_flight w = 0 \<Longrightarrow> write_queue w = []" by (auto simp: writer_ok_def split: if_splits)
  show "writer_ok w \<Longrightarrow> wire (queue_message m w) @ write_queue (queue_message m w) = wire w @ write_queue w @ [m]"
    by (auto simp: writer_ok_def writer_defs split: list.splits)
  show "writer_ok w \<Longrightarrow> wire (write_done w) @ write_queue (write_done w) = wire w @ write_queue w"
    by (auto simp: writer_defs split: list.splits)
  show "writer_ok w \<Longrightarrow> in_flight w > 0 \<Longrightarrow> length (write_queue (write_done w)) = length (write_queue w) - 1"
    by (auto simp: writer_defs split: list.splits)
qed

section \<open>Framing\<close>

lemma read_frames_built:
  assumes "length payload \<le> 65536"
  shows "read_frames e' (build_message e i payload @ rest) = (msg_id_byte i, payload) # read_frames e' rest"
proof -
  have n: "unat (of_nat (length payload) :: u32) = length payload"
    using assms by (intro unat_of_nat_u32) simp
  have d: "drop 5 (build_message e i payload @ rest) = payload @ rest"
    by (simp add: build_message_bytes)
  have m: "\<not> (of_nat (length payload) :: u32) > MAX_MSG_SIZE"
    using assms n by (simp add: MAX_MSG_SIZE_def word_less_nat_alt)
  define b where "b = build_message e i payload @ rest"
  have "parse_message_header e' (take 5 b) = Some (1 + of_nat (length payload), msg_id_byte i)"
    using parse_built_header[of payload e' e i rest] assms by (simp add: b_def)
  then have "read_frames e' b = (msg_id_byte i, payload) # read_frames e' rest"
    using d n m unfolding b_def[symmetric] by (subst read_frames.simps) (simp add: Let_def)
  then show ?thesis by (simp only: b_def)
qed

lemma read_frames_stream:
  assumes "\<forall>(i, payload) \<in> set msgs. length payload \<le> 65536"
  shows "read_frames e' (concat (map (\<lambda>(i, payload). build_message e i payload) msgs) @ rest)
     = map (\<lambda>(i, payload). (msg_id_byte i, payload)) msgs @ read_frames e' rest"
  using assms by (induction msgs) (auto simp: read_frames_built)

definition writer_run :: "bytes chan_op list \<Rightarrow> writer \<Rightarrow> writer" where
  "writer_run ops w = fold (channel_step queue_message write_done in_flight) ops w"

lemma new_writer_ok: "writer_ok (ps_writer (new_session ih speed port sf now))"
  by (simp add: writer_ok_def new_session_def)


definition example_writes :: "bytes chan_op list" where
  "example_writes = [Submit (build_message Little INTERESTED []), Submit (build_message Little HAVE [0, 0, 0, 7]), Finish, Finish]"


section \<open>Bitfields\<close>

lemma bit_test: "drop_bit n (b :: u8) AND 1 \<noteq> 0 \<longleftrightarrow> bit b n"
  by (simp add: and_one_eq odd_iff_mod_2_eq_one bit_iff_odd_drop_bit flip: mod_2_eq_odd)

text \<open>A bitfield survives the wire up to the size limit the message buffer is made for: for at most
  524288 chunks the receiver reads one message, and the bitfield it records is the sender's, padded with
  False to a whole number of bytes.\<close>

theorem bitfield_roundtrip:
  assumes "length have_bits \<le> 524288"
  shows "\<exists>data. read_frames e' (build_bitfield e have_bits) = [(msg_id_byte BITFIELD, data)]
     \<and> ps_remote_bitfield (record_bitfield data ps) = have_bits @ replicate (8 * length data - length have_bits) False
     \<and> 8 * length data < length have_bits + 8"
proof -
  let ?d = "bitfield_bytes have_bits" and ?n = "length have_bits"
  have n: "?n < 2 ^ 32 - 7" using assms by simp
  note f = bitfield_bytes_facts[OF n]
  have "read_frames e' (build_bitfield e have_bits) = [(msg_id_byte BITFIELD, ?d)]"
    using read_frames_built[of ?d e' e BITFIELD "[]"] assms f(1)
    by (simp add: build_bitfield_def read_frames.simps[of e' "[]"] parse_message_header_def)
  moreover have "ps_remote_bitfield (record_bitfield ?d ps) = have_bits @ replicate (8 * length ?d - ?n) False"
  proof (rule nth_equalityI)
    show "length (ps_remote_bitfield (record_bitfield ?d ps)) = length (have_bits @ replicate (8 * length ?d - ?n) False)"
      using f(1) by (simp add: record_bitfield_def)
    fix j assume "j < length (ps_remote_bitfield (record_bitfield ?d ps))"
    then have j: "j < length ?d * 8" by (simp add: record_bitfield_def)
    then have "j div 8 < (?n + 7) div 8" using f(1) by (simp add: less_mult_imp_div_less)
    from f(2)[OF this] j
    show "ps_remote_bitfield (record_bitfield ?d ps) ! j = (have_bits @ replicate (8 * length ?d - ?n) False) ! j"
      by (simp add: record_bitfield_def bit_test nth_append)
  qed
  moreover have "8 * length ?d < ?n + 8" using f(1) by simp
  ultimately show ?thesis by blast
qed

theorem bitfield_roundtrip_witness:
  "\<exists>data. read_frames Little (build_bitfield Big [True, False, True]) = [(msg_id_byte BITFIELD, data)]
     \<and> ps_remote_bitfield (record_bitfield data (new_session [] 0 0 False 0))
         = [True, False, True] @ replicate (8 * length data - 3) False"
  using bitfield_roundtrip[of "[True, False, True]" Little Big "new_session [] 0 0 False 0"] by auto

end
