(* ===== verification/Session_Runs.thy ===== *)
theory Session_Runs
  imports Session_Streams
begin

unbundle bit_operations_syntax

text \<open>
  A session over time: runs of received messages, the zero-copy upload path against the ordinary one,
  the periodic evaluation of timeouts and pipeline, and the handshake between two sessions.
\<close>

section \<open>Uploading\<close>

lemma sendfile_header_piece:
  assumes "length data = unat len"
  shows "sendfile_header e len idx bg @ data = build_piece e idx bg data"
  using assms by (simp add: sendfile_header_def build_piece_def Let_def)

lemma length_sendfile_header [simp]: "length (sendfile_header e len idx bg) = 13"
  by (simp add: sendfile_header_def Let_def)

lemma length_build_piece: "length (build_piece e idx bg data) = 13 + length data"
  by (simp add: build_piece_def)



definition uploading :: PeerSession where
  "uploading = (new_session [] 0 0 True 0)\<lparr>ps_choking_peer := False, ps_has_file := True\<rparr>"

text \<open>The zero-copy path breaks the one-write-at-a-time rule of the writer. A message submitted
  while the job runs is written when the job ends, with the writing flag already cleared; the next
  message submitted then starts a second asynchronous write on the same socket.\<close>

theorem sendfile_overlap:
  "\<exists>ps. handle_request_msg e (be_bytes 4 (0 :: u32) @ be_bytes 4 (0 :: u32) @ be_bytes 4 (16384 :: u32)) (uploading, None)
       = Some (ps, None)
     \<and> in_flight (ps_writer (send_message b (sendfile_job e 16384 0 0 13 body (send_message a ps)))) = 2"
  by (simp add: handle_request_msg_def uploading_def new_session_def read_u32_def Let_def sess_event_def
      sendfile_job_def on_sendfile_done_def send_message_def add_sent_bytes_def writer_defs)

section \<open>Runs of messages\<close>

fun dispatch_all :: "endian \<Rightarrow> nat \<Rightarrow> u64 \<Rightarrow> frame list \<Rightarrow> conn \<Rightarrow> conn option" where
  "dispatch_all e now_us now [] cn = Some cn"
| "dispatch_all e now_us now (fr # frs) cn =
     Option.bind (dispatch_message e now_us now fr cn) (dispatch_all e now_us now frs)"

text \<open>The bytes a handler copies without looking at the length of the body.\<close>

definition needed_bytes :: "PeerSession \<Rightarrow> u8 \<Rightarrow> nat" where
  "needed_bytes ps i =
     (case msg_id_of_byte i of
        Some HAVE \<Rightarrow> 4
      | Some REQUEST \<Rightarrow> (if ps_choking_peer ps then 0 else 12)
      | Some CANCEL \<Rightarrow> 8
      | _ \<Rightarrow> 0)"

lemmas handler_defs = handle_have_msg_def handle_bitfield_msg_def handle_request_msg_def handle_piece_msg_def
  handle_cancel_msg_def handle_pex_msg_def


text \<open>Events are only appended, and cancellations are never forgotten.\<close>

definition serves :: "u32 \<Rightarrow> u32 \<Rightarrow> session_event \<Rightarrow> bool" where
  "serves idx bg ev \<longleftrightarrow> (case ev of Ev_post_read _ _ i b \<Rightarrow> i = idx \<and> b = bg
     | Ev_post_sendfile _ _ i b \<Rightarrow> i = idx \<and> b = bg | _ \<Rightarrow> False)"

definition refuses :: "u32 \<Rightarrow> u32 \<Rightarrow> PeerSession \<Rightarrow> PeerSession \<Rightarrow> bool" where
  "refuses idx bg ps ps' \<longleftrightarrow> (\<exists>evs. ps_events ps' = ps_events ps @ evs \<and> (\<forall>ev \<in> set evs. \<not> serves idx bg ev))
     \<and> ps_cancelled_set ps \<subseteq> ps_cancelled_set ps'"

lemma refuses_refl [simp]: "refuses idx bg ps ps"
  by (simp add: refuses_def)

lemma refuses_trans: "refuses idx bg ps ps1 \<Longrightarrow> refuses idx bg ps1 ps2 \<Longrightarrow> refuses idx bg ps ps2"
  unfolding refuses_def by (auto 0 3)

lemma refuses_same: "ps_events ps' = ps_events ps \<Longrightarrow> ps_cancelled_set ps' = ps_cancelled_set ps \<Longrightarrow> refuses idx bg ps ps'"
  by (simp add: refuses_def)

lemma refuses_event: "\<not> serves idx bg ev \<Longrightarrow> refuses idx bg ps (sess_event ev ps)"
  by (simp add: refuses_def sess_event_def)

lemma send_fields [simp]:
  "ps_events (send_message m ps) = ps_events ps" "ps_cancelled_set (send_message m ps) = ps_cancelled_set ps"
  "ps_events (send_interested e ps) = ps_events ps" "ps_cancelled_set (send_interested e ps) = ps_cancelled_set ps"
  "ps_events (dec_pending ps) = ps_events ps" "ps_cancelled_set (dec_pending ps) = ps_cancelled_set ps"
  "ps_events (note_latency t k ps) = ps_events ps" "ps_cancelled_set (note_latency t k ps) = ps_cancelled_set ps"
  "ps_events (record_have c ps) = ps_events ps" "ps_cancelled_set (record_have c ps) = ps_cancelled_set ps"
  "ps_events (record_bitfield d ps) = ps_events ps" "ps_cancelled_set (record_bitfield d ps) = ps_cancelled_set ps"
  by (simp_all add: send_message_def send_interested_def dec_pending_def note_latency_def record_have_def record_bitfield_def
      split: option.split)

lemma interested_refuses: "refuses idx bg ps (fst (interested_if_wanted e (ps, sc)))"
  by (auto simp: interested_if_wanted_def intro: refuses_same split: option.split)

lemma pex_refuses: "refuses idx bg ps (fold (\<lambda>i. pex_step e op (f i)) is ps)"
proof (induction "is" arbitrary: ps)
  case (Cons i "is")
  have "refuses idx bg ps (pex_step e op (f i) ps)"
    by (auto simp: pex_step_def Let_def serves_def intro: refuses_event)
  then show ?case using refuses_trans[OF _ Cons.IH] by simp
qed simp

lemma have_refuses: "handle_have_msg e now data (ps, sc) = Some cn \<Longrightarrow> refuses idx bg ps (fst cn)"
  by (auto simp: handle_have_msg_def Let_def split: if_splits
      intro: refuses_trans[OF refuses_same interested_refuses])

lemma bitfield_refuses: "handle_bitfield_msg e now data (ps, sc) = Some cn \<Longrightarrow> refuses idx bg ps (fst cn)"
  by (auto simp: handle_bitfield_msg_def Let_def intro: refuses_trans[OF refuses_same interested_refuses])

lemma cancel_refuses: "handle_cancel_msg e data (ps, sc) = Some cn \<Longrightarrow> refuses idx bg ps (fst cn)"
  by (auto simp: handle_cancel_msg_def refuses_def split: if_splits)

lemma pex_msg_refuses: "handle_pex_msg e data (ps, sc) = Some cn \<Longrightarrow> refuses idx bg ps (fst cn)"
  by (auto simp: handle_pex_msg_def Let_def pex_refuses split: if_splits)

lemma piece_refuses: "handle_piece_msg e now_us now data (ps, sc) = Some cn \<Longrightarrow> refuses idx bg ps (fst cn)"
  by (auto simp: handle_piece_msg_def Let_def refuses_def sess_event_def serves_def split: if_splits)

lemma request_refuses:
  assumes "handle_request_msg e data (ps, sc) = Some cn" "(unat idx, unat bg) \<in> ps_cancelled_set ps"
  shows "refuses idx bg ps (fst cn)"
  using assms by (auto simp: handle_request_msg_def Let_def refuses_def sess_event_def serves_def split: if_splits)

lemma dispatch_refuses:
  assumes "dispatch_message e now_us now fr (ps, sc) = Some cn" "(unat idx, unat bg) \<in> ps_cancelled_set ps"
  shows "refuses idx bg ps (fst cn)"
proof (cases "msg_id_of_byte (fst fr)")
  case (Some i)
  then show ?thesis
    using assms have_refuses bitfield_refuses cancel_refuses pex_msg_refuses piece_refuses request_refuses
    by (cases i) (auto simp: dispatch_message_def Let_def intro!: refuses_same split: prod.splits option.splits if_splits)
qed (use assms in \<open>auto simp: dispatch_message_def split: prod.splits\<close>)

lemma dispatch_all_refuses:
  assumes "dispatch_all e now_us now frs (ps, sc) = Some cn" "(unat idx, unat bg) \<in> ps_cancelled_set ps"
  shows "refuses idx bg ps (fst cn)"
  using assms
proof (induction frs arbitrary: ps sc)
  case (Cons fr frs)
  obtain ps1 sc1 where d: "dispatch_message e now_us now fr (ps, sc) = Some (ps1, sc1)"
    and r: "dispatch_all e now_us now frs (ps1, sc1) = Some cn"
    using Cons.prems(1) by (auto simp: bind_eq_Some_conv)
  have 1: "refuses idx bg ps ps1" using dispatch_refuses[OF d Cons.prems(2)] by simp
  then have "(unat idx, unat bg) \<in> ps_cancelled_set ps1" using Cons.prems(2) by (auto simp: refuses_def)
  then show ?case using Cons.IH[OF r] 1 refuses_trans by blast
qed auto

text \<open>A cancelled sub-block is never served again: once a CANCEL for it has been handled, no
  sequence of messages on the connection makes the session read that sub-block from the file, a new
  REQUEST for it included.\<close>

theorem cancelled_never_served:
  assumes "handle_cancel_msg e data (ps, sc) = Some (ps1, sc1)"
    and "dispatch_all e now_us now frs (ps1, sc1) = Some (ps2, sc2)"
  shows "\<exists>evs. ps_events ps2 = ps_events ps @ evs \<and> (\<forall>ev \<in> set evs. \<not> serves (read_u32 e 0 data) (read_u32 e 4 data) ev)"
proof -
  have "(unat (read_u32 e 0 data), unat (read_u32 e 4 data)) \<in> ps_cancelled_set ps1"
    using assms(1) by (auto simp: handle_cancel_msg_def split: if_splits)
  from dispatch_all_refuses[OF assms(2) this]
  show ?thesis
    using assms(1) by (auto simp: refuses_def handle_cancel_msg_def split: if_splits)
qed

definition cancel_body :: bytes where
  "cancel_body = [0, 0, 0, 1, 0, 0, 0, 0, 0, 0, 64, 0]"

theorem cancelled_never_served_witness:
  "\<exists>ps1 ps2. handle_cancel_msg Little cancel_body (uploading, None) = Some (ps1, None)
     \<and> dispatch_all Little 0 0 [(msg_id_byte REQUEST, cancel_body)] (ps1, None) = Some (ps2, None)
     \<and> (\<exists>evs. ps_events ps2 = ps_events uploading @ evs
          \<and> (\<forall>ev \<in> set evs. \<not> serves (read_u32 Little 0 cancel_body) (read_u32 Little 4 cancel_body) ev))"
proof -
  define ps1 where "ps1 = uploading\<lparr>ps_cancelled_set := {(unat (read_u32 Little 0 cancel_body), unat (read_u32 Little 4 cancel_body))}\<rparr>"
  have 1: "handle_cancel_msg Little cancel_body (uploading, None) = Some (ps1, None)"
    by (simp add: handle_cancel_msg_def ps1_def) (simp add: cancel_body_def uploading_def new_session_def)
  have "length cancel_body = 12" by (simp add: cancel_body_def)
  then have 2: "dispatch_all Little 0 0 [(msg_id_byte REQUEST, cancel_body)] (ps1, None) = Some (ps1, None)"
    by (simp add: dispatch_message_def handle_request_msg_def Let_def ps1_def del: msg_id_byte.simps)
  show ?thesis using cancelled_never_served[OF 1 2] 1 2 by blast
qed

section \<open>The periodic evaluation\<close>

lemma expire_request_times [simp]:
  "ps_pending_times (fst (expire_request e key cn)) = times_erase key (ps_pending_times (fst cn))"
  by (simp add: expire_request_def Let_def send_message_def split: prod.split)

lemma expire_request_keeps [simp]:
  "ps_pipeline_cap (fst (expire_request e key cn)) = ps_pipeline_cap (fst cn)"
  "ps_state (fst (expire_request e key cn)) = ps_state (fst cn)"
  "ps_pipeline_eval_cycles (fst (expire_request e key cn)) = ps_pipeline_eval_cycles (fst cn)"
  by (simp_all add: expire_request_def Let_def send_message_def split: prod.split)

lemma expire_requests_keeps [simp]:
  "ps_pipeline_cap (fst (expire_requests e now es cn)) = ps_pipeline_cap (fst cn)"
  "ps_state (fst (expire_requests e now es cn)) = ps_state (fst cn)"
  "ps_pipeline_eval_cycles (fst (expire_requests e now es cn)) = ps_pipeline_eval_cycles (fst cn)"
  by (induction e now es cn rule: expire_requests.induct) (simp_all del: expire_requests.simps add: expire_requests.simps(1,2))

definition expired :: "nat \<Rightarrow> nat \<Rightarrow> bool" where
  "expired now t \<longleftrightarrow> (now - t) div 1000 \<ge> REQUEST_TIMEOUT_MS"

lemma expire_requests_times:
  "ps_pending_times (fst (expire_requests e now es cn))
     = filter (\<lambda>(k, _). k \<notin> fst ` set (filter (\<lambda>(_, t). expired now t) es)) (ps_pending_times (fst cn))"
proof (induction e now es cn rule: expire_requests.induct)
  case (2 e now key t es cn)
  then show ?case
    by (cases "expired now t") (auto simp: expired_def times_erase_def case_prod_beta conj_commute intro!: filter_cong)
qed simp

lemma next_cap_bounds:
  assumes "8 \<le> ps_pipeline_cap ps" "ps_pipeline_cap ps \<le> 128"
  shows "8 \<le> next_cap ps" "next_cap ps \<le> 100"
proof -
  let ?c = "ps_pipeline_cap ps"
  have n: "8 \<le> unat ?c" "unat ?c \<le> 128" using assms by (simp_all add: word_le_nat_alt)
  define z where "z = \<lceil>of_nat (unat ?c) * (3 / 2 :: rat)\<rceil>"
  have lo: "12 \<le> z" and hi: "z \<le> 192"
  proof -
    have "of_nat 8 \<le> (of_nat (unat ?c) :: rat)" "of_nat (unat ?c) \<le> (of_nat 128 :: rat)"
      using n by (simp_all only: of_nat_le_iff)
    then show "12 \<le> z" "z \<le> 192" by (simp_all add: z_def ceiling_le_iff le_ceiling_iff)
  qed
  then have z: "unat (of_int z :: u32) = nat z" by (simp add: unat_eq_nat_uint uint_word_of_int)
  have "unat (of_int z :: u32) \<ge> 8" using z lo by simp
  then have up: "8 \<le> (of_int z :: u32)" by (simp add: word_le_nat_alt)
  have "unat (?c div 2) \<le> 100" using n by (simp add: unat_div)
  then have "?c div 2 \<le> 100" by (simp add: word_le_nat_alt)
  then show "8 \<le> next_cap ps" "next_cap ps \<le> 100"
    using up unfolding next_cap_def PIPELINE_UP_FACTOR_def z_def[symmetric]
    by (auto simp: PIPELINE_MAX_def PIPELINE_MIN_def)
qed

lemma find_slot_upd:
  "(\<And>q. slot_id (f q) = slot_id q) \<Longrightarrow> find_slot sid (ps[p := f (ps ! p)]) = find_slot sid ps"
  by (induction ps arbitrary: p) (auto split: nat.split)

lemma sync_slot_cap:
  assumes "peer_slot (sync_slot sid cap tmo rtt s) sid = Some p"
  shows "pipeline_cap (peer_slots (sync_slot sid cap tmo rtt s) ! p) = cap"
proof (cases "peer_slot s sid")
  case (Some q)
  have "q < length (peer_slots s)" using Some find_slot_Some by (simp add: peer_slot_def)
  moreover have "p = q"
    using assms Some find_slot_upd[of "\<lambda>q. q\<lparr>pipeline_cap := cap, consecutive_timeouts := tmo, rtt_us := rtt\<rparr>" sid]
    by (simp add: sync_slot_def peer_slot_def upd_peer_def)
  ultimately show ?thesis using Some by (simp add: sync_slot_def upd_peer_def)
qed (use assms in \<open>simp add: sync_slot_def\<close>)

text \<open>The pipeline stays bounded: the evaluation keeps the number of requests a session may have
  outstanding between 8 and 128, and each completed evaluation brings it to at most 100 and tells the
  scheduler the same value.\<close>

theorem eval_tick_cap:
  assumes "8 \<le> ps_pipeline_cap ps" "ps_pipeline_cap ps \<le> 128"
    and "do_eval_tick e now (ps, sc) = (ps', sc')"
  shows "8 \<le> ps_pipeline_cap ps' \<and> ps_pipeline_cap ps' \<le> 128
     \<and> (ps_pipeline_eval_cycles ps' \<noteq> ps_pipeline_eval_cycles ps \<longrightarrow>
          ps_pipeline_cap ps' \<le> 100
          \<and> (\<forall>s p. sc' = Some s \<longrightarrow> peer_slot s (ps_slot_id ps') = Some p \<longrightarrow>
               pipeline_cap (peer_slots s ! p) = ps_pipeline_cap ps'))"
proof -
  define r where "r = expire_requests e now (ps_pending_times ps) (ps\<lparr>ps_last_eval_time := now\<rparr>, sc)"
  have r: "ps_pipeline_cap (fst r) = ps_pipeline_cap ps" "ps_pipeline_eval_cycles (fst r) = ps_pipeline_eval_cycles ps"
    by (simp_all add: r_def)
  note b = next_cap_bounds[of "fst r", unfolded r(1), OF assms(1,2)]
  have "next_cap (fst r) \<le> 128" using b(2) by (rule order_trans) simp
  then show ?thesis
    using assms r b
    by (auto simp: do_eval_tick_def Let_def sess_event_def disconnect_def sync_slot_cap simp flip: r_def
        split: if_splits prod.splits)
qed

theorem eval_tick_cap_witness:
  "ps_pipeline_cap (fst (do_eval_tick Little 600000 ((new_session [] 0 0 False 0)\<lparr>ps_state := CONNECTED\<rparr>, None))) \<le> 100"
proof -
  let ?ps = "(new_session [] 0 0 False 0)\<lparr>ps_state := CONNECTED\<rparr>"
  have "ps_pipeline_eval_cycles (fst (do_eval_tick Little 600000 (?ps, None))) \<noteq> ps_pipeline_eval_cycles ?ps"
    by (simp add: do_eval_tick_def new_session_def PIPELINE_EVAL_MS_def REQUEST_TIMEOUT_LIMIT_def Let_def sess_event_def)
  then show ?thesis
    using eval_tick_cap[of ?ps Little 600000 None, OF _ _ prod.collapse[symmetric]]
    by (simp add: new_session_def)
qed

text \<open>Everything submitted for writing so far.\<close>

definition outbox :: "PeerSession \<Rightarrow> bytes list" where
  "outbox ps = wire (ps_writer ps) @ write_queue (ps_writer ps)"

lemma outbox_send [simp]: "outbox (send_message m ps) = outbox ps @ [m]"
  by (auto simp: outbox_def send_message_def writer_defs split: list.split)

definition cancel_of :: "endian \<Rightarrow> (nat \<times> nat) \<times> nat \<Rightarrow> bytes" where
  "cancel_of e entry = (case entry of ((c, begin), _) \<Rightarrow> build_cancel e (of_nat c) (of_nat begin) SUB_BLOCK_SIZE)"

lemma expire_request_effect:
  "outbox (fst (expire_request e key cn)) = outbox (fst cn) @ [cancel_of e (key, t)]"
  "ps_consecutive_timeouts (fst (expire_request e key cn)) = ps_consecutive_timeouts (fst cn) + 1"
proof -
  obtain c b ps sc where [simp]: "key = (c, b)" "cn = (ps, sc)" by (metis surj_pair)
  have "outbox (ps\<lparr>ps_pending_times := x, ps_consecutive_timeouts := y, ps_timeout_count_this_cycle := z\<rparr>) = outbox ps" for ps x y z
    by (simp add: outbox_def)
  then show "outbox (fst (expire_request e key cn)) = outbox (fst cn) @ [cancel_of e (key, t)]"
    by (simp add: expire_request_def Let_def cancel_of_def)
  show "ps_consecutive_timeouts (fst (expire_request e key cn)) = ps_consecutive_timeouts (fst cn) + 1"
    by (simp add: expire_request_def Let_def send_message_def)
qed

lemma expire_requests_effect:
  "outbox (fst (expire_requests e now es cn)) = outbox (fst cn) @ map (cancel_of e) (filter (\<lambda>(_, t). expired now t) es)
   \<and> ps_consecutive_timeouts (fst (expire_requests e now es cn))
       = ps_consecutive_timeouts (fst cn) + of_nat (length (filter (\<lambda>(_, t). expired now t) es))"
proof (induction e now es cn rule: expire_requests.induct)
  case (2 e now key t es cn)
  then show ?case
    using expire_request_effect(1)[of e key cn t] expire_request_effect(2)[of e key cn] by (cases "expired now t") (simp_all add: expired_def)
qed simp

lemma distinct_keys_filter:
  assumes "distinct (map fst es)"
  shows "filter (\<lambda>(k, _). k \<notin> fst ` set (filter (\<lambda>(_, t). P t) es)) es = filter (\<lambda>(_, t). \<not> P t) es"
proof (rule filter_cong[OF refl])
  fix x assume x: "x \<in> set es"
  obtain k t where [simp]: "x = (k, t)" by (metis surj_pair)
  have "k \<in> fst ` set (filter (\<lambda>(_, t). P t) es) \<longleftrightarrow> (\<exists>t'. (k, t') \<in> set es \<and> P t')" by force
  also have "\<dots> \<longleftrightarrow> P t" using x eq_key_imp_eq_value[OF assms] by auto
  finally show "(case x of (k, _) \<Rightarrow> k \<notin> fst ` set (filter (\<lambda>(_, t). P t) es)) = (case x of (_, t) \<Rightarrow> \<not> P t)"
    by simp
qed

text \<open>Fast fail: an evaluation sends one CANCEL for each request outstanding for three seconds or
  more, in the order of the pending map, forgets exactly those requests, and drops the connection exactly
  when the run of consecutive timeouts has reached three.\<close>

theorem eval_tick_timeouts:
  assumes "ps_state ps = CONNECTED" "(now - ps_last_eval_time ps) div 1000 \<ge> PIPELINE_EVAL_MS"
    and "distinct (map fst (ps_pending_times ps))" "do_eval_tick e now (ps, sc) = (ps', sc')"
  shows "outbox ps' = outbox ps @ map (cancel_of e) (filter (\<lambda>(_, t). expired now t) (ps_pending_times ps))
     \<and> ps_pending_times ps' = filter (\<lambda>(_, t). \<not> expired now t) (ps_pending_times ps)
     \<and> (ps_state ps' = DISCONNECTED \<longleftrightarrow>
          3 \<le> ps_consecutive_timeouts ps + of_nat (length (filter (\<lambda>(_, t). expired now t) (ps_pending_times ps))))"
proof -
  define r where "r = expire_requests e now (ps_pending_times ps) (ps\<lparr>ps_last_eval_time := now\<rparr>, sc)"
  note ef = expire_requests_effect[of e now "ps_pending_times ps" "(ps\<lparr>ps_last_eval_time := now\<rparr>, sc)", folded r_def]
  have t: "ps_pending_times (fst r) = filter (\<lambda>(_, t). \<not> expired now t) (ps_pending_times ps)"
    using expire_requests_times[of e now "ps_pending_times ps" "(ps\<lparr>ps_last_eval_time := now\<rparr>, sc)", folded r_def]
      distinct_keys_filter[OF assms(3), of "expired now"] by simp
  have s: "ps_state (fst r) = CONNECTED" using assms(1) by (simp add: r_def)
  have o: "outbox (ps\<lparr>ps_last_eval_time := now\<rparr>) = outbox ps" by (simp add: outbox_def)
  have d: "(if ps_consecutive_timeouts (fst r) \<ge> REQUEST_TIMEOUT_LIMIT then ps' = disconnect (fst r)
      else \<exists>x. ps' = x \<and> ps_writer x = ps_writer (fst r) \<and> ps_pending_times x = ps_pending_times (fst r) \<and> ps_state x = CONNECTED)"
    using assms(1,2,4) s
    by (auto simp: do_eval_tick_def Let_def sess_event_def simp flip: r_def split: prod.splits)
  show ?thesis
    using d ef t s o by (auto simp: outbox_def disconnect_def REQUEST_TIMEOUT_LIMIT_def sess_event_def Let_def split: if_splits)
qed

definition waiting_session :: PeerSession where
  "waiting_session = (new_session [] 0 0 False 0)\<lparr>ps_state := CONNECTED,
     ps_pending_times := [((0, 0), 0), ((0, 16384), 4000000)]\<rparr>"

theorem eval_tick_timeouts_witness:
  "ps_pending_times (fst (do_eval_tick Little 5000000 (waiting_session, None))) = [((0, 16384), 4000000)]
   \<and> outbox (fst (do_eval_tick Little 5000000 (waiting_session, None))) = [build_cancel Little 0 0 SUB_BLOCK_SIZE]"
  using eval_tick_timeouts[of waiting_session 5000000 Little None, OF _ _ _ prod.collapse[symmetric]]
  by (simp add: waiting_session_def new_session_def PIPELINE_EVAL_MS_def expired_def REQUEST_TIMEOUT_MS_def cancel_of_def outbox_def)

section \<open>The handshake\<close>

lemma handle_sent_handshake:
  assumes "length (ps_info_hash a) = 20" "length rnd = 20"
  shows "\<exists>m. outbox (send_handshake e rnd a) = outbox a @ [m]
     \<and> (\<exists>g. parse_handshake e' m = Some g \<and> hs_info_hash g = ps_info_hash a
          \<and> hs_speed_mbps g = ps_local_speed_mbps a \<and> handshake_listen_port e' g = ps_local_listen_port a)"
proof -
  let ?h = "empty_handshake\<lparr>hs_peer_id := rnd\<rparr>"
  have "wf_handshake ?h" using assms(2) by (simp add: wf_handshake_def empty_handshake_def)
  moreover have "(handshake_build e empty_handshake ih s p)\<lparr>hs_peer_id := rnd\<rparr> = handshake_build e ?h ih s p" for ih s p
    by (simp add: handshake_build_def)
  moreover have "outbox (x\<lparr>ps_handshake_sent := b\<rparr>) = outbox x" for x b by (simp add: outbox_def)
  ultimately show ?thesis
    using parse_built_handshake[OF assms(1), of ?h e' e "ps_local_speed_mbps a" "ps_local_listen_port a"] assms(2)
    by (auto simp: send_handshake_def Let_def)
qed

lemma accept_handshake:
  assumes "parse_handshake e m = Some g" "hs_info_hash g = ps_info_hash ps"
  shows "ps_state (handle_handshake e t rnd (Some m) ps) = CONNECTED
     \<and> ps_remote_speed_mbps (handle_handshake e t rnd (Some m) ps) = hs_speed_mbps g
     \<and> ps_remote_listen_port (handle_handshake e t rnd (Some m) ps) = handshake_listen_port e g
     \<and> (\<not> ps_handshake_sent ps \<longrightarrow> outbox (handle_handshake e t rnd (Some m) ps)
          = outbox (send_handshake e rnd (ps\<lparr>ps_remote_speed_mbps := hs_speed_mbps g,
              ps_remote_listen_port := handshake_listen_port e g\<rparr>)))"
  using assms
  by (simp add: handle_handshake_def Let_def start_eval_timer_def sess_event_def send_handshake_def send_message_def outbox_def)

text \<open>C39. Two sessions of the same content complete the handshake with each other, whatever their byte
  orders: the outbound side sends first, the inbound side accepts and answers, and each ends connected
  with the speed and the listening port of the other. With different info hashes the inbound side drops
  the connection.\<close>

theorem handshake_connects:
  assumes "length (ps_info_hash a) = 20" "length ra = 20" "length rb = 20" "\<not> ps_handshake_sent b"
    and "a1 = send_handshake ea ra a" "b1 = handle_handshake eb tb rb (Some (last (outbox a1))) b"
    and "a2 = handle_handshake ea ta ra (Some (last (outbox b1))) a1"
  shows "if ps_info_hash b = ps_info_hash a
     then ps_state b1 = CONNECTED \<and> ps_state a2 = CONNECTED
        \<and> ps_remote_speed_mbps b1 = ps_local_speed_mbps a \<and> ps_remote_listen_port b1 = ps_local_listen_port a
        \<and> ps_remote_speed_mbps a2 = ps_local_speed_mbps b \<and> ps_remote_listen_port a2 = ps_local_listen_port b
     else ps_state b1 = DISCONNECTED"
proof -
  obtain m g where m: "outbox a1 = outbox a @ [m]" "parse_handshake eb m = Some g" "hs_info_hash g = ps_info_hash a"
      "hs_speed_mbps g = ps_local_speed_mbps a" "handshake_listen_port eb g = ps_local_listen_port a"
    using handle_sent_handshake[OF assms(1,2), of ea eb] assms(5) by auto
  show ?thesis
  proof (cases "ps_info_hash b = ps_info_hash a")
    case False
    then show ?thesis using m assms(6) by (simp add: handle_handshake_def disconnect_def sess_event_def Let_def)
  next
    case True
    let ?b = "b\<lparr>ps_remote_speed_mbps := hs_speed_mbps g, ps_remote_listen_port := handshake_listen_port eb g\<rparr>"
    have b1: "ps_state b1 = CONNECTED" "ps_remote_speed_mbps b1 = hs_speed_mbps g"
        "ps_remote_listen_port b1 = handshake_listen_port eb g" "outbox b1 = outbox (send_handshake eb rb ?b)"
      using accept_handshake[of eb m g b] m True assms(4,6) by auto
    obtain n k where n: "outbox b1 = outbox ?b @ [n]" "parse_handshake ea n = Some k" "hs_info_hash k = ps_info_hash b"
        "hs_speed_mbps k = ps_local_speed_mbps b" "handshake_listen_port ea k = ps_local_listen_port b"
      using handle_sent_handshake[of ?b rb eb ea] assms(1,3) True b1(4) by auto
    have "ps_info_hash a1 = ps_info_hash a" using assms(5) by (simp add: send_handshake_def send_message_def Let_def)
    moreover have "last (outbox b1) = n" using n(1) by simp
    ultimately show ?thesis using accept_handshake[of ea n k a1 ta ra] b1(1-3) n(2-5) m(3-5) True assms(7) by simp
  qed
qed

theorem handshake_connects_witness:
  "ps_state (handle_handshake Big 5 (replicate 20 9)
      (Some (last (outbox (send_handshake Little (replicate 20 8) (new_session (replicate 20 7) 1000 6881 False 0)))))
      (new_session (replicate 20 7) 100 6882 False 0)) = CONNECTED"
  using handshake_connects[of "new_session (replicate 20 7) 1000 6881 False 0" "replicate 20 8" "replicate 20 9"
      "new_session (replicate 20 7) 100 6882 False 0" _ Little _ Big 5 _ 6, OF _ _ _ _ refl refl refl]
  by (simp add: new_session_def)

end
