(* ===== verification/Peer_Manager.thy ===== *)
theory Peer_Manager
  imports Session_Runs "HOL-Library.List_Lexorder" "HOL-Library.Char_ord"
begin

unbundle bit_operations_syntax

text \<open>
  \<open>src/src/daemon/peer_manager.hpp/.cpp\<close>: the connections of one task. The manager's members are a
  record that also holds the scheduler it refers to; a session is identified by its slot id, as in
  \<open>get_session\<close>. The callbacks the manager installs in a session are functions of the manager, run on
  the events the session has emitted (each is the last effect of the session's operation, or touches
  other sessions only). Arguments stand for \<open>inet_addr\<close> (\<open>ia\<close>), the clock in microseconds, the
  environment switch of the zero-copy path (\<open>sf\<close>), \<open>std::sort\<close> and \<open>std::shuffle\<close>. Slot ids are natural
  numbers: a process that makes \<open>2 ^ 32\<close> connections is outside the model.
\<close>

section \<open>Addresses\<close>

definition INADDR_NONE :: u32 where "INADDR_NONE = 0xFFFFFFFF"

type_synonym inet_fun = "string \<Rightarrow> u32"

definition is_unspecified_or_broadcast :: "string \<Rightarrow> bool" where
  "is_unspecified_or_broadcast ip \<longleftrightarrow> ip = ''0.0.0.0'' \<or> ip = ''255.255.255.255''"

definition is_connectable_peer_ip :: "inet_fun \<Rightarrow> string \<Rightarrow> bool" where
  "is_connectable_peer_ip ia ip =
     (if ip = [] \<or> ip = ''unknown'' then False
      else if is_unspecified_or_broadcast ip then False
      else ia ip \<noteq> INADDR_NONE)"

definition is_self_peer_endpoint :: "string list \<Rightarrow> u16 \<Rightarrow> string \<Rightarrow> u16 \<Rightarrow> bool" where
  "is_self_peer_endpoint local_ips local_port ip port =
     (if port \<noteq> local_port then False else ip \<in> set local_ips)"

text \<open>The listening address and the detected one; \<open>None\<close> when the endpoint cannot be read.\<close>

definition collect_local_peer_ips :: "inet_fun \<Rightarrow> string option \<Rightarrow> string \<Rightarrow> string list" where
  "collect_local_peer_ips ia listen_ip detected_ip =
     (let ips = [''127.0.0.1''];
          ips1 = (case listen_ip of
                    None \<Rightarrow> ips | Some ip \<Rightarrow> if is_connectable_peer_ip ia ip then ips @ [ip] else ips);
          ips2 = (if is_connectable_peer_ip ia detected_ip then ips1 @ [detected_ip] else ips1)
      in remdups_adj (sort ips2))"

section \<open>State\<close>

record RecentPeer =
  rp_when :: nat
  rp_port :: u16
  rp_flags :: u8

record PeerManager =
  pm_sched :: Scheduler
  pm_has_io_pool :: bool
  pm_info_hash :: bytes
  pm_local_speed_mbps :: u32
  pm_p2p_port :: u16
  pm_has_file :: bool
  pm_initial_bitfield :: "bool list"
  pm_chunk_offsets :: "u64 list option"
  pm_next_slot_id :: nat
  pm_sessions :: "PeerSession list"
  pm_recent_connects :: "(string \<times> RecentPeer) list"
  pm_recent_disconnects :: "(string \<times> RecentPeer) list"
  pm_local_peer_ips :: "string list"

definition MAX_PEERS :: nat where "MAX_PEERS = 60"

definition new_peer_manager ::
    "inet_fun \<Rightarrow> string option \<Rightarrow> string \<Rightarrow> Scheduler \<Rightarrow> bool \<Rightarrow> bytes \<Rightarrow> u32 \<Rightarrow> u16 \<Rightarrow> PeerManager" where
  "new_peer_manager ia listen_ip detected_ip s has_pool ih speed port = \<lparr>
     pm_sched = s, pm_has_io_pool = has_pool, pm_info_hash = take 20 ih, pm_local_speed_mbps = speed,
     pm_p2p_port = port, pm_has_file = False, pm_initial_bitfield = [], pm_chunk_offsets = None,
     pm_next_slot_id = 0, pm_sessions = [], pm_recent_connects = [], pm_recent_disconnects = [],
     pm_local_peer_ips = collect_local_peer_ips ia listen_ip detected_ip\<rparr>"

text \<open>A \<open>std::map\<close> with string keys: an association list in the order of the keys.\<close>

fun recent_put :: "string \<Rightarrow> RecentPeer \<Rightarrow> (string \<times> RecentPeer) list \<Rightarrow> (string \<times> RecentPeer) list" where
  "recent_put k v [] = [(k, v)]"
| "recent_put k v ((k', v') # es) =
     (if k = k' then (k, v) # es else if k < k' then (k, v) # (k', v') # es else (k', v') # recent_put k v es)"

definition get_session :: "nat \<Rightarrow> PeerManager \<Rightarrow> PeerSession option" where
  "get_session sid pm = find (\<lambda>s. ps_slot_id s = sid) (pm_sessions pm)"

definition put_session :: "nat \<Rightarrow> PeerSession \<Rightarrow> PeerManager \<Rightarrow> PeerManager" where
  "put_session sid ps pm =
     pm\<lparr>pm_sessions := map (\<lambda>s. if ps_slot_id s = sid then ps else s) (pm_sessions pm)\<rparr>"

section \<open>Recent connections and peer exchange\<close>

definition recent_of :: "nat \<Rightarrow> PeerSession \<Rightarrow> RecentPeer" where
  "recent_of now ps = \<lparr>rp_when = now,
     rp_port = (if ps_remote_listen_port ps \<noteq> 0 then ps_remote_listen_port ps else remote_port ps),
     rp_flags = (if ps_remote_speed_mbps ps \<ge> 1000 then 2 else 0)\<rparr>"

definition note_recent_connect :: "inet_fun \<Rightarrow> nat \<Rightarrow> PeerSession \<Rightarrow> PeerManager \<Rightarrow> PeerManager" where
  "note_recent_connect ia now ps pm =
     (if \<not> is_connectable_peer_ip ia (remote_ip ps) then pm
      else pm\<lparr>pm_recent_connects := recent_put (remote_ip ps) (recent_of now ps) (pm_recent_connects pm)\<rparr>)"

definition note_recent_disconnect :: "inet_fun \<Rightarrow> nat \<Rightarrow> PeerSession \<Rightarrow> PeerManager \<Rightarrow> PeerManager" where
  "note_recent_disconnect ia now ps pm =
     (if \<not> is_connectable_peer_ip ia (remote_ip ps) then pm
      else pm\<lparr>pm_recent_disconnects := recent_put (remote_ip ps) (recent_of now ps) (pm_recent_disconnects pm)\<rparr>)"

definition pex_entry :: "endian \<Rightarrow> inet_fun \<Rightarrow> PeerSession \<Rightarrow> PexPeer" where
  "pex_entry e ia ps = \<lparr>pex_ip = ia (remote_ip ps),
     pex_port = hton16 e (if ps_remote_listen_port ps \<noteq> 0 then ps_remote_listen_port ps else remote_port ps),
     pex_flags = (if ps_remote_speed_mbps ps \<ge> 1000 then 2 else 0), pex_reserved = 0\<rparr>"

definition make_full_pex_list :: "endian \<Rightarrow> inet_fun \<Rightarrow> PeerSession list \<Rightarrow> nat \<Rightarrow> PexPeer list" where
  "make_full_pex_list e ia sessions exclude =
     map (pex_entry e ia)
       (filter (\<lambda>s. ps_slot_id s \<noteq> exclude \<and> is_connectable_peer_ip ia (remote_ip s)) sessions)"

section \<open>Connections\<close>

definition make_session :: "bool \<Rightarrow> nat \<Rightarrow> PeerManager \<Rightarrow> PeerSession" where
  "make_session sf now pm =
     (new_session (pm_info_hash pm) (pm_local_speed_mbps pm) (pm_p2p_port pm) sf now)\<lparr>
       ps_has_io_pool := pm_has_io_pool pm, ps_has_file := pm_has_file pm,
       ps_chunk_offsets := pm_chunk_offsets pm, ps_has_handshake_cb := True\<rparr>"

definition on_peer_connected :: "PeerSession \<Rightarrow> PeerManager \<Rightarrow> PeerManager" where
  "on_peer_connected ps pm =
     (let sid = pm_next_slot_id pm;
          ps1 = ps\<lparr>ps_slot_id := sid, ps_has_pex_cb := True, ps_has_pex_remove_cb := True, ps_has_timeout_cb := True\<rparr>
      in pm\<lparr>pm_next_slot_id := pm_next_slot_id pm + 1, pm_sessions := pm_sessions pm @ [ps1],
            pm_sched := on_peer_added sid (ps_remote_speed_mbps ps1) (pm_sched pm)\<rparr>)"

text \<open>The handler of \<open>async_accept\<close>: \<open>None\<close> when accepting failed, otherwise the remote endpoint if it
  can be read.\<close>

definition do_accept :: "bool \<Rightarrow> nat \<Rightarrow> (string \<times> u16) option option \<Rightarrow> PeerManager \<Rightarrow> PeerManager" where
  "do_accept sf now sock pm =
     (case sock of
        None \<Rightarrow> pm
      | Some ep \<Rightarrow>
          if length (pm_sessions pm) \<ge> MAX_PEERS then pm
          else on_peer_connected (start_inbound ep (make_session sf now pm)) pm)"

definition connect_to :: "inet_fun \<Rightarrow> bool \<Rightarrow> nat \<Rightarrow> string \<Rightarrow> u16 \<Rightarrow> PeerManager \<Rightarrow> PeerManager" where
  "connect_to ia sf now ip port pm =
     (if length (pm_sessions pm) \<ge> MAX_PEERS then pm
      else if \<not> is_connectable_peer_ip ia ip then pm
      else if is_self_peer_endpoint (pm_local_peer_ips pm) (pm_p2p_port pm) ip port then pm
      else if \<exists>s \<in> set (pm_sessions pm). remote_ip s = ip then pm
      else on_peer_connected (start_outbound (make_session sf now pm)) pm)"

definition on_peer_disconnected :: "inet_fun \<Rightarrow> nat \<Rightarrow> PeerSession \<Rightarrow> PeerManager \<Rightarrow> PeerManager" where
  "on_peer_disconnected ia now ps pm =
     (let pm1 = pm\<lparr>pm_sched := on_peer_removed (ps_slot_id ps) (pm_sched pm)\<rparr>;
          pm2 = note_recent_disconnect ia now ps pm1
      in pm2\<lparr>pm_sessions := filter (\<lambda>s. ps_slot_id s \<noteq> ps_slot_id ps) (pm_sessions pm2)\<rparr>)"

section \<open>Callbacks\<close>

definition on_handshake_done :: "endian \<Rightarrow> inet_fun \<Rightarrow> nat \<Rightarrow> PeerSession \<Rightarrow> PeerManager \<Rightarrow> PeerManager" where
  "on_handshake_done e ia now ps pm =
     (let pm1 = pm\<lparr>pm_sched := on_peer_speed (ps_slot_id ps) (ps_remote_speed_mbps ps) (pm_sched pm)\<rparr>;
          pm2 = note_recent_connect ia now ps pm1;
          ps1 = (if pm_initial_bitfield pm2 \<noteq> [] then send_message (build_bitfield e (pm_initial_bitfield pm2)) ps else ps);
          peers = make_full_pex_list e ia (pm_sessions pm2) (ps_slot_id ps);
          ps2 = (if peers \<noteq> [] then send_message (build_pex e False peers) ps1 else ps1)
      in put_session (ps_slot_id ps) ps2 pm2)"

definition on_pex_peer :: "inet_fun \<Rightarrow> bool \<Rightarrow> nat \<Rightarrow> string \<Rightarrow> u16 \<Rightarrow> PeerManager \<Rightarrow> PeerManager" where
  "on_pex_peer ia sf now ip port pm =
     (if length (pm_sessions pm) \<ge> MAX_PEERS then pm
      else if \<not> is_connectable_peer_ip ia ip then pm
      else if \<exists>s \<in> set (pm_sessions pm). remote_ip s = ip then pm
      else connect_to ia sf now ip port pm)"

definition on_pex_remove :: "string \<Rightarrow> PeerManager \<Rightarrow> PeerManager" where
  "on_pex_remove ip pm = pm\<lparr>pm_recent_connects := filter (\<lambda>(k, _). k \<noteq> ip) (pm_recent_connects pm)\<rparr>"

text \<open>The callbacks of the events a session emitted; the other events belong to the worker pools.\<close>

definition session_callback ::
    "endian \<Rightarrow> inet_fun \<Rightarrow> bool \<Rightarrow> nat \<Rightarrow> nat \<Rightarrow> session_event \<Rightarrow> PeerManager \<Rightarrow> PeerManager" where
  "session_callback e ia sf now sid ev pm =
     (case get_session sid pm of
        None \<Rightarrow> pm
      | Some ps \<Rightarrow>
          (case ev of
             Ev_disconnect \<Rightarrow> on_peer_disconnected ia now ps pm
           | Ev_handshake_done \<Rightarrow> on_handshake_done e ia now ps pm
           | Ev_pex_peer ip port _ \<Rightarrow> on_pex_peer ia sf now ip port pm
           | Ev_pex_remove ip _ \<Rightarrow> on_pex_remove ip pm
           | _ \<Rightarrow> pm))"

text \<open>An operation of a session: it runs on the session and the shared scheduler, then its callbacks run.\<close>

definition run_session ::
    "endian \<Rightarrow> inet_fun \<Rightarrow> bool \<Rightarrow> nat \<Rightarrow> nat \<Rightarrow> (conn \<Rightarrow> conn option) \<Rightarrow> PeerManager \<Rightarrow> PeerManager option" where
  "run_session e ia sf now sid f pm =
     (case get_session sid pm of
        None \<Rightarrow> Some pm
      | Some ps \<Rightarrow>
          (case f (ps, Some (pm_sched pm)) of
             Some (ps', Some s') \<Rightarrow>
               let pm1 = (put_session sid ps' pm)\<lparr>pm_sched := s'\<rparr>;
                   evs = drop (length (ps_events ps)) (ps_events ps')
               in Some (fold (session_callback e ia sf now sid) evs pm1)
           | _ \<Rightarrow> None))"

section \<open>Choking\<close>

definition set_choked :: "bool \<Rightarrow> PeerSession \<Rightarrow> PeerSession" where
  "set_choked v ps = ps\<lparr>ps_choking_peer := v\<rparr>"

definition upload_slots :: "u32 \<Rightarrow> PeerSession list \<Rightarrow> u32" where
  "upload_slots local_speed sessions =
     (let current_upload_kbps = sum_list (map ps_upload_rate_kbps sessions);
          current_upload_mbps = current_upload_kbps div 1000;
          idle_speed = (if local_speed > current_upload_mbps then local_speed - current_upload_mbps else 0)
      in min (4 + idle_speed div 10 * 2) 20)"

text \<open>The three unchoking loops, over the indices of the sorted and of the shuffled sessions.\<close>

fun unchoke_interested :: "u32 \<Rightarrow> nat list \<Rightarrow> PeerSession list \<Rightarrow> PeerSession list" where
  "unchoke_interested k [] ss = ss"
| "unchoke_interested k (i # is) ss =
     (if k = 0 then ss
      else if ps_peer_interested (ss ! i) then unchoke_interested (k - 1) is (ss[i := set_choked False (ss ! i)])
      else unchoke_interested k is ss)"

definition unchoke_optimistic :: "u32 \<Rightarrow> nat list \<Rightarrow> PeerSession list \<Rightarrow> PeerSession list" where
  "unchoke_optimistic k is ss =
     fold (\<lambda>i ss. ss[i := set_choked False (ss ! i)]) (take (unat (min k (of_nat (length is)))) is) ss"

fun unchoke_slow :: "u32 \<Rightarrow> nat list \<Rightarrow> PeerSession list \<Rightarrow> PeerSession list" where
  "unchoke_slow k [] ss = ss"
| "unchoke_slow k (i # is) ss =
     (if k = 0 then ss
      else if ps_remote_speed_mbps (ss ! i) < 1000 \<and> ps_choking_peer (ss ! i)
      then unchoke_slow (k - 1) is (ss[i := set_choked False (ss ! i)])
      else unchoke_slow k is ss)"

type_synonym desc_sorter = "(nat \<Rightarrow> u32) \<Rightarrow> nat list \<Rightarrow> nat list"

definition choke_message :: "endian \<Rightarrow> PeerSession \<Rightarrow> bytes" where
  "choke_message e ps = build_message e (if ps_choking_peer ps then CHOKE else UNCHOKE) []"

definition tick_choke :: "endian \<Rightarrow> desc_sorter \<Rightarrow> (nat list \<Rightarrow> nat list) \<Rightarrow> nat \<Rightarrow> PeerManager \<Rightarrow> PeerManager" where
  "tick_choke e srt shuf now pm =
     (if pm_sessions pm = [] then pm
      else let s1 = map (\<lambda>s. update_upload_rate now (update_download_rate now (set_choked True s))) (pm_sessions pm);
               slots = upload_slots (pm_local_speed_mbps pm) s1;
               srtd = srt (\<lambda>i. ps_download_rate_kbps (s1 ! i)) [0..<length s1];
               tit_for_tat = slots * 50 div 100;
               optimistic = slots * 25 div 100;
               anti_starvation = slots - tit_for_tat - optimistic;
               s2 = unchoke_interested tit_for_tat srtd s1;
               shuffled = shuf srtd;
               s3 = unchoke_optimistic optimistic shuffled s2;
               s4 = unchoke_slow anti_starvation shuffled s3
           in pm\<lparr>pm_sessions := map (\<lambda>s. send_message (choke_message e s) s) s4\<rparr>)"

section \<open>Peer exchange\<close>

definition recent_entries :: "endian \<Rightarrow> inet_fun \<Rightarrow> nat \<Rightarrow> u8 \<Rightarrow> (string \<times> RecentPeer) list \<Rightarrow> PexPeer list" where
  "recent_entries e ia now extra_flag es =
     map (\<lambda>(ip, r). \<lparr>pex_ip = ia ip, pex_port = hton16 e (rp_port r), pex_flags = rp_flags r OR extra_flag, pex_reserved = 0\<rparr>)
       (filter (\<lambda>(ip, r). int (rp_when r) > int now - 60000000 \<and> is_connectable_peer_ip ia ip \<and> rp_port r \<noteq> 0) es)"

definition tick_pex :: "endian \<Rightarrow> inet_fun \<Rightarrow> nat \<Rightarrow> PeerManager \<Rightarrow> PeerManager" where
  "tick_pex e ia now pm =
     (let delta = recent_entries e ia now 0 (pm_recent_connects pm) @ recent_entries e ia now 0x80 (pm_recent_disconnects pm);
          pm1 = (if delta \<noteq> []
                 then pm\<lparr>pm_sessions := map (send_message (build_pex e True delta)) (pm_sessions pm)\<rparr> else pm)
      in pm1\<lparr>pm_recent_connects := [], pm_recent_disconnects := []\<rparr>)"

end
