(* ===== verification/Manager_Runs.thy ===== *)
theory Manager_Runs
  imports Peer_Manager
begin

unbundle bit_operations_syntax

text \<open>
  Runs of a task's peer manager: sockets accepted and opened, messages received, timers, errors. Each
  operation of a session drives the shared scheduler only through the scheduler's own calls, so every
  run of the manager is a run of the scheduler, and the manager's sessions are the scheduler's peers.
\<close>

section \<open>What a session operation may do\<close>

text \<open>The scheduler calls a session makes: all but those that add, remove or tick.\<close>

fun neutral :: "sched_op \<Rightarrow> bool" where
  "neutral (Choke_change _ _) = True"
| "neutral (Sync_slot _ _ _ _) = True"
| "neutral (Bitfield_from _ _ _) = True"
| "neutral (Have_from _ _ _) = True"
| "neutral (Piece_from _ _ _ _) = True"
| "neutral (Sub_timeout _ _) = True"
| "neutral (Peer_speed _ _) = True"
| "neutral _ = False"

definition sched_neutral :: "Scheduler \<Rightarrow> Scheduler \<Rightarrow> bool" where
  "sched_neutral s s' \<longleftrightarrow> (\<exists>ops. list_all neutral ops \<and> s' = fold (exec_op (\<lambda>key. sort_key key)) ops s)"

text \<open>What happens to the session: its identity stays, events are appended, and the last event is a
  disconnect exactly when the session goes down, which also forgets the endpoint.\<close>

definition session_keeps :: "PeerSession \<Rightarrow> PeerSession \<Rightarrow> bool" where
  "session_keeps ps ps' \<longleftrightarrow> ps_slot_id ps' = ps_slot_id ps \<and> ps_has_disconnect_cb ps' = ps_has_disconnect_cb ps
     \<and> (\<exists>evs. ps_events ps' = ps_events ps @ evs \<and> Ev_disconnect \<notin> set evs) \<and> ps_state ps' \<noteq> DISCONNECTED"

definition session_drops :: "PeerSession \<Rightarrow> PeerSession \<Rightarrow> bool" where
  "session_drops ps ps' \<longleftrightarrow> ps_slot_id ps' = ps_slot_id ps \<and> ps_events ps' = ps_events ps @ [Ev_disconnect]
     \<and> ps_endpoint ps' = None"

definition live :: "PeerSession \<Rightarrow> bool" where
  "live ps \<longleftrightarrow> ps_has_disconnect_cb ps \<and> ps_state ps \<noteq> DISCONNECTED"

definition conn_step :: "conn \<Rightarrow> conn \<Rightarrow> bool" where
  "conn_step cn cn' \<longleftrightarrow> (\<exists>ps s ps' s'. cn = (ps, Some s) \<and> cn' = (ps', Some s') \<and> sched_neutral s s'
     \<and> (session_keeps ps ps' \<or> session_drops ps ps'))"

lemma neutral_refl [simp]: "sched_neutral s s"
  unfolding sched_neutral_def by (intro exI[of _ "[]"]) simp

lemma neutral_trans: "sched_neutral s t \<Longrightarrow> sched_neutral t u \<Longrightarrow> sched_neutral s u"
proof -
  assume "sched_neutral s t" "sched_neutral t u"
  then obtain a b where "list_all neutral a" "t = fold (exec_op (\<lambda>key. sort_key key)) a s"
      "list_all neutral b" "u = fold (exec_op (\<lambda>key. sort_key key)) b t"
    unfolding sched_neutral_def by blast
  then show ?thesis unfolding sched_neutral_def by (intro exI[of _ "a @ b"]) simp
qed

lemma neutral_op: "neutral op \<Longrightarrow> s' = exec_op (\<lambda>key. sort_key key) op s \<Longrightarrow> sched_neutral s s'"
  unfolding sched_neutral_def by (intro exI[of _ "[op]"]) simp

lemma neutral_calls [simp]:
  "sched_neutral s (on_choke_change sid b s)" "sched_neutral s (sync_slot sid c t r s)"
  "sched_neutral s (on_bitfield sid bf now s)" "sched_neutral s (on_have sid ch now s)"
  "sched_neutral s (dec_peer_pending sid ch bg now s)" "sched_neutral s (on_subblock_timeout ch bg s)"
  "sched_neutral s (on_peer_speed sid v s)"
  using neutral_op[of "Choke_change sid b"] neutral_op[of "Sync_slot sid c t r"] neutral_op[of "Bitfield_from sid bf now"]
    neutral_op[of "Have_from sid ch now"] neutral_op[of "Piece_from sid ch bg now"] neutral_op[of "Sub_timeout ch bg"]
    neutral_op[of "Peer_speed sid v"] by simp_all

lemma keeps_refl [simp]: "ps_state ps \<noteq> DISCONNECTED \<Longrightarrow> session_keeps ps ps"
  by (simp add: session_keeps_def)

lemma keeps_trans: "session_keeps ps ps1 \<Longrightarrow> session_keeps ps1 ps2 \<Longrightarrow> session_keeps ps ps2"
  unfolding session_keeps_def by (auto 0 3)

lemma keeps_same:
  "ps_slot_id ps' = ps_slot_id ps \<Longrightarrow> ps_has_disconnect_cb ps' = ps_has_disconnect_cb ps \<Longrightarrow> ps_events ps' = ps_events ps \<Longrightarrow>
     ps_state ps' = ps_state ps \<Longrightarrow> ps_state ps \<noteq> DISCONNECTED \<Longrightarrow> session_keeps ps ps'"
  by (simp add: session_keeps_def)

lemma keeps_event: "ev \<noteq> Ev_disconnect \<Longrightarrow> ps_state ps \<noteq> DISCONNECTED \<Longrightarrow> session_keeps ps (sess_event ev ps)"
  by (simp add: session_keeps_def sess_event_def)

lemma session_fields [simp]:
  "ps_slot_id (send_message m ps) = ps_slot_id ps" "ps_has_disconnect_cb (send_message m ps) = ps_has_disconnect_cb ps"
  "ps_state (send_message m ps) = ps_state ps"
  "ps_slot_id (send_interested e ps) = ps_slot_id ps" "ps_has_disconnect_cb (send_interested e ps) = ps_has_disconnect_cb ps"
  "ps_state (send_interested e ps) = ps_state ps"
  "ps_slot_id (record_have c ps) = ps_slot_id ps" "ps_has_disconnect_cb (record_have c ps) = ps_has_disconnect_cb ps"
  "ps_state (record_have c ps) = ps_state ps"
  "ps_slot_id (record_bitfield d ps) = ps_slot_id ps" "ps_has_disconnect_cb (record_bitfield d ps) = ps_has_disconnect_cb ps"
  "ps_state (record_bitfield d ps) = ps_state ps"
  "ps_slot_id (note_latency t k ps) = ps_slot_id ps" "ps_has_disconnect_cb (note_latency t k ps) = ps_has_disconnect_cb ps"
  "ps_state (note_latency t k ps) = ps_state ps"
  "ps_slot_id (dec_pending ps) = ps_slot_id ps" "ps_has_disconnect_cb (dec_pending ps) = ps_has_disconnect_cb ps"
  "ps_state (dec_pending ps) = ps_state ps"
  by (simp_all add: send_message_def send_interested_def record_have_def record_bitfield_def note_latency_def dec_pending_def
      split: option.split)

lemma keeps_conn: "session_keeps ps ps' \<Longrightarrow> sched_neutral s s' \<Longrightarrow> conn_step (ps, Some s) (ps', Some s')"
  by (auto simp: conn_step_def)

lemma interested_step:
  assumes "session_keeps ps ps1" "sched_neutral s s1"
  shows "conn_step (ps, Some s) (interested_if_wanted e (ps1, Some s1))"
proof -
  have "ps_state ps1 \<noteq> DISCONNECTED" using assms(1) by (simp add: session_keeps_def)
  then have "session_keeps ps1 (send_interested e ps1)" by (auto intro: keeps_same)
  then show ?thesis
    using assms by (auto simp: interested_if_wanted_def intro!: keeps_conn intro: keeps_trans)
qed

lemma pex_keeps: "ps_state ps \<noteq> DISCONNECTED \<Longrightarrow> session_keeps ps (fold (\<lambda>i. pex_step e op (f i)) is ps)"
proof (induction "is" arbitrary: ps)
  case (Cons i "is")
  have 1: "session_keeps ps (pex_step e op (f i) ps)"
    using Cons.prems by (auto simp: pex_step_def Let_def intro: keeps_event)
  then have "ps_state (pex_step e op (f i) ps) \<noteq> DISCONNECTED" by (simp add: session_keeps_def)
  then show ?case using keeps_trans[OF 1 Cons.IH] by simp
qed simp

lemma dispatch_step:
  assumes up: "ps_state ps \<noteq> DISCONNECTED" and d: "dispatch_message e now_us now fr (ps, Some s) = Some cn'"
  shows "conn_step (ps, Some s) cn'"
proof -
  obtain i data where fr: "fr = (i, data)" by (metis surj_pair)
  show ?thesis
  proof (cases "msg_id_of_byte i")
    case None
    then show ?thesis using d up by (auto simp: dispatch_message_def fr intro: keeps_conn)
  next
    case (Some m)
    note d' = d[unfolded dispatch_message_def fr prod.case] Some
    show ?thesis
    proof (cases m)
      case HAVE
      then show ?thesis using d' up
        by (auto simp: handle_have_msg_def Let_def intro!: interested_step keeps_same split: if_splits)
    next
      case BITFIELD
      then show ?thesis using d' up
        by (auto simp: handle_bitfield_msg_def Let_def intro!: interested_step keeps_same)
    next
      case REQUEST
      then show ?thesis using d' up
        by (auto simp: handle_request_msg_def Let_def session_keeps_def sess_event_def intro!: keeps_conn split: if_splits)
    next
      case PIECE
      then show ?thesis using d' up
        by (auto simp: handle_piece_msg_def Let_def session_keeps_def sess_event_def intro!: keeps_conn split: if_splits)
    next
      case CANCEL
      then show ?thesis using d' up
        by (auto simp: handle_cancel_msg_def Let_def intro!: keeps_conn keeps_same split: if_splits)
    next
      case PEX
      then show ?thesis using d' up
        by (auto simp: handle_pex_msg_def Let_def intro!: keeps_conn pex_keeps split: if_splits)
    qed (use d' up in \<open>auto simp: Let_def intro!: keeps_conn keeps_same split: if_splits\<close>)
  qed
qed

lemma disconnect_drops: "live ps \<Longrightarrow> session_drops ps (disconnect ps)"
  by (simp add: live_def disconnect_def session_drops_def sess_event_def Let_def)

lemma drops_after_keeps:
  assumes "session_keeps ps ps1" "ps_events ps1 = ps_events ps" "session_drops ps1 ps2"
  shows "session_drops ps ps2"
  using assms by (simp add: session_keeps_def session_drops_def)

lemma drops_conn: "session_drops ps ps' \<Longrightarrow> sched_neutral s s' \<Longrightarrow> conn_step (ps, Some s) (ps', Some s')"
  by (auto simp: conn_step_def)

lemma expire_step:
  "live ps \<Longrightarrow> \<exists>ps' s'. expire_requests e now es (ps, Some s) = (ps', Some s') \<and> sched_neutral s s' \<and> live ps'
     \<and> ps_slot_id ps' = ps_slot_id ps \<and> ps_events ps' = ps_events ps"
proof (induction es arbitrary: ps s)
  case (Cons en es)
  obtain c b t where en: "en = ((c, b), t)" by (metis surj_pair)
  obtain ps1 s1 where x: "expire_request e (c, b) (ps, Some s) = (ps1, Some s1)" "sched_neutral s s1" "live ps1"
      "ps_slot_id ps1 = ps_slot_id ps" "ps_events ps1 = ps_events ps"
    using Cons.prems
    by (cases "ps_has_timeout_cb ps") (simp_all add: expire_request_def Let_def live_def send_message_def)
  obtain ps2 s2 where y: "expire_requests e now es (ps1, Some s1) = (ps2, Some s2)" "sched_neutral s1 s2" "live ps2"
      "ps_slot_id ps2 = ps_slot_id ps1" "ps_events ps2 = ps_events ps1"
    using Cons.IH[OF x(3), of s1] by auto
  show ?case
  proof (cases "(now - t) div 1000 \<ge> REQUEST_TIMEOUT_MS")
    case True
    then show ?thesis using x y neutral_trans[OF x(2) y(2)] by (simp add: en)
  next
    case False
    then show ?thesis using Cons.IH[OF Cons.prems, of s] by (simp add: en)
  qed
qed simp

lemma eval_step:
  assumes "live ps"
  shows "conn_step (ps, Some s) (do_eval_tick e now (ps, Some s))"
proof (cases "ps_state ps = CONNECTED \<and> \<not> (now - ps_last_eval_time ps) div 1000 < PIPELINE_EVAL_MS")
  case True
  have l: "live (ps\<lparr>ps_last_eval_time := now\<rparr>)" using assms by (simp add: live_def)
  obtain ps1 s1 where x: "expire_requests e now (ps_pending_times ps) (ps\<lparr>ps_last_eval_time := now\<rparr>, Some s) = (ps1, Some s1)"
      "sched_neutral s s1" "live ps1" "ps_slot_id ps1 = ps_slot_id ps" "ps_events ps1 = ps_events ps"
    using expire_step[OF l, of e now "ps_pending_times ps" s] by auto
  have d: "session_drops ps (disconnect ps1)"
    using disconnect_drops[OF x(3)] x(4,5) by (simp add: session_drops_def)
  have k: "conn_step (ps, Some s) (sess_event (Ev_timer PIPELINE_EVAL_MS) y, Some s')"
    if "ps_slot_id y = ps_slot_id ps" "ps_events y = ps_events ps" "ps_has_disconnect_cb y" "ps_state y \<noteq> DISCONNECTED"
      "sched_neutral s s'" for y s'
    using that assms by (intro keeps_conn) (auto simp: session_keeps_def sess_event_def live_def)
  have sy: "sched_neutral s (sync_slot a b c f s1)" for a b c f using neutral_trans[OF x(2)] by simp
  show ?thesis
    using True x(1) drops_conn[OF d x(2)] sy x(3-5)
    by (cases "REQUEST_TIMEOUT_LIMIT \<le> ps_consecutive_timeouts ps1") (auto simp: do_eval_tick_def Let_def live_def intro!: k)
next
  case False
  then show ?thesis
    using assms by (auto simp: do_eval_tick_def Let_def live_def intro!: keeps_conn keeps_event)
qed

lemma handshake_step:
  assumes "live ps"
  shows "conn_step (ps, Some s) (handle_handshake e now rnd received ps, Some s)"
proof -
  have d: "conn_step (ps, Some s) (disconnect ps, Some s)" using drops_conn[OF disconnect_drops[OF assms]] by simp
  have k: "session_keeps ps (let ps3 = start_eval_timer now (y\<lparr>ps_state := CONNECTED\<rparr>)
      in if ps_has_handshake_cb ps3 then sess_event Ev_handshake_done ps3 else ps3)"
    if "ps_slot_id y = ps_slot_id ps" "ps_events y = ps_events ps" "ps_has_disconnect_cb y" for y
    using that assms by (simp add: session_keeps_def start_eval_timer_def sess_event_def live_def Let_def)
  have sh: "ps_slot_id (send_handshake e rnd y) = ps_slot_id y" "ps_events (send_handshake e rnd y) = ps_events y"
      "ps_has_disconnect_cb (send_handshake e rnd y) = ps_has_disconnect_cb y" for y
    by (simp_all add: send_handshake_def Let_def)
  show ?thesis
  proof (cases received)
    case (Some buf)
    show ?thesis
    proof (cases "parse_handshake e buf")
      case (Some h)
      show ?thesis
      proof (cases "hs_info_hash h = ps_info_hash ps")
        case True
        let ?ps1 = "ps\<lparr>ps_remote_speed_mbps := hs_speed_mbps h, ps_remote_listen_port := handshake_listen_port e h\<rparr>"
        show ?thesis
          using Some True \<open>received = Some buf\<close> assms k[of "if ps_handshake_sent ?ps1 then ?ps1 else send_handshake e rnd ?ps1"]
          by (auto simp: handle_handshake_def sh live_def Let_def intro!: keeps_conn)
      qed (use Some \<open>received = Some buf\<close> d in \<open>simp add: handle_handshake_def\<close>)
    qed (use Some d in \<open>simp add: handle_handshake_def\<close>)
  qed (use d in \<open>simp add: handle_handshake_def\<close>)
qed

section \<open>Operations of the manager\<close>

text \<open>The arguments that stand for the platform, and the events that reach a manager. The scheduler
  calls the task makes itself (ticks, completions, digest failures) are \<open>Op_sched\<close>.\<close>

record platform =
  pf_order :: endian
  pf_inet :: inet_fun
  pf_sendfile :: bool
  pf_sort :: sorter
  pf_desc :: desc_sorter
  pf_shuffle :: "nat list \<Rightarrow> nat list"

datatype pm_op =
    Op_accept "(string \<times> u16) option option"
  | Op_connect string u16
  | Op_connected nat "(string \<times> u16) option" bytes
  | Op_handshake nat "bytes option" bytes
  | Op_message nat frame
  | Op_write_done nat bool
  | Op_read_done nat u32 u32 int bytes
  | Op_eval nat
  | Op_read_error nat
  | Op_choke | Op_pex
  | Op_sched sched_op

definition on_session :: "platform \<Rightarrow> nat \<Rightarrow> nat \<Rightarrow> (PeerSession \<Rightarrow> PeerSession) \<Rightarrow> PeerManager \<Rightarrow> PeerManager option" where
  "on_session pf now sid f pm =
     run_session (pf_order pf) (pf_inet pf) (pf_sendfile pf) now sid (\<lambda>(ps, sc). Some (f ps, sc)) pm"

fun exec_pm :: "platform \<Rightarrow> nat \<Rightarrow> pm_op \<Rightarrow> PeerManager \<Rightarrow> PeerManager option" where
  "exec_pm pf now (Op_accept sock) pm = Some (do_accept (pf_sendfile pf) now sock pm)"
| "exec_pm pf now (Op_connect ip port) pm = Some (connect_to (pf_inet pf) (pf_sendfile pf) now ip port pm)"
| "exec_pm pf now (Op_connected sid ep rnd) pm = on_session pf now sid (on_outbound_connected (pf_order pf) rnd ep) pm"
| "exec_pm pf now (Op_handshake sid received rnd) pm = on_session pf now sid (handle_handshake (pf_order pf) now rnd received) pm"
| "exec_pm pf now (Op_message sid fr) pm =
     run_session (pf_order pf) (pf_inet pf) (pf_sendfile pf) now sid (dispatch_message (pf_order pf) now (of_nat (now div 1000)) fr) pm"
| "exec_pm pf now (Op_write_done sid failed) pm = on_session pf now sid (on_write_complete failed) pm"
| "exec_pm pf now (Op_read_done sid idx bg n data) pm = on_session pf now sid (on_read_done (pf_order pf) idx bg n data) pm"
| "exec_pm pf now (Op_eval sid) pm =
     run_session (pf_order pf) (pf_inet pf) (pf_sendfile pf) now sid (Some \<circ> do_eval_tick (pf_order pf) now) pm"
| "exec_pm pf now (Op_read_error sid) pm = on_session pf now sid disconnect pm"
| "exec_pm pf now Op_choke pm = Some (tick_choke (pf_order pf) (pf_desc pf) (pf_shuffle pf) now pm)"
| "exec_pm pf now Op_pex pm = Some (tick_pex (pf_order pf) (pf_inet pf) now pm)"
| "exec_pm pf now (Op_sched op) pm = Some (pm\<lparr>pm_sched := exec_op (pf_sort pf) op (pm_sched pm)\<rparr>)"

text \<open>The task itself neither adds nor removes peers, and completes chunks with the scheduler's discipline.\<close>

fun pm_op_ok :: "PeerManager \<Rightarrow> pm_op \<Rightarrow> bool" where
  "pm_op_ok pm (Op_sched op) \<longleftrightarrow> op_ok (pm_sched pm) op \<and> (case op of Add_peer _ _ \<Rightarrow> False | Remove_peer _ \<Rightarrow> False | _ \<Rightarrow> True)"
| "pm_op_ok pm _ \<longleftrightarrow> True"

inductive pm_run :: "platform \<Rightarrow> PeerManager \<Rightarrow> (nat \<times> pm_op) list \<Rightarrow> PeerManager \<Rightarrow> bool" for pf where
  pm_nil: "pm_run pf pm [] pm"
| pm_cons: "pm_op_ok pm op \<Longrightarrow> exec_pm pf now op pm = Some pm1 \<Longrightarrow> pm_run pf pm1 ops pm2 \<Longrightarrow> pm_run pf pm ((now, op) # ops) pm2"

inductive_cases pm_run_consE: "pm_run pf pm (x # ops) pm2"
inductive_simps pm_run_nil_iff: "pm_run pf pm [] pm2"

section \<open>The invariant\<close>

lemma neutral_sorter: "neutral op \<Longrightarrow> exec_op srt op s = exec_op srt' op s"
  by (cases op) simp_all

lemma neutral_fold: "list_all neutral ops \<Longrightarrow> fold (exec_op srt) ops s = fold (exec_op srt') ops s"
proof (induction ops arbitrary: s)
  case (Cons op ops)
  then show ?case using neutral_sorter[of op srt s srt'] by simp
qed simp

lemma neutral_run:
  assumes "sched_neutral s s'"
  shows "\<exists>ops. sched_run srt s ops s'"
proof -
  obtain ops where ops: "list_all neutral ops" "s' = fold (exec_op srt) ops s"
    using assms neutral_fold unfolding sched_neutral_def by metis
  have ok: "op_ok t op" if "neutral op" for t op using that by (cases op) simp_all
  have "list_all neutral ops \<Longrightarrow> sched_run srt s ops (fold (exec_op srt) ops s)"
  proof (induction ops arbitrary: s)
    case Nil then show ?case by (simp add: run_nil)
  next
    case (Cons op ops)
    then show ?case using ok by (auto intro: run_cons)
  qed
  then show ?thesis using ops by blast
qed

lemma run_append: "sched_run srt s a t \<Longrightarrow> sched_run srt t b u \<Longrightarrow> sched_run srt s (a @ b) u"
  by (induction rule: sched_run.induct) (auto intro: run_cons)

lemma run_op: "op_ok s op \<Longrightarrow> sched_run srt s [op] (exec_op srt op s)"
  by (intro run_cons run_nil)

text \<open>No scheduler call but adding and removing changes the peers' ids.\<close>

abbreviation slot_ids :: "Scheduler \<Rightarrow> nat list" where "slot_ids s \<equiv> map slot_id (peer_slots s)"

lemma upd_peer_ids: "(\<And>q. slot_id (f q) = slot_id q) \<Longrightarrow> slot_ids (upd_peer p f s) = slot_ids s"
  by (cases "p < length (peer_slots s)") (auto simp: nth_list_update list_update_beyond intro!: nth_equalityI)

lemma acts_ids:
  assumes "sched_acts s s'"
  shows "slot_ids s' = slot_ids s"
proof (rule ids_static)
  show "map peer_static (peer_slots s') = map peer_static (peer_slots s)"
    using acts_frame[OF assms] by (simp add: sched_frame_def)
qed

lemma rebalance_ids:
  "p < length (peer_slots t) \<Longrightarrow> slot_ids (rebalance_seed_requests_for_peer p now n (check_peer_interest sid t)) = slot_ids t"
  using acts_ids[OF rebalance_acts, of p "check_peer_interest sid t" now n] by simp

lemma bitfield_ids: "slot_ids (on_bitfield sid bf now s) = slot_ids s"
proof (cases "peer_slot s sid")
  case (Some p)
  then have "p < length (peer_slots s)" using find_slot_Some by (simp add: peer_slot_def)
  then show ?thesis
    using Some upd_peer_ids[of "\<lambda>q. q\<lparr>remote_bitfield := bf\<rparr>" p s]
    by (simp add: on_bitfield_def Let_def rebalance_ids)
qed (simp add: on_bitfield_def)

lemma have_ids: "slot_ids (on_have sid c now s) = slot_ids s"
proof (cases "peer_slot s sid")
  case (Some p)
  then have "p < length (peer_slots s)" using find_slot_Some by (simp add: peer_slot_def)
  then show ?thesis
    using Some upd_peer_ids[of "\<lambda>q. q\<lparr>remote_bitfield := (remote_bitfield q)[c := True]\<rparr>" p s]
    by (simp add: on_have_def Let_def rebalance_ids)
qed (simp add: on_have_def)

lemma piece_ids: "slot_ids (dec_peer_pending sid c b now s) = slot_ids s"
proof (cases "peer_slot s sid")
  case (Some p)
  then have "p < length (peer_slots (note_piece p c b s))" using find_slot_Some by (simp add: peer_slot_def)
  from acts_ids[OF try_schedule_acts[OF this, of now]]
  show ?thesis using Some ids_static[of "peer_slots (note_piece p c b s)" "peer_slots s"]
    by (simp add: dec_peer_pending_def Let_def)
qed (simp add: dec_peer_pending_def)

lemma complete_fold_ids: "slot_ids (fold complete_one msgs s) = slot_ids s"
proof (induction msgs arbitrary: s)
  case (Cons m msgs)
  have "slot_ids (complete_one m s) = slot_ids s" by (rule ids_static) (simp add: complete_one_def Let_def)
  then show ?case using Cons.IH[of "complete_one m s"] by simp
qed simp

lemma mark_fold_ids: "slot_ids (fold (mark_one bf) is s) = slot_ids s"
proof (induction "is" arbitrary: s)
  case (Cons i "is")
  have "slot_ids (mark_one bf i s) = slot_ids s" by (simp add: mark_one_def Let_def)
  then show ?case using Cons.IH[of "mark_one bf i s"] by simp
qed simp

lemma exec_op_ids:
  assumes "std_sort srt" "case op of Add_peer _ _ \<Rightarrow> False | Remove_peer _ \<Rightarrow> False | _ \<Rightarrow> True"
  shows "slot_ids (exec_op srt op s) = slot_ids s"
proof (cases op)
  case (Tick_at now)
  then show ?thesis using acts_ids[OF tick_acts[OF assms(1)]] by simp
next
  case (Peer_speed sid v)
  then show ?thesis by (auto simp: on_peer_speed_def upd_peer_ids simp del: upd_peer_fields split: option.split)
next
  case (Choke_change sid ch)
  then show ?thesis by (auto simp: on_choke_change_def upd_peer_ids simp del: upd_peer_fields split: option.split)
next
  case (Sync_slot sid cap tmo rtt)
  then show ?thesis by (auto simp: sync_slot_def upd_peer_ids simp del: upd_peer_fields split: option.split)
qed (use assms(2) in \<open>simp_all add: bitfield_ids have_ids piece_ids process_completions_def on_verify_failed_def
    on_subblock_timeout_def mark_all_complete_def Let_def complete_fold_ids mark_fold_ids\<close>)

lemma neutral_ids: "sched_neutral s s' \<Longrightarrow> slot_ids s' = slot_ids s"
proof -
  have "list_all neutral ops \<Longrightarrow> slot_ids (fold (exec_op (\<lambda>key. sort_key key)) ops s) = slot_ids s" for ops
  proof (induction ops arbitrary: s)
    case (Cons op ops)
    have "slot_ids (exec_op (\<lambda>key. sort_key key) op s) = slot_ids s"
      using Cons.prems by (intro exec_op_ids[OF std_sort_sort_key]) (cases op; simp)
    then show ?case using Cons by simp
  qed simp
  then show "sched_neutral s s' \<Longrightarrow> slot_ids s' = slot_ids s" by (auto simp: sched_neutral_def)
qed

lemma removed_ids: "slot_ids (on_peer_removed sid s) = filter (\<lambda>i. i \<noteq> sid) (slot_ids s)"
proof -
  have r: "peer_slots (release_request c b t) = peer_slots t" for c b t by (simp add: release_request_def Let_def)
  have f: "peer_slots (fold (release_request c) bs t) = peer_slots t" for c bs t
    by (induction bs arbitrary: t) (simp_all add: r)
  have "peer_slots (release_chunk en t) = peer_slots t" for en t by (simp add: release_chunk_def Let_def f split: prod.split)
  then have "peer_slots (fold release_chunk es t) = peer_slots t" for es t by (induction es arbitrary: t) simp_all
  then show ?thesis by (simp add: on_peer_removed_def Let_def filter_map comp_def split: option.split)
qed

definition pm_inv :: "sorter \<Rightarrow> Scheduler \<Rightarrow> PeerManager \<Rightarrow> bool" where
  "pm_inv srt s0 pm \<longleftrightarrow> length (pm_sessions pm) \<le> MAX_PEERS
     \<and> slot_ids (pm_sched pm) = map ps_slot_id (pm_sessions pm)
     \<and> distinct (map ps_slot_id (pm_sessions pm)) \<and> (\<forall>ps \<in> set (pm_sessions pm). ps_slot_id ps < pm_next_slot_id pm \<and> live ps)
     \<and> pm_recent_disconnects pm = [] \<and> (\<exists>ops. sched_run srt s0 ops (pm_sched pm))"

lemma inv_sched:
  assumes "pm_inv srt s0 pm" "sched_neutral (pm_sched pm) s'"
  shows "pm_inv srt s0 (pm\<lparr>pm_sched := s'\<rparr>)"
  using assms neutral_ids[OF assms(2)] neutral_run[OF assms(2), of srt] run_append
  by (auto simp: pm_inv_def; blast)

text \<open>What a session update must keep for the invariant.\<close>

definition same_core :: "PeerSession \<Rightarrow> PeerSession \<Rightarrow> bool" where
  "same_core ps ps' \<longleftrightarrow> ps_slot_id ps' = ps_slot_id ps \<and> (live ps \<longrightarrow> live ps')"

lemma inv_sessions:
  assumes "pm_inv srt s0 pm" "list_all2 same_core (pm_sessions pm) ss"
  shows "pm_inv srt s0 (pm\<lparr>pm_sessions := ss\<rparr>)"
proof -
  have len: "length ss = length (pm_sessions pm)" using assms(2) by (simp add: list_all2_lengthD)
  have ids: "map ps_slot_id ss = map ps_slot_id (pm_sessions pm)"
    using assms(2) by (induction rule: list_all2_induct) (simp_all add: same_core_def)
  have "ps_slot_id q < pm_next_slot_id pm \<and> live q" if q: "q \<in> set ss" for q
  proof -
    obtain i where i: "i < length ss" "ss ! i = q" using q by (auto simp: in_set_conv_nth)
    then have "same_core (pm_sessions pm ! i) q" "pm_sessions pm ! i \<in> set (pm_sessions pm)"
      using assms(2) len by (auto dest: list_all2_nthD2)
    then show ?thesis using assms(1) by (auto simp: pm_inv_def same_core_def)
  qed
  then show ?thesis using assms(1) len ids by (simp add: pm_inv_def)
qed

lemma inv_put:
  assumes "pm_inv srt s0 pm" "ps_slot_id ps = sid" "live ps"
  shows "pm_inv srt s0 (put_session sid ps pm)"
  unfolding put_session_def
  using assms(2,3) by (intro inv_sessions[OF assms(1)]) (auto simp: list_all2_conv_all_nth same_core_def)

lemma inv_recent: "pm_inv srt s0 pm \<Longrightarrow> pm_inv srt s0 (pm\<lparr>pm_recent_connects := x\<rparr>)"
  by (simp add: pm_inv_def)

lemma inv_connected:
  assumes "pm_inv srt s0 pm" "length (pm_sessions pm) < MAX_PEERS" "live ps"
  shows "pm_inv srt s0 (on_peer_connected ps pm)"
proof -
  obtain ops where "sched_run srt s0 ops (pm_sched pm)" using assms(1) by (auto simp: pm_inv_def)
  then have "sched_run srt s0 (ops @ [Add_peer (pm_next_slot_id pm) v]) (on_peer_added (pm_next_slot_id pm) v (pm_sched pm))" for v
    using run_append run_op[of "pm_sched pm" "Add_peer (pm_next_slot_id pm) v" srt] by fastforce
  then show ?thesis
    using assms by (fastforce simp: pm_inv_def on_peer_connected_def Let_def on_peer_added_def live_def less_Suc_eq)
qed

lemma inv_removed:
  assumes "pm_inv srt s0 pm"
  shows "pm_inv srt s0 (pm\<lparr>pm_sched := on_peer_removed sid (pm_sched pm),
     pm_sessions := filter (\<lambda>s. ps_slot_id s \<noteq> sid) (pm_sessions pm)\<rparr>)"
proof -
  obtain ops where "sched_run srt s0 ops (pm_sched pm)" using assms by (auto simp: pm_inv_def)
  then have "sched_run srt s0 (ops @ [Remove_peer sid]) (on_peer_removed sid (pm_sched pm))"
    using run_append run_op[of "pm_sched pm" "Remove_peer sid" srt] by fastforce
  moreover have "length (filter (\<lambda>s. ps_slot_id s \<noteq> sid) (pm_sessions pm)) \<le> MAX_PEERS"
    using assms by (intro order_trans[OF length_filter_le]) (simp add: pm_inv_def)
  ultimately show ?thesis
    using assms by (auto simp: pm_inv_def removed_ids filter_map comp_def distinct_map_filter)
qed

lemma make_session_live: "live (start_inbound ep (make_session sf now pm))" "live (start_outbound (make_session sf now pm))"
  by (simp_all add: live_def start_inbound_def start_outbound_def make_session_def new_session_def)

lemma inv_accept: "pm_inv srt s0 pm \<Longrightarrow> pm_inv srt s0 (do_accept sf now sock pm)"
  by (auto simp: do_accept_def intro: inv_connected make_session_live split: option.split)

lemma inv_connect: "pm_inv srt s0 pm \<Longrightarrow> pm_inv srt s0 (connect_to ia sf now ip port pm)"
  by (auto simp: connect_to_def intro: inv_connected make_session_live)

lemma get_session_Some:
  assumes "pm_inv srt s0 pm" "get_session sid pm = Some ps"
  shows "ps_slot_id ps = sid" "live ps" "ps \<in> set (pm_sessions pm)"
  using assms by (auto simp: get_session_def find_Some_iff pm_inv_def)

lemma inv_handshake_done:
  assumes "pm_inv srt s0 pm" "live ps"
  shows "pm_inv srt s0 (on_handshake_done e ia now ps pm)"
proof -
  let ?pm1 = "pm\<lparr>pm_sched := on_peer_speed (ps_slot_id ps) (ps_remote_speed_mbps ps) (pm_sched pm)\<rparr>"
  have "pm_inv srt s0 (note_recent_connect ia now ps ?pm1)"
    using inv_sched[OF assms(1)] by (auto simp: note_recent_connect_def intro: inv_recent)
  then show ?thesis
    using assms(2) by (auto simp: on_handshake_done_def Let_def live_def intro!: inv_put)
qed

lemma inv_callback:
  assumes "pm_inv srt s0 pm" "ev \<noteq> Ev_disconnect"
  shows "pm_inv srt s0 (session_callback e ia sf now sid ev pm)"
proof (cases "get_session sid pm")
  case (Some ps)
  note g = get_session_Some[OF assms(1) Some]
  show ?thesis
    using assms Some g(2)
    by (cases ev) (auto simp: session_callback_def on_pex_peer_def on_pex_remove_def intro: inv_handshake_done inv_connect inv_recent)
qed (use assms in \<open>simp add: session_callback_def\<close>)

lemma inv_callbacks:
  "pm_inv srt s0 pm \<Longrightarrow> Ev_disconnect \<notin> set evs \<Longrightarrow> pm_inv srt s0 (fold (session_callback e ia sf now sid) evs pm)"
proof (induction evs arbitrary: pm)
  case (Cons ev evs)
  have "pm_inv srt s0 (session_callback e ia sf now sid ev pm)"
    using Cons.prems by (intro inv_callback) auto
  then show ?case using Cons.IH Cons.prems(2) by simp
qed simp

text \<open>A session that goes down is removed in the same operation; its endpoint is already forgotten, so
  it leaves no trace in \<open>recent_disconnects_\<close>.\<close>

lemma unknown_not_connectable: "ps_endpoint ps = None \<Longrightarrow> \<not> is_connectable_peer_ip ia (remote_ip ps)"
  by (simp add: remote_ip_def is_connectable_peer_ip_def)

lemma find_put: "find P xs = Some x \<Longrightarrow> (\<And>y. P y \<Longrightarrow> P (f y)) \<Longrightarrow> (\<And>y. \<not> P y \<Longrightarrow> f y = y) \<Longrightarrow> find P (map f xs) = Some (f x)"
  by (induction xs) (auto split: if_splits)

lemma inv_run_session:
  assumes inv: "pm_inv srt s0 pm"
    and f: "\<And>ps cn'. live ps \<Longrightarrow> f (ps, Some (pm_sched pm)) = Some cn' \<Longrightarrow> conn_step (ps, Some (pm_sched pm)) cn'"
    and r: "run_session e ia sf now sid f pm = Some pm'"
  shows "pm_inv srt s0 pm'"
proof (cases "get_session sid pm")
  case None
  then show ?thesis using inv r by (simp add: run_session_def)
next
  case (Some ps)
  note g = get_session_Some[OF inv Some]
  obtain cn' where cn: "f (ps, Some (pm_sched pm)) = Some cn'" using r Some by (auto simp: run_session_def split: option.splits)
  obtain ps' s' where st: "cn' = (ps', Some s')" "sched_neutral (pm_sched pm) s'" "session_keeps ps ps' \<or> session_drops ps ps'"
    using f[OF g(2) cn] by (auto simp: conn_step_def)
  let ?pm1 = "(put_session sid ps' pm)\<lparr>pm_sched := s'\<rparr>"
  have r': "pm' = fold (session_callback e ia sf now sid) (drop (length (ps_events ps)) (ps_events ps')) ?pm1"
    using r Some cn st(1) by (simp add: run_session_def Let_def)
  show ?thesis
  proof (cases "session_keeps ps ps'")
    case True
    then have "live ps'" "ps_slot_id ps' = sid" using g by (auto simp: session_keeps_def live_def)
    then have "pm_inv srt s0 (put_session sid ps' pm)" by (intro inv_put[OF inv])
    then have "pm_inv srt s0 ?pm1" using inv_sched[of srt s0 "put_session sid ps' pm" s'] st(2) by (simp add: put_session_def)
    then show ?thesis using True unfolding r' by (intro inv_callbacks) (auto simp: session_keeps_def)
  next
    case False
    then have d: "session_drops ps ps'" using st(3) by simp
    have "get_session sid ?pm1 = Some ps'"
      using Some d g(1) find_put[of "\<lambda>s. ps_slot_id s = sid" "pm_sessions pm" ps "\<lambda>s. if ps_slot_id s = sid then ps' else s"]
      by (simp add: get_session_def put_session_def session_drops_def)
    then have "pm' = on_peer_disconnected ia now ps' ?pm1" using d by (simp add: r' session_drops_def session_callback_def)
    moreover have "map (\<lambda>s. if ps_slot_id s = sid then ps' else s) (filter (\<lambda>s. ps_slot_id s \<noteq> sid) (pm_sessions pm))
        = filter (\<lambda>s. ps_slot_id s \<noteq> sid) (pm_sessions pm)"
      by (rule map_idI) auto
    ultimately have "pm' = (pm\<lparr>pm_sched := s'\<rparr>)\<lparr>pm_sched := on_peer_removed sid s',
        pm_sessions := filter (\<lambda>s. ps_slot_id s \<noteq> sid) (pm_sessions pm)\<rparr>"
      using d g(1) unknown_not_connectable[of ps' ia]
      by (simp add: on_peer_disconnected_def note_recent_disconnect_def session_drops_def put_session_def filter_map comp_def
          Let_def)
    then show ?thesis using inv_removed[OF inv_sched[OF inv st(2)], of sid] by simp
  qed
qed

lemma session_op_steps:
  assumes "live ps"
  shows "conn_step (ps, Some s) (disconnect ps, Some s)"
    "conn_step (ps, Some s) (on_write_complete failed ps, Some s)"
    "conn_step (ps, Some s) (on_read_done e idx bg n data ps, Some s)"
    "conn_step (ps, Some s) (on_outbound_connected e rnd ep ps, Some s)"
proof -
  show d: "conn_step (ps, Some s) (disconnect ps, Some s)" using drops_conn[OF disconnect_drops[OF assms]] by simp
  show "conn_step (ps, Some s) (on_write_complete failed ps, Some s)"
    using d assms by (auto simp: on_write_complete_def live_def intro!: keeps_conn keeps_same)
  show "conn_step (ps, Some s) (on_read_done e idx bg n data ps, Some s)"
    using assms by (auto simp: on_read_done_def add_sent_bytes_def Let_def live_def intro!: keeps_conn keeps_same)
  show "conn_step (ps, Some s) (on_outbound_connected e rnd ep ps, Some s)"
    using d assms
    by (auto simp: on_outbound_connected_def send_handshake_def Let_def live_def intro!: keeps_conn keeps_same split: option.split)
qed

lemma same_core_refl [simp]: "same_core ps ps"
  by (simp add: same_core_def)

lemma same_core_list_trans:
  "list_all2 same_core a b \<Longrightarrow> list_all2 same_core b c \<Longrightarrow> list_all2 same_core a c"
  by (rule list_all2_trans[of same_core same_core]) (auto simp: same_core_def)

lemma unchoke_core: "list_all2 same_core ss (ss[i := set_choked v (ss ! i)])"
  by (cases "i < length ss")
    (auto simp: list_all2_conv_all_nth nth_list_update list_update_beyond same_core_def set_choked_def live_def)

lemma unchoke_then:
  assumes "list_all2 same_core (ss[i := set_choked v (ss ! i)]) xs"
  shows "list_all2 same_core ss xs"
  by (rule same_core_list_trans[OF unchoke_core assms])

lemma unchoke_interested_core: "list_all2 same_core ss (unchoke_interested k is ss)"
proof (induction k "is" ss rule: unchoke_interested.induct)
  case (2 k i "is" ss)
  then show ?case by (cases "k = 0") (simp_all add: list_all2_refl unchoke_then[of ss i False])
qed (simp add: list_all2_refl)

lemma unchoke_optimistic_core: "list_all2 same_core ss (unchoke_optimistic k is ss)"
proof -
  have "list_all2 same_core ss (fold (\<lambda>i ss. ss[i := set_choked False (ss ! i)]) js ss)" for js
  proof (induction js arbitrary: ss)
    case (Cons j js)
    show ?case using unchoke_then[OF Cons] by simp
  qed (simp add: list_all2_refl)
  then show ?thesis by (simp add: unchoke_optimistic_def)
qed

lemma unchoke_slow_core: "list_all2 same_core ss (unchoke_slow k is ss)"
proof (induction k "is" ss rule: unchoke_slow.induct)
  case (2 k i "is" ss)
  then show ?case by (cases "k = 0") (simp_all add: list_all2_refl unchoke_then[of ss i False])
qed (simp add: list_all2_refl)

lemma map_core: "(\<And>ps. same_core ps (f ps)) \<Longrightarrow> list_all2 same_core ss (map f ss)"
  by (simp add: list_all2_conv_all_nth)

lemma inv_choke:
  assumes "pm_inv srt s0 pm"
  shows "pm_inv srt s0 (tick_choke e dsrt shuf now pm)"
proof -
  have r: "list_all2 same_core ss (map (\<lambda>s. update_upload_rate now (update_download_rate now (set_choked True s))) ss)" for ss
    by (rule map_core) (simp add: same_core_def live_def set_choked_def update_upload_rate_def update_download_rate_def Let_def)
  have m: "list_all2 same_core ss (map (\<lambda>s. send_message (choke_message e s) s) ss)" for ss
    by (rule map_core) (simp add: same_core_def live_def)
  show ?thesis
    unfolding tick_choke_def Let_def
    using assms same_core_list_trans[OF same_core_list_trans[OF same_core_list_trans[OF same_core_list_trans[OF r
      unchoke_interested_core] unchoke_optimistic_core] unchoke_slow_core] m]
    by (auto intro: inv_sessions)
qed

lemma inv_pex: "pm_inv srt s0 pm \<Longrightarrow> pm_inv srt s0 (tick_pex e ia now pm)"
proof -
  assume a: "pm_inv srt s0 pm"
  have "list_all2 same_core (pm_sessions pm) (map (send_message m) (pm_sessions pm))" for m
    by (rule map_core) (simp add: same_core_def live_def)
  then have "pm_inv srt s0 (pm\<lparr>pm_sessions := map (send_message m) (pm_sessions pm)\<rparr>)" for m by (rule inv_sessions[OF a])
  then show ?thesis using a by (auto simp: tick_pex_def Let_def pm_inv_def)
qed

lemma inv_on_session:
  assumes "pm_inv srt s0 pm" "\<And>ps s. live ps \<Longrightarrow> conn_step (ps, Some s) (f ps, Some s)" "on_session pf now sid f pm = Some pm'"
  shows "pm_inv srt s0 pm'"
  using assms(2,3) unfolding on_session_def by (intro inv_run_session[OF assms(1)]) auto

lemma inv_exec:
  assumes "std_sort (pf_sort pf)" "pm_inv (pf_sort pf) s0 pm" "pm_op_ok pm op" "exec_pm pf now op pm = Some pm'"
  shows "pm_inv (pf_sort pf) s0 pm'"
proof (cases op)
  case (Op_sched sop)
  obtain ops where "sched_run (pf_sort pf) s0 ops (pm_sched pm)" using assms(2) by (auto simp: pm_inv_def)
  then have "\<exists>ops. sched_run (pf_sort pf) s0 ops (exec_op (pf_sort pf) sop (pm_sched pm))"
    using run_append run_op[of "pm_sched pm" sop "pf_sort pf"] assms(3) Op_sched by fastforce
  then show ?thesis
    using assms Op_sched exec_op_ids[OF assms(1), of sop "pm_sched pm"] by (auto simp: pm_inv_def)
next
  case (Op_message sid fr)
  then show ?thesis
    using assms(4) by (intro inv_run_session[OF assms(2) dispatch_step]) (auto simp: live_def)
next
  case (Op_eval sid)
  then show ?thesis
    using assms(4) eval_step
    by (intro inv_run_session[OF assms(2), where f = "Some \<circ> do_eval_tick (pf_order pf) now"]) (metis comp_apply option.inject, auto)
qed (use assms in \<open>auto intro: inv_accept inv_connect inv_choke inv_pex
      inv_on_session[OF assms(2)] session_op_steps handshake_step\<close>)

lemma inv_pm_run:
  "pm_run pf pm ops pm' \<Longrightarrow> std_sort (pf_sort pf) \<Longrightarrow> pm_inv (pf_sort pf) s0 pm \<Longrightarrow> pm_inv (pf_sort pf) s0 pm'"
  by (induction rule: pm_run.induct) (auto dest: inv_exec)

section \<open>Properties\<close>

lemma fresh_peers: "peer_slots (fresh_scheduler sizes speed) = []"
proof -
  have "peer_slots (assign_sizes zs i s) = peer_slots s" for zs i s
    by (induction zs arbitrary: i s) (simp_all add: Let_def)
  then show ?thesis by (simp add: fresh_scheduler_def set_chunk_sizes_def Let_def init_scheduler_def new_scheduler_def)
qed

lemma fresh_manager_inv:
  "pm_inv srt (fresh_scheduler sizes speed) (new_peer_manager ia lip dip (fresh_scheduler sizes speed) pool ih sp port)"
  using run_nil by (auto simp: pm_inv_def new_peer_manager_def MAX_PEERS_def fresh_peers)

lemma run_sched_inv: "sched_run srt s ops s' \<Longrightarrow> std_sort srt \<Longrightarrow> sched_inv s \<Longrightarrow> sched_inv s'"
  by (induction rule: sched_run.induct) (auto intro: exec_op_inv)


definition example_platform :: platform where
  "example_platform = \<lparr>pf_order = Little, pf_inet = (\<lambda>ip. if ip = ''10.0.0.2'' then 0x0200000A else INADDR_NONE),
     pf_sendfile = False, pf_sort = (\<lambda>key. sort_key key), pf_desc = (\<lambda>key xs. rev (sort_key key xs)), pf_shuffle = rev\<rparr>"

definition example_manager :: PeerManager where
  "example_manager = new_peer_manager (pf_inet example_platform) None ''10.0.0.1'' (fresh_scheduler [16384] 1000) True
     (replicate 20 7) 1000 6881"

definition example_accepted :: PeerManager where
  "example_accepted = do_accept False 5 (Some (Some (''10.0.0.2'', 50000))) example_manager"

lemma example_pm_run: "pm_run example_platform example_manager [(5, Op_accept (Some (Some (''10.0.0.2'', 50000))))] example_accepted"
  by (rule pm_cons[OF _ _ pm_nil]) (simp_all add: example_accepted_def example_platform_def)


text \<open>Departures are never announced: a session's socket is closed before the manager is told, so
  the address it would record is already unknown and \<open>recent_disconnects_\<close> stays empty in every run. No
  peer-exchange message carries a departed peer.\<close>

theorem departures_never_announced:
  assumes "std_sort (pf_sort pf)"
    and "pm_run pf (new_peer_manager (pf_inet pf) lip dip (fresh_scheduler sizes speed) pool ih speed port) ops pm"
  shows "pm_recent_disconnects pm = [] \<and> recent_entries e ia now 0x80 (pm_recent_disconnects pm) = []"
  using inv_pm_run[OF assms(2,1) fresh_manager_inv] by (simp add: pm_inv_def recent_entries_def)

definition example_left :: PeerManager where
  "example_left = on_peer_disconnected (pf_inet example_platform) 9 (disconnect (hd (pm_sessions example_accepted)))
     (put_session 0 (disconnect (hd (pm_sessions example_accepted))) example_accepted)"

theorem departures_never_announced_witness:
  "pm_sessions example_left = [] \<and> pm_recent_disconnects example_left = []"
proof -
  have s: "pm_sessions example_left = []"
    by (simp add: example_left_def example_accepted_def example_manager_def new_peer_manager_def do_accept_def MAX_PEERS_def
        on_peer_connected_def put_session_def on_peer_disconnected_def note_recent_disconnect_def Let_def disconnect_def
        start_inbound_def make_session_def new_session_def sess_event_def)
  have "exec_pm example_platform 9 (Op_read_error 0) example_accepted = Some example_left"
    by (simp add: example_left_def example_accepted_def example_manager_def new_peer_manager_def do_accept_def MAX_PEERS_def
        on_peer_connected_def on_session_def run_session_def get_session_def session_callback_def put_session_def
        example_platform_def Let_def disconnect_def start_inbound_def make_session_def new_session_def sess_event_def)
  then have "pm_run example_platform example_manager
      [(5, Op_accept (Some (Some (''10.0.0.2'', 50000)))), (9, Op_read_error 0)] example_left"
    by (auto intro!: pm_cons pm_nil simp: example_accepted_def example_platform_def simp del: exec_pm.simps(9))
  then show ?thesis
    using departures_never_announced[of example_platform None "''10.0.0.1''" "[16384]" 1000 True "replicate 20 7" 6881] s
      std_sort_sort_key
    by (auto simp: example_manager_def example_platform_def)
qed

end
