(* ===== verification/Segment_IO.thy ===== *)
theory Segment_IO
  imports ThinBT_Prelude
begin

text \<open>
  \<open>src/src/daemon/segment_io.hpp/.cpp\<close>: the memory-mapped output file. A mapped segment is the address
  and size \<open>mmap\<close> gave it; a pointer is an address, the cached segment pointer the key of the entry it
  points to. The system calls are arguments: what \<open>stat\<close> finds, what \<open>open\<close>, \<open>fallocate\<close>, \<open>ftruncate\<close>
  and \<open>mmap\<close> return (\<open>None\<close> is \<open>MAP_FAILED\<close>).
\<close>

section \<open>State\<close>

definition MAX_CHUNK_SIZE :: u64 where "MAX_CHUNK_SIZE = 1 * 1024 * 1024"
definition UINT32_MAX :: u32 where "UINT32_MAX = 0xFFFFFFFF"

record MappedSeg =
  seg_data :: u64
  seg_size :: u64

record SegmentWriter =
  sw_file_path :: string
  sw_file_size :: u64
  sw_segment_size :: u64
  sw_segment_count :: u32
  sw_fd :: int
  sw_mapped_segments :: "u32 \<rightharpoonup> MappedSeg"
  sw_cached_seg_idx :: u32
  sw_cached_seg :: "u32 option"

definition new_segment_writer :: SegmentWriter where
  "new_segment_writer = \<lparr>sw_file_path = [], sw_file_size = 0, sw_segment_size = 0, sw_segment_count = 0, sw_fd = -1,
     sw_mapped_segments = Map.empty, sw_cached_seg_idx = UINT32_MAX, sw_cached_seg = None\<rparr>"

section \<open>Operations\<close>

text \<open>\<open>existing\<close> is the content of a file already there; the result carries the content afterwards.\<close>

definition segment_open ::
    "string \<Rightarrow> u64 \<Rightarrow> u64 \<Rightarrow> bytes option \<Rightarrow> int \<Rightarrow> bool \<Rightarrow> bool \<Rightarrow> SegmentWriter \<Rightarrow> bool \<times> SegmentWriter \<times> bytes option" where
  "segment_open path file_size segment_size existing open_fd fallocate_ok ftruncate_ok w =
     (if file_size = 0 then (False, w, existing)
      else let ss = (if segment_size < MAX_CHUNK_SIZE then MAX_CHUNK_SIZE else segment_size);
               w1 = w\<lparr>sw_file_path := path, sw_file_size := file_size, sw_segment_size := ss,
                      sw_segment_count := ucast ((file_size + ss - 1) div ss)\<rparr>;
               size_matches = (case existing of None \<Rightarrow> False | Some content \<Rightarrow> of_nat (length content) = file_size);
               w2 = w1\<lparr>sw_fd := open_fd\<rparr>
           in if open_fd < 0 then (False, w2, existing)
              else if size_matches then (True, w2, existing)
              else if fallocate_ok \<or> ftruncate_ok then (True, w2, Some (replicate (unat file_size) 0))
              else (False, w2\<lparr>sw_fd := -1\<rparr>, Some []))"

type_synonym mmap_fun = "u64 \<Rightarrow> u64 \<Rightarrow> u64 option"

definition map_segment :: "mmap_fun \<Rightarrow> u32 \<Rightarrow> SegmentWriter \<Rightarrow> bool \<times> SegmentWriter" where
  "map_segment mm seg_idx w =
     (let seg_start = ucast seg_idx * sw_segment_size w;
          map_size = min (sw_segment_size w + MAX_CHUNK_SIZE) (sw_file_size w - seg_start)
      in case mm seg_start map_size of
           None \<Rightarrow> (False, w)
         | Some addr \<Rightarrow>
             (True, w\<lparr>sw_mapped_segments := (sw_mapped_segments w)(seg_idx \<mapsto> \<lparr>seg_data = addr, seg_size = map_size\<rparr>)\<rparr>))"

definition find_segment :: "mmap_fun \<Rightarrow> u32 \<Rightarrow> SegmentWriter \<Rightarrow> MappedSeg option \<times> SegmentWriter" where
  "find_segment mm seg_idx w =
     (if seg_idx = sw_cached_seg_idx w then (Option.bind (sw_cached_seg w) (sw_mapped_segments w), w)
      else let (ok, w1) = (if sw_mapped_segments w seg_idx = None then map_segment mm seg_idx w else (True, w))
           in if \<not> ok then (None, w1)
              else (sw_mapped_segments w1 seg_idx, w1\<lparr>sw_cached_seg_idx := seg_idx, sw_cached_seg := Some seg_idx\<rparr>))"

definition get_chunk_base :: "mmap_fun \<Rightarrow> u64 \<Rightarrow> u32 \<Rightarrow> SegmentWriter \<Rightarrow> u64 option \<times> SegmentWriter" where
  "get_chunk_base mm chunk_offset chunk_size w =
     (if sw_fd w < 0 then (None, w)
      else if chunk_offset + ucast chunk_size > sw_file_size w then (None, w)
      else if ucast chunk_size > MAX_CHUNK_SIZE then (None, w)
      else let seg_idx = ucast (chunk_offset div sw_segment_size w)
           in if seg_idx \<ge> sw_segment_count w then (None, w)
              else case find_segment mm seg_idx w of
                     (None, w1) \<Rightarrow> (None, w1)
                   | (Some seg, w1) \<Rightarrow>
                       let offset_in_seg = chunk_offset - ucast seg_idx * sw_segment_size w1
                       in if offset_in_seg + ucast chunk_size > seg_size seg then (None, w1)
                          else (Some (seg_data seg + offset_in_seg), w1))"

definition unmap_all :: "SegmentWriter \<Rightarrow> SegmentWriter" where
  "unmap_all w = w\<lparr>sw_cached_seg := None, sw_cached_seg_idx := UINT32_MAX, sw_mapped_segments := Map.empty\<rparr>"

definition segment_close :: "SegmentWriter \<Rightarrow> SegmentWriter" where
  "segment_close w =
     (let w1 = unmap_all w;
          w2 = (if sw_fd w1 \<ge> 0 then w1\<lparr>sw_fd := -1\<rparr> else w1)
      in w2\<lparr>sw_file_size := 0, sw_segment_size := 0, sw_segment_count := 0\<rparr>)"

text \<open>Moving: the target takes everything over, the source keeps neither file nor mappings.\<close>

definition segment_move :: "SegmentWriter \<Rightarrow> SegmentWriter \<times> SegmentWriter" where
  "segment_move other =
     (other, other\<lparr>sw_file_path := [], sw_fd := -1, sw_mapped_segments := Map.empty,
                   sw_cached_seg_idx := UINT32_MAX, sw_cached_seg := None\<rparr>)"

text \<open>Assignment by moving from another writer: the target first gives back what it has.\<close>

definition segment_move_assign :: "SegmentWriter \<Rightarrow> SegmentWriter \<Rightarrow> SegmentWriter \<times> SegmentWriter" where
  "segment_move_assign this other =
     (let w = segment_close this
      in (w\<lparr>sw_file_path := sw_file_path other, sw_file_size := sw_file_size other, sw_segment_size := sw_segment_size other,
            sw_segment_count := sw_segment_count other, sw_fd := sw_fd other, sw_mapped_segments := sw_mapped_segments other,
            sw_cached_seg_idx := sw_cached_seg_idx other, sw_cached_seg := sw_cached_seg other\<rparr>,
          other\<lparr>sw_file_path := [], sw_fd := -1, sw_mapped_segments := Map.empty, sw_cached_seg_idx := UINT32_MAX, sw_cached_seg := None\<rparr>))"

lemma segment_move_assign_moves: "segment_move_assign this other = segment_move other"
  by (simp add: segment_move_assign_def segment_move_def Let_def)

section \<open>The invariant\<close>

text \<open>An open writer: the layout matches the file size, every mapped segment covers its part of the
  file plus the guard, and the cached pointer, when set, points to the entry of the cached index.\<close>

definition seg_extent :: "SegmentWriter \<Rightarrow> u32 \<Rightarrow> nat" where
  "seg_extent w i = min (unat (sw_segment_size w) + 2 ^ 20) (unat (sw_file_size w) - unat i * unat (sw_segment_size w))"

definition sw_layout :: "SegmentWriter \<Rightarrow> bool" where
  "sw_layout w \<longleftrightarrow> sw_fd w \<ge> 0 \<and> 0 < unat (sw_file_size w) \<and> unat (sw_file_size w) < 2 ^ 50
     \<and> 2 ^ 20 \<le> unat (sw_segment_size w) \<and> unat (sw_segment_size w) < 2 ^ 50
     \<and> unat (sw_segment_count w) = (unat (sw_file_size w) + unat (sw_segment_size w) - 1) div unat (sw_segment_size w)"

definition sw_inv :: "SegmentWriter \<Rightarrow> bool" where
  "sw_inv w \<longleftrightarrow> sw_layout w
     \<and> (\<forall>i seg. sw_mapped_segments w i = Some seg \<longrightarrow> i < sw_segment_count w \<and> unat (seg_size seg) = seg_extent w i)
     \<and> (sw_cached_seg_idx w = UINT32_MAX
        \<or> sw_cached_seg w = Some (sw_cached_seg_idx w) \<and> sw_mapped_segments w (sw_cached_seg_idx w) \<noteq> None)"

lemma segment_count_bound:
  fixes f s :: nat
  assumes "f < 2 ^ 50" "2 ^ 20 \<le> s"
  shows "(f + s - 1) div s < 2 ^ 31"
proof -
  have "f + s - 1 < 2 ^ 31 * s" using assms by simp
  then show ?thesis by (simp add: less_mult_imp_div_less)
qed

lemma unat_count:
  fixes fs ss :: u64
  assumes "0 < unat fs" "unat fs < 2 ^ 50" "2 ^ 20 \<le> unat ss" "unat ss < 2 ^ 50"
  shows "unat (ucast ((fs + ss - 1) div ss) :: u32) = (unat fs + unat ss - 1) div unat ss"
proof -
  have s: "unat (fs + ss) = unat fs + unat ss" using assms by (simp add: unat_word_ariths)
  have nz: "fs + ss \<noteq> 0"
  proof
    assume "fs + ss = 0"
    then have "unat (fs + ss) = 0" by simp
    then show False using s assms by simp
  qed
  have "unat ((fs + ss - 1) div ss) = (unat fs + unat ss - 1) div unat ss"
    using unat_dec[OF nz] by (simp add: unat_div s)
  then show ?thesis using segment_count_bound[of "unat fs" "unat ss"] assms by (simp add: unsigned_ucast_eq take_bit_nat_eq_self)
qed

lemma open_inv:
  assumes "segment_open path fs ss existing fd fa ft new_segment_writer = (True, w, content)" "unat fs < 2 ^ 50" "unat ss < 2 ^ 50"
  shows "sw_inv w \<and> sw_file_size w = fs \<and> (\<forall>bs. content = Some bs \<longrightarrow> of_nat (length bs) = fs)"
proof -
  define s where "s = (if ss < MAX_CHUNK_SIZE then MAX_CHUNK_SIZE else ss)"
  have s: "2 ^ 20 \<le> unat s" "unat s < 2 ^ 50"
    using assms(3) by (auto simp: s_def MAX_CHUNK_SIZE_def word_less_nat_alt)
  have f: "fs \<noteq> 0" using assms(1) by (auto simp: segment_open_def)
  then have "0 < unat fs" by (simp add: unat_gt_0)
  note c = unat_count[OF this assms(2) s]
  have w: "w = new_segment_writer\<lparr>sw_file_path := path, sw_file_size := fs, sw_segment_size := s,
      sw_segment_count := ucast ((fs + s - 1) div s), sw_fd := fd\<rparr>" "fd \<ge> 0"
    using assms(1) f by (auto simp: segment_open_def Let_def s_def split: if_splits option.splits)
  have "sw_inv w"
    using w s c assms(2) \<open>0 < unat fs\<close> by (simp add: sw_inv_def sw_layout_def new_segment_writer_def)
  moreover have "\<forall>bs. content = Some bs \<longrightarrow> of_nat (length bs) = fs"
    using assms(1) f by (auto simp: segment_open_def Let_def split: if_splits option.splits)
  ultimately show ?thesis using w(1) by simp
qed

section \<open>Chunk addresses\<close>

lemma segment_start:
  assumes "sw_layout w" "i < sw_segment_count w"
  shows "unat i * unat (sw_segment_size w) < unat (sw_file_size w)"
    "unat (ucast i * sw_segment_size w) = unat i * unat (sw_segment_size w)"
proof -
  let ?s = "unat (sw_segment_size w)" and ?f = "unat (sw_file_size w)"
  have "Suc (unat i) \<le> (?f + ?s - 1) div ?s" using assms by (simp add: sw_layout_def word_less_nat_alt)
  then have "Suc (unat i) * ?s \<le> ?f + ?s - 1"
    by (meson div_times_less_eq_dividend mult_le_mono1 order_trans)
  moreover have "0 < ?f" using assms(1) by (simp add: sw_layout_def)
  ultimately show l: "unat i * ?s < ?f" by simp
  then have "unat i * ?s < 2 ^ 64" using assms(1) by (simp add: sw_layout_def)
  then show "unat (ucast i * sw_segment_size w) = unat i * ?s"
    by (simp add: unat_word_ariths unsigned_ucast_eq take_bit_nat_eq_self unat_u32_less[simplified] less_trans[OF unat_u32_less[simplified]])
qed

lemma map_size:
  assumes "sw_layout w" "i < sw_segment_count w"
  shows "unat (min (sw_segment_size w + MAX_CHUNK_SIZE) (sw_file_size w - ucast i * sw_segment_size w)) = seg_extent w i"
proof -
  note st = segment_start[OF assms]
  have a: "unat (sw_segment_size w + MAX_CHUNK_SIZE) = unat (sw_segment_size w) + 2 ^ 20"
    using assms(1) by (simp add: sw_layout_def MAX_CHUNK_SIZE_def unat_word_ariths)
  have b: "unat (sw_file_size w - ucast i * sw_segment_size w) = unat (sw_file_size w) - unat i * unat (sw_segment_size w)"
    using st by (simp add: unat_sub word_le_nat_alt)
  show ?thesis unfolding seg_extent_def min_def word_le_nat_alt a b by (simp add: a b split: if_split)
qed

lemma div_succ: "0 < s \<Longrightarrow> x div s + 1 = (x + s) div s" for x s :: nat
  using div_add_self2[of s x] by linarith

lemma find_segment_found:
  assumes inv: "sw_inv w" and i: "i < sw_segment_count w" and mm: "\<And>st n. mm st n \<noteq> None"
  shows "\<exists>seg w'. find_segment mm i w = (Some seg, w') \<and> sw_inv w' \<and> sw_mapped_segments w \<subseteq>\<^sub>m sw_mapped_segments w'
     \<and> sw_mapped_segments w' i = Some seg \<and> sw_file_size w' = sw_file_size w \<and> sw_segment_size w' = sw_segment_size w"
proof -
  have lay: "sw_layout w" using inv by (simp add: sw_inv_def)
  have ext: "seg_extent (w\<lparr>sw_mapped_segments := x, sw_cached_seg_idx := y, sw_cached_seg := z\<rparr>) j = seg_extent w j"
      "seg_extent (w\<lparr>sw_cached_seg_idx := y, sw_cached_seg := z\<rparr>) j = seg_extent w j" for x y z j
    by (simp_all add: seg_extent_def)
  have "unat (sw_segment_count w) < 2 ^ 31"
    using lay segment_count_bound[of "unat (sw_file_size w)" "unat (sw_segment_size w)"] by (simp add: sw_layout_def)
  then have "i \<noteq> UINT32_MAX" using i by (auto simp: UINT32_MAX_def word_less_nat_alt)
  show ?thesis
  proof (cases "i = sw_cached_seg_idx w")
    case True
    then show ?thesis using inv \<open>i \<noteq> UINT32_MAX\<close> by (auto simp: sw_inv_def find_segment_def)
  next
    case False
    show ?thesis
    proof (cases "sw_mapped_segments w i")
      case None
      obtain a where a: "mm (ucast i * sw_segment_size w)
          (min (sw_segment_size w + MAX_CHUNK_SIZE) (sw_file_size w - ucast i * sw_segment_size w)) = Some a"
        using mm by fastforce
      show ?thesis
        using False None inv i a map_size[OF lay i]
        by (simp add: find_segment_def map_segment_def sw_inv_def ext sw_layout_def map_le_def dom_def)
    next
      case (Some seg)
      then show ?thesis using False inv by (simp add: find_segment_def sw_inv_def ext sw_layout_def)
    qed
  qed
qed


definition example_segments :: SegmentWriter where
  "example_segments = fst (snd (segment_open ''out.bin'' 3000000 0 None 3 True True new_segment_writer))"

lemma example_segments_inv: "sw_inv example_segments" "sw_file_size example_segments = 3000000" "sw_segment_size example_segments = 2 ^ 20"
proof -
  have "segment_open ''out.bin'' 3000000 0 None 3 True True new_segment_writer
      = (True, example_segments, Some (replicate (unat (3000000 :: u64)) 0))"
    by (simp add: example_segments_def segment_open_def Let_def)
  from open_inv[OF this] show "sw_inv example_segments" "sw_file_size example_segments = 3000000" by simp_all
  show "sw_segment_size example_segments = 2 ^ 20"
    by (simp add: example_segments_def segment_open_def Let_def MAX_CHUNK_SIZE_def)
qed


end
