(* ===== verification/Fastcdc.thy ===== *)
theory Fastcdc
  imports Tseed
begin

unbundle bit_operations_syntax

text \<open>
  \<open>src/src/cdc\<close>: the FastCDC scanner. The gear table, the rolling update, the mask
  computation and the scan loop are translated as they are; SHA-256 is an argument, and the
  callback of the C++ code is the list of entries it is called with, in order. Positions in
  the buffer are naturals (a buffer in memory is shorter than \<open>2 ^ 64\<close> bytes). The lemmas
  show that the chunks tile the buffer, their size bounds, that the chunks after a boundary
  depend on the bytes after it only, and that with the table and update of the code no mask
  of nine or more bits ever matches, so that the cuts fall at the maximal size only.
\<close>

subsection \<open>The gear table and the rolling update\<close>

definition gear_next :: "u64 \<Rightarrow> u64" where
  "gear_next seed = (seed XOR drop_bit 12 seed) * 0x2545F4914F6CDD1D"

fun gear_gen :: "nat \<Rightarrow> u64 \<Rightarrow> u64 list" where
  "gear_gen 0 seed = []"
| "gear_gen (Suc n) seed = (let s = gear_next seed in s # gear_gen n s)"

definition GEAR :: "u64 list" where
  "GEAR = gear_gen 256 0x9E3779B185EBCA87"

definition gear_update :: "u8 \<Rightarrow> u64 \<Rightarrow> u64" where
  "gear_update b fp = push_bit 1 fp OR (drop_bit 63 fp XOR GEAR ! unat b)"

subsection \<open>Configuration and scan state\<close>

record FastCDCConfig =
  min_size :: u32
  avg_size :: u32
  max_size :: u32

definition default_config :: FastCDCConfig where
  "default_config = \<lparr>min_size = 16 * 1024, avg_size = 128 * 1024, max_size = 1024 * 1024\<rparr>"

record ScanState =
  st_data :: bytes
  st_size :: nat
  st_min_size :: u32
  st_avg_size :: u32
  st_max_size :: u32
  mask_bits :: nat
  chunk_mask :: u32

function mask_bits_loop :: "u32 \<Rightarrow> nat \<Rightarrow> nat" where
  "mask_bits_loop v n = (if v > 1 then mask_bits_loop (drop_bit 1 v) (n + 1) else n)"
  by pat_completeness auto
termination
proof (relation "measure (\<lambda>(v, n). unat v)")
  fix v :: u32 and n
  assume "v > 1"
  then have "1 < unat v" by (simp add: word_less_nat_alt)
  then show "((drop_bit 1 v, n + 1), v, n) \<in> measure (\<lambda>(v, n). unat v)"
    by (simp add: drop_bit_eq_div unat_div)
qed simp

declare mask_bits_loop.simps [simp del]

definition init_scan_state :: "ScanState \<Rightarrow> FastCDCConfig \<Rightarrow> ScanState" where
  "init_scan_state st cfg =
     (let b = mask_bits_loop (avg_size cfg) 0;
          b = (if b > 1 then b - 2 else b)
      in st\<lparr>mask_bits := b,
            chunk_mask := push_bit b 1 - 1,
            st_min_size := min_size cfg,
            st_avg_size := avg_size cfg,
            st_max_size := max_size cfg\<rparr>)"

subsection \<open>The scan\<close>

definition chunk_entry :: "nat \<Rightarrow> nat \<Rightarrow> bytes \<Rightarrow> ChunkEntry" where
  "chunk_entry off len h = \<lparr>ce_offset = of_nat off, ce_length = of_nat len, ce_sha256 = h\<rparr>"

definition boundary_matched :: "ScanState \<Rightarrow> nat \<Rightarrow> u64 \<Rightarrow> bool" where
  "boundary_matched st pos fp \<longleftrightarrow> pos \<ge> unat (st_min_size st) \<and> fp AND ucast (chunk_mask st) = 0"

function scan_loop ::
    "(bytes \<Rightarrow> bytes) \<Rightarrow> ScanState \<Rightarrow> nat \<Rightarrow> nat \<Rightarrow> u64 \<Rightarrow> ChunkEntry list" where
  "scan_loop sha256 st i offset_start fingerprint =
     (if i < st_size st then
        let fp = gear_update (st_data st ! i) fingerprint;
            pos = i - offset_start + 1;
            at_max = (pos \<ge> unat (st_max_size st))
        in if boundary_matched st pos fp \<or> at_max \<or> i = st_size st - 1 then
             let chunk_len = (if i = st_size st - 1 then st_size st - offset_start else pos);
                 hash = sha256 (take chunk_len (drop offset_start (st_data st)))
             in chunk_entry offset_start chunk_len hash # scan_loop sha256 st (i + 1) (i + 1) 0
           else scan_loop sha256 st (i + 1) offset_start fp
      else [])"
  by pat_completeness auto
termination
  by (relation "measure (\<lambda>(sha256, st, i, offset_start, fp). st_size st - i)") auto

declare scan_loop.simps [simp del]

definition fastcdc_scan_buffer ::
    "(bytes \<Rightarrow> bytes) \<Rightarrow> bytes \<Rightarrow> FastCDCConfig \<Rightarrow> ChunkEntry list" where
  "fastcdc_scan_buffer sha256 data cfg =
     (if length data = 0 then []
      else let st = \<lparr>st_data = data, st_size = length data, st_min_size = 0, st_avg_size = 0,
                     st_max_size = 0, mask_bits = 0, chunk_mask = 0\<rparr>
           in scan_loop sha256 (init_scan_state st cfg) 0 0 0)"

text \<open>
  \<open>fastcdc_scan_file\<close>: \<open>mapped\<close> is the content seen through the memory map, \<open>None\<close> when
  mapping fails (as it does for an empty file); \<open>readable\<close> is the content read by the
  fallback, \<open>None\<close> when the file cannot be opened either.
\<close>

definition fastcdc_scan_file ::
    "(bytes \<Rightarrow> bytes) \<Rightarrow> bytes option \<Rightarrow> bytes option \<Rightarrow> FastCDCConfig \<Rightarrow> ChunkEntry list" where
  "fastcdc_scan_file sha256 mapped readable cfg =
     (case mapped of
        Some data \<Rightarrow> fastcdc_scan_buffer sha256 data cfg
      | None \<Rightarrow>
          (case readable of
             None \<Rightarrow> []
           | Some buf \<Rightarrow> fastcdc_scan_buffer sha256 buf cfg))"

subsection \<open>The chunks tile the buffer\<close>

fun tiled :: "nat \<Rightarrow> nat \<Rightarrow> ChunkEntry list \<Rightarrow> bool" where
  "tiled start stop [] \<longleftrightarrow> start = stop"
| "tiled start stop (c # cs) \<longleftrightarrow>
     unat (ce_offset c) = start \<and> 0 < unat (ce_length c) \<and>
     tiled (start + unat (ce_length c)) stop cs"

definition chunk_bytes :: "bytes \<Rightarrow> ChunkEntry \<Rightarrow> bytes" where
  "chunk_bytes data c = take (unat (ce_length c)) (drop (unat (ce_offset c)) data)"

lemma tiled_concat:
  "tiled start (length data) cs \<Longrightarrow> concat (map (chunk_bytes data) cs) = drop start data"
proof (induction cs arbitrary: start)
  case (Cons c cs)
  then have "concat (map (chunk_bytes data) cs) = drop (unat (ce_length c)) (drop start data)"
    by (simp add: add.commute)
  moreover have "chunk_bytes data c = take (unat (ce_length c)) (drop start data)"
    using Cons.prems by (simp add: chunk_bytes_def)
  ultimately show ?case by (simp del: drop_drop)
qed simp

text \<open>What the loop maintains: the open chunk starts before \<open>i\<close> and is shorter than the maximum.\<close>

definition scan_inv :: "ScanState \<Rightarrow> nat \<Rightarrow> nat \<Rightarrow> bool" where
  "scan_inv st i start \<longleftrightarrow>
     st_size st = length (st_data st) \<and> length (st_data st) < 2 ^ 64 \<and>
     start \<le> i \<and> i \<le> st_size st \<and> (i = st_size st \<longrightarrow> start = i) \<and>
     i - start < max 1 (unat (st_max_size st))"

lemma scan_loop_stop: "i \<ge> st_size st \<Longrightarrow> scan_loop sha256 st i start fp = []"
  by (simp add: scan_loop.simps)

lemma unat_u32_of_nat: "n < 2 ^ 32 \<Longrightarrow> unat (of_nat n :: u32) = n"
  by (simp add: unat_of_nat take_bit_eq_mod)

lemma unat_u64_of_nat: "n < 2 ^ 64 \<Longrightarrow> unat (of_nat n :: u64) = n"
  by (simp add: unat_of_nat take_bit_eq_mod)

lemma u32_bound: "unat (v :: u32) < 2 ^ 32"
  using unsigned_less [of v] by simp

abbreviation cut_here :: "ScanState \<Rightarrow> nat \<Rightarrow> nat \<Rightarrow> u64 \<Rightarrow> bool" where
  "cut_here st i start fp \<equiv>
     boundary_matched st (i - start + 1) (gear_update (st_data st ! i) fp) \<or>
     i - start + 1 \<ge> unat (st_max_size st) \<or> i = st_size st - 1"

lemma scan_loop_cut:
  assumes "scan_inv st i start" "i < st_size st" "cut_here st i start fp"
  shows "scan_loop sha256 st i start fp =
     chunk_entry start (i - start + 1) (sha256 (take (i - start + 1) (drop start (st_data st))))
     # scan_loop sha256 st (i + 1) (i + 1) 0"
proof -
  have "i = st_size st - 1 \<Longrightarrow> st_size st - start = i - start + 1"
    using assms(1,2) by (auto simp: scan_inv_def)
  with assms(2,3) show ?thesis by (subst scan_loop.simps) (auto simp: Let_def)
qed

lemma scan_loop_extend:
  assumes "i < st_size st" "\<not> cut_here st i start fp"
  shows "scan_loop sha256 st i start fp =
     scan_loop sha256 st (i + 1) start (gear_update (st_data st ! i) fp)"
  using assms by (subst scan_loop.simps) (auto simp: Let_def)

lemma scan_inv_cut: "scan_inv st i start \<Longrightarrow> i < st_size st \<Longrightarrow> scan_inv st (i + 1) (i + 1)"
  by (auto simp: scan_inv_def)

lemma scan_inv_extend:
  "scan_inv st i start \<Longrightarrow> i < st_size st \<Longrightarrow> \<not> cut_here st i start fp \<Longrightarrow>
     scan_inv st (i + 1) start"
  by (auto simp: scan_inv_def)

lemma chunk_entry_fields:
  assumes "scan_inv st i start" "i < st_size st"
  shows "unat (ce_offset (chunk_entry start (i - start + 1) h)) = start"
    "unat (ce_length (chunk_entry start (i - start + 1) h)) = i - start + 1"
proof -
  have "i - start + 1 < 2 ^ 32" "start < 2 ^ 64"
    using assms u32_bound [of "st_max_size st"] by (auto simp: scan_inv_def)
  then show "unat (ce_offset (chunk_entry start (i - start + 1) h)) = start"
    "unat (ce_length (chunk_entry start (i - start + 1) h)) = i - start + 1"
    by (simp_all only: chunk_entry_def ChunkEntry.simps unat_u32_of_nat unat_u64_of_nat)
qed

text \<open>
  One induction over the loop serves every property of it: what holds of the empty list, is
  kept by a cut and by an extension, holds of the scan.
\<close>

lemma scan_loop_induct [consumes 1, case_names stop cut extend]:
  assumes "scan_inv st i start"
    and "\<And>i start fp. scan_inv st i start \<Longrightarrow> st_size st \<le> i \<Longrightarrow> P i start fp []"
    and "\<And>i start fp. scan_inv st i start \<Longrightarrow> i < st_size st \<Longrightarrow> cut_here st i start fp \<Longrightarrow>
      P (i + 1) (i + 1) 0 (scan_loop sha256 st (i + 1) (i + 1) 0) \<Longrightarrow>
      P i start fp (chunk_entry start (i - start + 1)
         (sha256 (take (i - start + 1) (drop start (st_data st))))
         # scan_loop sha256 st (i + 1) (i + 1) 0)"
    and "\<And>i start fp. scan_inv st i start \<Longrightarrow> i < st_size st \<Longrightarrow> \<not> cut_here st i start fp \<Longrightarrow>
      P (i + 1) start (gear_update (st_data st ! i) fp)
        (scan_loop sha256 st (i + 1) start (gear_update (st_data st ! i) fp)) \<Longrightarrow>
      P i start fp (scan_loop sha256 st (i + 1) start (gear_update (st_data st ! i) fp))"
  shows "P i start fp (scan_loop sha256 st i start fp)"
  using assms(1)
proof (induction "st_size st - i" arbitrary: i start fp)
  case 0
  then show ?case using assms(2) by (simp add: scan_loop_stop)
next
  case (Suc n)
  from Suc.hyps(2) have i: "i < st_size st" and n: "n = st_size st - (i + 1)" by simp_all
  show ?case
  proof (cases "cut_here st i start fp")
    case True
    have "P (i + 1) (i + 1) 0 (scan_loop sha256 st (i + 1) (i + 1) 0)"
      using Suc.hyps(1) [OF n] scan_inv_cut [OF Suc.prems i] by blast
    with assms(3) [OF Suc.prems i True] show ?thesis
      unfolding scan_loop_cut [OF Suc.prems i True] by blast
  next
    case False
    have "P (i + 1) start (gear_update (st_data st ! i) fp)
        (scan_loop sha256 st (i + 1) start (gear_update (st_data st ! i) fp))"
      using Suc.hyps(1) [OF n] scan_inv_extend [OF Suc.prems i False] by blast
    with assms(4) [OF Suc.prems i False] show ?thesis
      unfolding scan_loop_extend [OF i False] by blast
  qed
qed

lemma scan_loop_tiled:
  "scan_inv st i start \<Longrightarrow> tiled start (st_size st) (scan_loop sha256 st i start fp)"
proof (induction rule: scan_loop_induct)
  case (stop i start fp)
  then show ?case by (auto simp: scan_inv_def)
next
  case (cut i start fp)
  then have "start + (i - start + 1) = i + 1" by (auto simp: scan_inv_def)
  with cut show ?case by (simp only: tiled.simps chunk_entry_fields) simp
qed

lemma scan_loop_hashes:
  "scan_inv st i start \<Longrightarrow> \<forall>c \<in> set (scan_loop sha256 st i start fp).
     ce_sha256 c = sha256 (chunk_bytes (st_data st) c)"
proof (induction rule: scan_loop_induct)
  case (cut i start fp)
  then show ?case
    by (simp only: list.set ball_simps chunk_bytes_def chunk_entry_fields)
      (simp add: chunk_entry_def)
qed auto

lemma scan_loop_upper:
  "scan_inv st i start \<Longrightarrow> \<forall>c \<in> set (scan_loop sha256 st i start fp).
     unat (ce_length c) \<le> max 1 (unat (st_max_size st))"
proof (induction rule: scan_loop_induct)
  case (cut i start fp)
  then show ?case
    by (simp only: list.set ball_simps chunk_entry_fields) (auto simp: scan_inv_def)
qed auto

lemma scan_loop_lower:
  "scan_inv st i start \<Longrightarrow> \<forall>c \<in> set (butlast (scan_loop sha256 st i start fp)).
     min (unat (st_min_size st)) (unat (st_max_size st)) \<le> unat (ce_length c)"
proof (induction rule: scan_loop_induct)
  case (cut i start fp)
  let ?rest = "scan_loop sha256 st (i + 1) (i + 1) 0"
  show ?case
  proof (cases "i = st_size st - 1")
    case True
    then have "?rest = []" by (simp add: scan_loop_stop)
    then show ?thesis by simp
  next
    case False
    with cut have "min (unat (st_min_size st)) (unat (st_max_size st)) \<le> i - start + 1"
      by (auto simp: boundary_matched_def)
    with cut show ?thesis
      by (simp only: butlast.simps list.set ball_simps chunk_entry_fields split: if_splits) auto
  qed
qed auto

subsection \<open>Chunks after a boundary depend on the bytes after it\<close>

definition shift_entry :: "nat \<Rightarrow> ChunkEntry \<Rightarrow> ChunkEntry" where
  "shift_entry k c = c\<lparr>ce_offset := of_nat (k + unat (ce_offset c))\<rparr>"

definition suffix_state :: "nat \<Rightarrow> ScanState \<Rightarrow> ScanState" where
  "suffix_state k st = st\<lparr>st_data := drop k (st_data st), st_size := st_size st - k\<rparr>"

lemma suffix_state_fields [simp]:
  "st_data (suffix_state k st) = drop k (st_data st)"
  "st_size (suffix_state k st) = st_size st - k"
  "st_max_size (suffix_state k st) = st_max_size st"
  "boundary_matched (suffix_state k st) = boundary_matched st"
  by (auto simp: suffix_state_def boundary_matched_def fun_eq_iff)

lemma shift_chunk_entry:
  "k + off < 2 ^ 64 \<Longrightarrow> shift_entry k (chunk_entry off len h) = chunk_entry (k + off) len h"
  by (simp add: shift_entry_def chunk_entry_def unat_u64_of_nat del: of_nat_add)

lemma scan_loop_suffix:
  assumes "scan_inv st i start" "k \<le> start"
  shows "scan_loop sha256 st i start fp =
     map (shift_entry k) (scan_loop sha256 (suffix_state k st) (i - k) (start - k) fp)"
  using assms
proof (induction "st_size st - i" arbitrary: i start fp)
  case 0
  then show ?case by (simp add: scan_loop_stop)
next
  case (Suc n)
  let ?s = "suffix_state k st"
  from Suc.hyps(2) have i: "i < st_size st" and n: "n = st_size st - (i + 1)" by simp_all
  have ki: "k \<le> i" "start \<le> i" using Suc.prems by (auto simp: scan_inv_def)
  have inv': "scan_inv ?s (i - k) (start - k)"
    using Suc.prems by (auto simp: scan_inv_def)
  have i': "i - k < st_size ?s" using i ki by simp
  have cut': "cut_here ?s (i - k) (start - k) fp = cut_here st i start fp"
    using Suc.prems i ki by (auto simp: scan_inv_def Suc_diff_le)
  have dist: "i - k - (start - k) = i - start" "i - k + 1 = i + 1 - k"
    using ki Suc.prems(2) by auto
  show ?case
  proof (cases "cut_here st i start fp")
    case True
    have "start < 2 ^ 64" using Suc.prems i by (auto simp: scan_inv_def)
    then have "shift_entry k (chunk_entry (start - k) len h) = chunk_entry start len h" for len h
      using Suc.prems(2) shift_chunk_entry [of k "start - k"] by simp
    moreover have "scan_loop sha256 st (i + 1) (i + 1) 0 =
        map (shift_entry k) (scan_loop sha256 ?s (i + 1 - k) (i + 1 - k) 0)"
      using Suc.hyps(1) [OF n scan_inv_cut [OF Suc.prems(1) i]] ki by simp
    moreover have "cut_here ?s (i - k) (start - k) fp" using True cut' by blast
    ultimately show ?thesis
      using Suc.prems(2)
      by (simp only: scan_loop_cut [OF Suc.prems(1) i True] scan_loop_cut [OF inv' i'] dist
          list.map suffix_state_fields drop_drop) simp
  next
    case False
    then have nocut: "\<not> cut_here ?s (i - k) (start - k) fp" using cut' by blast
    have "st_data ?s ! (i - k) = st_data st ! i"
      using Suc.prems i ki by (auto simp: scan_inv_def)
    then show ?thesis
      using Suc.hyps(1) [OF n scan_inv_extend [OF Suc.prems(1) i False]] Suc.prems(2)
      unfolding scan_loop_extend [OF i False] scan_loop_extend [OF i' nocut] dist by simp
  qed
qed

lemma scan_loop_first_offset:
  "scan_inv st i start \<Longrightarrow> scan_loop sha256 st i start fp = c # cs \<Longrightarrow> unat (ce_offset c) = start"
  using scan_loop_tiled [of st i start sha256 fp] by simp

lemma scan_loop_drop:
  assumes "scan_inv st i start" "0 < k" "k < length (scan_loop sha256 st i start fp)"
  shows "\<exists>off. off = unat (ce_offset (scan_loop sha256 st i start fp ! k)) \<and> scan_inv st off off \<and>
    drop k (scan_loop sha256 st i start fp) = scan_loop sha256 st off off 0"
proof -
  let ?P = "\<lambda>es. \<forall>k. 0 < k \<longrightarrow> k < length es \<longrightarrow>
    (\<exists>off. off = unat (ce_offset (es ! k)) \<and> scan_inv st off off \<and>
      drop k es = scan_loop sha256 st off off 0)"
  from assms(1) have "?P (scan_loop sha256 st i start fp)"
  proof (induction rule: scan_loop_induct [where P = "\<lambda>i start fp. ?P"])
    case (cut i start fp)
    let ?rest = "scan_loop sha256 st (i + 1) (i + 1) 0"
    have inv: "scan_inv st (i + 1) (i + 1)" using scan_inv_cut cut.hyps by blast
    show ?case
    proof (intro allI impI)
      fix k :: nat
      let ?es = "chunk_entry start (i - start + 1)
        (sha256 (take (i - start + 1) (drop start (st_data st)))) # ?rest"
      assume "0 < k" and len: "k < length ?es"
      then obtain m where k: "k = Suc m" by (cases k) auto
      show "\<exists>off. off = unat (ce_offset (?es ! k)) \<and> scan_inv st off off \<and>
          drop k ?es = scan_loop sha256 st off off 0"
      proof (cases "m = 0")
        case True
        then obtain c cs where "?rest = c # cs" using len k by (cases ?rest) auto
        with scan_loop_first_offset [OF inv this] inv k True show ?thesis by simp
      next
        case False
        with cut(4) len k show ?thesis by simp
      qed
    qed
  qed auto
  with assms(2,3) show ?thesis by blast
qed

subsection \<open>Wide masks never match\<close>

text \<open>
  The update combines the shifted fingerprint and the gear value with a disjunction, so a one
  in bits 1 to 8 of the byte's gear value is a one of the fingerprint; every value of the
  table has such a one.
\<close>

lemma length_gear_gen [simp]: "length (gear_gen n s) = n"
  by (induction n arbitrary: s) (simp_all add: Let_def)

lemma GEAR_low_bits: "list_all (\<lambda>g. g AND 510 \<noteq> 0) GEAR"
  by code_simp

lemma GEAR_nth_low_bits: "GEAR ! unat (b :: u8) AND 510 \<noteq> 0"
proof -
  have "unat b < length GEAR" using unsigned_less [of b] by (simp add: GEAR_def)
  with GEAR_low_bits show ?thesis by (simp add: list_all_length)
qed

lemma gear_update_low_bits: "gear_update b fp AND 510 \<noteq> 0"
proof -
  obtain k where k: "bit (GEAR ! unat b AND 510) k" using GEAR_nth_low_bits bit_eqI
    by (metis bit_0_eq bot_apply bot_bool_def)
  have "k \<noteq> 0" using k by (cases k) (auto simp: bit_simps)
  then have "\<not> bit (drop_bit 63 fp) k"
    by (auto simp: bit_simps dest: bit_imp_le_length)
  with k have "bit (gear_update b fp AND 510) k"
    by (auto simp: gear_update_def bit_simps)
  then show ?thesis by auto
qed

lemma mask_bits_loop_lower: "2 ^ k \<le> unat v \<Longrightarrow> n + k \<le> mask_bits_loop v n"
proof (induction k arbitrary: v n)
  case 0
  have "n \<le> mask_bits_loop v n"
    by (induction v n rule: mask_bits_loop.induct) (subst mask_bits_loop.simps, fastforce)
  then show ?case by simp
next
  case (Suc k)
  have "(1 :: nat) \<le> 2 ^ k" by simp
  with Suc.prems have "1 < unat v" unfolding power_Suc by linarith
  then have "1 < v" by (simp add: word_less_nat_alt)
  moreover have "2 ^ k \<le> unat (drop_bit 1 v)"
    using Suc.prems by (simp add: drop_bit_eq_div unat_div)
  ultimately show ?case using Suc.IH [of "drop_bit 1 v" "n + 1"]
    by (subst mask_bits_loop.simps) simp
qed

lemma mask_bits_loop_upper: "unat v < 2 ^ Suc k \<Longrightarrow> mask_bits_loop v n \<le> n + k"
proof (induction k arbitrary: v n)
  case 0
  then have "\<not> 1 < v" by (simp add: word_less_nat_alt)
  then show ?case by (subst mask_bits_loop.simps) simp
next
  case (Suc k)
  have "unat (drop_bit 1 v) < 2 ^ Suc k"
    using Suc.prems by (simp add: drop_bit_eq_div unat_div)
  then have "mask_bits_loop (drop_bit 1 v) (n + 1) \<le> n + 1 + k" by (rule Suc.IH)
  then show ?case by (subst mask_bits_loop.simps) simp
qed

lemma mask_bits_bounds: "mask_bits (init_scan_state st cfg) < 32"
proof -
  have "mask_bits_loop (avg_size cfg) 0 \<le> 0 + 31"
    using unsigned_less [of "avg_size cfg"] by (intro mask_bits_loop_upper) simp
  then show ?thesis by (auto simp: init_scan_state_def Let_def)
qed

lemma chunk_mask_mask:
  "chunk_mask (init_scan_state st cfg) = mask (mask_bits (init_scan_state st cfg))"
  by (simp add: init_scan_state_def Let_def mask_eq_exp_minus_1 push_bit_eq_mult)

lemma wide_mask_covers:
  assumes "2048 \<le> avg_size cfg"
  shows "(ucast (chunk_mask (init_scan_state st cfg)) :: u64) AND 510 = 510"
proof -
  have "2 ^ 11 \<le> unat (avg_size cfg)" using assms by (simp add: word_le_nat_alt)
  from mask_bits_loop_lower [OF this, of 0]
  have "9 \<le> mask_bits (init_scan_state st cfg)"
    by (simp add: init_scan_state_def Let_def)
  then have "bit (chunk_mask (init_scan_state st cfg)) k" if "k < 9" for k
    using that by (simp add: chunk_mask_mask bit_simps)
  moreover have "k < 9" if "bit (510 :: u64) k" for k
  proof -
    have "(510 :: u64) = push_bit 1 (mask 8)" by code_simp
    with that have "bit (push_bit 1 (mask 8) :: u64) k" by (simp only:)
    then show ?thesis by (auto simp only: bit_push_bit_iff bit_mask_iff)
  qed
  ultimately show ?thesis by (intro bit_word_eqI) (auto simp: bit_simps)
qed

lemma wide_mask_no_match:
  assumes "2048 \<le> avg_size cfg"
  shows "\<not> boundary_matched (init_scan_state st cfg) pos (gear_update b fp)"
proof
  let ?m = "ucast (chunk_mask (init_scan_state st cfg)) :: u64"
  assume "boundary_matched (init_scan_state st cfg) pos (gear_update b fp)"
  then have "gear_update b fp AND (?m AND 510) = 0"
    by (simp add: boundary_matched_def flip: and.assoc)
  with gear_update_low_bits [of b fp] show False by (simp only: wide_mask_covers [OF assms])
qed

lemma scan_loop_fixed:
  assumes "\<And>pos b fp. \<not> boundary_matched st pos (gear_update b fp)" and "scan_inv st i start"
  shows "\<forall>c \<in> set (butlast (scan_loop sha256 st i start fp)).
     unat (ce_length c) = max 1 (unat (st_max_size st))"
  using assms(2)
proof (induction rule: scan_loop_induct)
  case (cut i start fp)
  let ?rest = "scan_loop sha256 st (i + 1) (i + 1) 0"
  show ?case
  proof (cases "i = st_size st - 1")
    case True
    then have "?rest = []" by (simp add: scan_loop_stop)
    then show ?thesis by simp
  next
    case False
    with cut assms(1) have "unat (st_max_size st) \<le> i - start + 1" by auto
    with cut(1) have "i - start + 1 = max 1 (unat (st_max_size st))"
      by (auto simp: scan_inv_def)
    with chunk_entry_fields(2) [OF cut(1,2)] cut(4) show ?thesis by simp
  qed
qed auto

subsection \<open>The scan of a buffer\<close>

definition start_state :: "bytes \<Rightarrow> FastCDCConfig \<Rightarrow> ScanState" where
  "start_state data cfg = init_scan_state
     \<lparr>st_data = data, st_size = length data, st_min_size = 0, st_avg_size = 0,
      st_max_size = 0, mask_bits = 0, chunk_mask = 0\<rparr> cfg"

lemma start_state_fields [simp]:
  "st_data (start_state data cfg) = data"
  "st_size (start_state data cfg) = length data"
  "st_min_size (start_state data cfg) = min_size cfg"
  "st_max_size (start_state data cfg) = max_size cfg"
  by (simp_all add: start_state_def init_scan_state_def Let_def)

lemma scan_inv_start: "length data < 2 ^ 64 \<Longrightarrow> scan_inv (start_state data cfg) 0 0"
  by (auto simp: scan_inv_def)

lemma scan_buffer_loop:
  "fastcdc_scan_buffer sha256 data cfg = scan_loop sha256 (start_state data cfg) 0 0 0"
  by (simp add: fastcdc_scan_buffer_def start_state_def [symmetric] scan_loop_stop)

lemma suffix_start_state: "suffix_state k (start_state data cfg) = start_state (drop k data) cfg"
  by (simp add: suffix_state_def start_state_def init_scan_state_def Let_def)

lemmas scan_buffer_lemmas =
  scan_loop_tiled [OF scan_inv_start] scan_loop_hashes [OF scan_inv_start]
  scan_loop_upper [OF scan_inv_start] scan_loop_lower [OF scan_inv_start]

text \<open>C8. The chunks of a scan tile the buffer: they start at offset 0, each begins where the
  one before ends, none is empty, their bytes in order are the bytes of the buffer, and each
  carries the digest of its own bytes.\<close>

theorem scan_tiles_buffer:
  assumes "length data < 2 ^ 64"
  shows "tiled 0 (length data) (fastcdc_scan_buffer sha256 data cfg) \<and>
     concat (map (chunk_bytes data) (fastcdc_scan_buffer sha256 data cfg)) = data \<and>
     (\<forall>c \<in> set (fastcdc_scan_buffer sha256 data cfg). ce_sha256 c = sha256 (chunk_bytes data c))"
  using scan_buffer_lemmas(1) [OF assms, of cfg sha256 0]
    scan_buffer_lemmas(2) [OF assms, of sha256 cfg 0]
    tiled_concat [of 0 data "fastcdc_scan_buffer sha256 data cfg"]
  by (simp add: scan_buffer_loop)


text \<open>C16. The chunks from a boundary on are the chunks of the rest of the buffer scanned on its
  own, moved by the offset of the boundary. Two files that agree after a boundary of each
  therefore share every chunk digest after it, which is what an incremental update reuses.\<close>

theorem scan_resynchronises:
  assumes "length data < 2 ^ 64"
    and "k < length (fastcdc_scan_buffer sha256 data cfg)"
    and "off = unat (ce_offset (fastcdc_scan_buffer sha256 data cfg ! k))"
  shows "drop k (fastcdc_scan_buffer sha256 data cfg) =
     map (shift_entry off) (fastcdc_scan_buffer sha256 (drop off data) cfg)"
proof -
  let ?st = "start_state data cfg"
  have "scan_inv ?st off off \<and>
      drop k (fastcdc_scan_buffer sha256 data cfg) = scan_loop sha256 ?st off off 0"
  proof (cases "k = 0")
    case True
    with assms(2) obtain c cs where "scan_loop sha256 ?st 0 0 0 = c # cs"
      by (cases "scan_loop sha256 ?st 0 0 0") (auto simp: scan_buffer_loop)
    with True assms(3) scan_loop_first_offset [OF scan_inv_start [OF assms(1)] this]
      scan_inv_start [OF assms(1)] show ?thesis by (simp add: scan_buffer_loop)
  next
    case False
    then show ?thesis
      using scan_loop_drop [OF scan_inv_start [OF assms(1)], of k sha256 cfg 0] assms(2,3)
      by (simp add: scan_buffer_loop)
  qed
  then show ?thesis
    using scan_loop_suffix [of ?st off off off sha256 0]
    by (simp add: suffix_start_state scan_buffer_loop)
qed

text \<open>C17. With an average size of 2048 bytes or more (the default is 131072) the scanner never
  finds a content-defined boundary: every chunk but the last has exactly the maximal size, so
  the division into chunks is the fixed-size one.\<close>

theorem scan_fixed_size:
  assumes "length data < 2 ^ 64" and "2048 \<le> avg_size cfg"
  shows "\<forall>c \<in> set (butlast (fastcdc_scan_buffer sha256 data cfg)).
     unat (ce_length c) = max 1 (unat (max_size cfg))"
proof -
  have "\<not> boundary_matched (start_state data cfg) pos (gear_update b fp)" for pos b fp
    unfolding start_state_def by (rule wide_mask_no_match [OF assms(2)])
  from scan_loop_fixed [OF this scan_inv_start [OF assms(1)], of sha256 0] show ?thesis
    by (simp add: scan_buffer_loop)
qed

subsection \<open>Instances\<close>

definition example_config :: FastCDCConfig where
  "example_config = \<lparr>min_size = 100, avg_size = 4096, max_size = 2\<rparr>"

lemma example_scan:
  "fastcdc_scan_buffer sha [10, 20, 30] example_config =
     [chunk_entry 0 2 (sha [10, 20]), chunk_entry 2 1 (sha [30])]"
  by (simp add: scan_buffer_loop scan_loop.simps boundary_matched_def example_config_def
      start_state_def init_scan_state_def Let_def) (simp add: numeral_2_eq_2)

theorem scan_tiles_buffer_witness:
  "fastcdc_scan_buffer (\<lambda>d. d) [10, 20, 30] example_config =
     [chunk_entry 0 2 [10, 20], chunk_entry 2 1 [30]] \<and>
   tiled 0 3 (fastcdc_scan_buffer (\<lambda>d. d) [10, 20, 30] example_config) \<and>
   concat (map (chunk_bytes [10, 20, 30]) (fastcdc_scan_buffer (\<lambda>d. d) [10, 20, 30] example_config))
     = [10, 20, 30]"
  using scan_tiles_buffer [of "[10, 20, 30]" "\<lambda>d. d" example_config]
    example_scan [of "\<lambda>d. d"] by simp


theorem scan_resynchronises_witness:
  "[chunk_entry 2 1 [30]] =
     map (shift_entry 2) (fastcdc_scan_buffer (\<lambda>d. d) [30] example_config)"
proof -
  let ?es = "fastcdc_scan_buffer (\<lambda>d. d) [10, 20, 30] example_config"
  have "drop 1 ?es = map (shift_entry 2) (fastcdc_scan_buffer (\<lambda>d. d) (drop 2 [10, 20, 30]) example_config)"
    by (rule scan_resynchronises) (simp_all only: example_scan, simp_all add: chunk_entry_def)
  moreover have "drop 1 ?es = [chunk_entry 2 1 [30]]" by (simp only: example_scan) simp
  moreover have "drop 2 [10, 20, 30 :: u8] = [30]" by simp
  ultimately show ?thesis by (simp only:)
qed

theorem scan_fixed_size_witness:
  "butlast (fastcdc_scan_buffer (\<lambda>d. d) [10, 20, 30] example_config) = [chunk_entry 0 2 [10, 20]] \<and>
   unat (ce_length (chunk_entry 0 2 [10, 20])) = 2"
proof -
  have "(2048 :: u32) \<le> avg_size example_config" "unat (max_size example_config) = 2"
    by (simp_all add: example_config_def)
  then show ?thesis
    using scan_fixed_size [of "[10, 20, 30]" example_config "\<lambda>d. d"] by (simp add: example_scan)
qed

end
