(* ===== verification/Net_Util.thy ===== *)
theory Net_Util
  imports Text_Util
begin

text \<open>
  \<open>src/src/common/net_util.cpp\<close>, as built on Linux: choosing the local interface, its link speed, the
  random peer id, name resolution and the tracker URL. The interface list, the files of the kernel
  and the resolver are arguments. A C string ends at its first NUL character.
\<close>

section \<open>Interfaces\<close>

definition AF_INET :: nat where "AF_INET = 2"

record ifaddr =
  ifa_name :: string
  ifa_family :: "nat option"
  ifa_loopback :: bool
  ifa_up :: bool
  ifa_ip :: string

definition usable_ifaddr :: "ifaddr \<Rightarrow> bool" where
  "usable_ifaddr i \<longleftrightarrow> ifa_family i = Some AF_INET \<and> \<not> ifa_loopback i \<and> ifa_up i"

definition get_local_ip :: "ifaddr list option \<Rightarrow> string" where
  "get_local_ip ifap =
     (case ifap of
        None \<Rightarrow> []
      | Some is \<Rightarrow> (case find usable_ifaddr is of None \<Rightarrow> [] | Some i \<Rightarrow> ifa_ip i))"

text \<open>\<open>speed_file\<close> gives what extracting an unsigned number from a file of the kernel gives: \<open>None\<close> when it
  cannot be opened, \<open>Some None\<close> when no number can be read.\<close>

definition detect_link_speed_mbps :: "ifaddr list option \<Rightarrow> (string \<Rightarrow> u32 option option) \<Rightarrow> u32" where
  "detect_link_speed_mbps ifap speed_file =
     (case ifap of
        None \<Rightarrow> 1000
      | Some is \<Rightarrow>
          let ifname = (case find usable_ifaddr is of None \<Rightarrow> [] | Some i \<Rightarrow> ifa_name i)
          in if ifname = [] then 1000
             else case speed_file (''/sys/class/net/'' @ ifname @ ''/speed'') of
                    None \<Rightarrow> 1000
                  | Some None \<Rightarrow> 1000
                  | Some (Some speed) \<Rightarrow> if speed = 0 then 1000 else speed)"

definition generate_peer_id :: "(nat \<Rightarrow> int) \<Rightarrow> u8 list" where
  "generate_peer_id dist = map (\<lambda>i. of_int (dist i)) [0..<20]"

definition resolve_addr :: "(string \<Rightarrow> string \<Rightarrow> 'addr list option) \<Rightarrow> string \<Rightarrow> u16 \<Rightarrow> 'addr option" where
  "resolve_addr getaddrinfo host port =
     (case getaddrinfo host (show_nat (unat port)) of
        None \<Rightarrow> None
      | Some [] \<Rightarrow> None
      | Some (a # _) \<Rightarrow> Some a)"

section \<open>The tracker URL\<close>

record TrackerUrl =
  tu_host :: string
  tu_port :: u16

definition c_str :: "string \<Rightarrow> string" where
  "c_str s = takeWhile (\<lambda>ch. ch \<noteq> CHR 0x00) s"

definition is_space :: "char \<Rightarrow> bool" where
  "is_space ch \<longleftrightarrow> ch = CHR '' '' \<or> 9 \<le> (of_char ch :: nat) \<and> (of_char ch :: nat) \<le> 13"

text \<open>\<open>strtol\<close> in base 10: spaces, a sign, digits; \<open>None\<close> when there is no number. Values outside 64 bits are
  cut to the nearest one.\<close>

definition strtol :: "string \<Rightarrow> int option" where
  "strtol s =
     (let t = dropWhile is_space s;
          neg = (t \<noteq> [] \<and> hd t = CHR ''-''); signed = (t \<noteq> [] \<and> (hd t = CHR ''-'' \<or> hd t = CHR ''+''));
          ds = takeWhile is_digit (if signed then tl t else t)
      in if ds = [] then None
         else Some (if neg then max (- (2 ^ 63)) (- int (digits_val ds)) else min (2 ^ 63 - 1) (int (digits_val ds))))"

definition url_host :: "string \<Rightarrow> (string \<times> string) option" where
  "url_host p =
     (if p \<noteq> [] \<and> hd p = CHR ''[''
      then let q = tl p in if CHR '']'' \<in> set q
           then Some (takeWhile (\<lambda>ch. ch \<noteq> CHR '']'') q, tl (dropWhile (\<lambda>ch. ch \<noteq> CHR '']'') q)) else None
      else let h = takeWhile (\<lambda>ch. ch \<noteq> CHR '':'' \<and> ch \<noteq> CHR ''/'') p
           in if h = [] then None else Some (h, drop (length h) p))"

definition parse_tracker_url :: "string \<Rightarrow> TrackerUrl option" where
  "parse_tracker_url url =
     (if take 9 url \<noteq> ''thinbt://'' then None
      else case url_host (c_str (drop 9 url)) of
             None \<Rightarrow> None
           | Some (host, p) \<Rightarrow>
               if p = [] \<or> hd p \<noteq> CHR '':'' then None
               else case strtol (tl p) of
                      None \<Rightarrow> None
                    | Some port \<Rightarrow>
                        if port < 1 \<or> port > 65535 then None else Some \<lparr>tu_host = host, tu_port = of_int port\<rparr>)"

lemma strtol_number:
  assumes "n < 2 ^ 63" "rest = [] \<or> \<not> is_digit (hd rest)"
  shows "strtol (show_nat n @ rest) = Some (int n)"
proof -
  obtain ch r where s: "show_nat n = ch # r" by (cases "show_nat n") auto
  have d: "is_digit ch" using show_nat_digits[of n] s by simp
  then have "\<not> is_space ch" "ch \<noteq> CHR ''-''" "ch \<noteq> CHR ''+''" by (auto simp: is_space_def is_digit_def)
  then have "dropWhile is_space (show_nat n @ rest) = show_nat n @ rest" "hd (show_nat n @ rest) \<noteq> CHR ''-''"
      "hd (show_nat n @ rest) \<noteq> CHR ''+''"
    by (simp_all add: s)
  moreover have "takeWhile is_digit rest = []" using assms(2) by (cases rest) auto
  then have "takeWhile is_digit (show_nat n @ rest) = show_nat n" by (simp add: takeWhile_digits)
  ultimately show ?thesis using assms(1) by (simp add: strtol_def Let_def)
qed

lemma takeWhile_until:
  assumes "\<forall>x \<in> set xs. P x" "\<not> P y"
  shows "takeWhile P (xs @ y # zs) = xs" "dropWhile P (xs @ y # zs) = y # zs"
  using assms by (simp_all add: takeWhile_append2 dropWhile_append2)

lemma nul_free_number: "c_str (show_nat n @ s) = show_nat n @ c_str s"
  using show_nat_digits[of n] by (auto simp: c_str_def is_digit_def intro!: takeWhile_append2)

lemma c_str_free: "\<forall>ch \<in> set s. ch \<noteq> CHR 0x00 \<Longrightarrow> c_str (s @ t) = s @ c_str t"
  by (simp add: c_str_def takeWhile_append2)

text \<open>A URL of a name or an IPv4 address, and one of a bracketed address, are read back.\<close>

lemma parse_url_tail:
  assumes "1 \<le> port" "rest = [] \<or> \<not> is_digit (hd rest) \<and> hd rest \<noteq> CHR 0x00"
  shows "(case strtol (c_str (show_nat (unat (port :: u16)) @ rest)) of
       None \<Rightarrow> None | Some n \<Rightarrow> if n < 1 \<or> n > 65535 then None else Some \<lparr>tu_host = host, tu_port = of_int n\<rparr>)
     = Some \<lparr>tu_host = host, tu_port = port\<rparr>"
proof -
  have "c_str rest = [] \<or> \<not> is_digit (hd (c_str rest))" using assms(2) by (cases rest) (auto simp: c_str_def)
  moreover have u: "unat port < 2 ^ 16" using unsigned_less[of port, where ?'a = nat] by simp
  ultimately have "strtol (c_str (show_nat (unat port) @ rest)) = Some (int (unat port))"
    by (simp add: nul_free_number strtol_number)
  moreover have "1 \<le> uint port" "uint port < 65536"
    using assms(1) unsigned_less[of port, where ?'a = int] by (simp_all add: word_le_def)
  ultimately show ?thesis by simp
qed

theorem tracker_url_plain:
  assumes "host \<noteq> []" "\<forall>ch \<in> set host. ch \<noteq> CHR '':'' \<and> ch \<noteq> CHR ''/'' \<and> ch \<noteq> CHR 0x00" "hd host \<noteq> CHR ''[''"
    and "1 \<le> port" "rest = [] \<or> \<not> is_digit (hd rest) \<and> hd rest \<noteq> CHR 0x00"
  shows "parse_tracker_url (''thinbt://'' @ host @ '':'' @ show_nat (unat port) @ rest) = Some \<lparr>tu_host = host, tu_port = port\<rparr>"
proof -
  let ?num = "show_nat (unat port) @ rest"
  have c: "c_str (host @ CHR '':'' # ?num) = host @ CHR '':'' # c_str ?num"
    using assms(2) c_str_free[of host "CHR '':'' # ?num"] by (simp add: c_str_def)
  have "takeWhile (\<lambda>ch. ch \<noteq> CHR '':'' \<and> ch \<noteq> CHR ''/'') (host @ CHR '':'' # c_str ?num) = host"
    by (rule takeWhile_until(1)) (use assms(2) in auto)
  then have "url_host (host @ CHR '':'' # c_str ?num) = Some (host, CHR '':'' # c_str ?num)"
    using assms(1,3) by (simp add: url_host_def Let_def)
  then show ?thesis using parse_url_tail[OF assms(4,5), of host] by (simp add: parse_tracker_url_def c)
qed

end
