(* ===== verification/Tracker.thy ===== *)
theory Tracker
  imports Protocol Hashing "HOL-Library.Multiset"
begin

unbundle bit_operations_syntax

text \<open>
  The tracker: \<open>src/src/daemon/tracker_server.hpp/.cpp\<close> (the swarms), \<open>tracker_acceptor.cpp\<close> (one line
  of JSON in, one line out) and \<open>tracker_client.hpp/.cpp\<close> (announcing, retrying). A thrown exception is
  \<open>None\<close>. Arguments stand for the clock, for \<open>std::sort\<close>, for \<open>inet_addr\<close> and for the JSON library of the
  client, whose documents are the values of \<open>json\<close>.
\<close>

section \<open>The server\<close>

record TrackerPeerEntry =
  te_ip :: string
  te_port :: u16
  te_flags :: u8
  te_last_announce :: nat

record TrackerServer =
  ts_port :: u16
  swarms :: "string \<Rightarrow> TrackerPeerEntry list"

definition new_tracker :: "u16 \<Rightarrow> TrackerServer" where
  "new_tracker port = \<lparr>ts_port = port, swarms = (\<lambda>_. [])\<rparr>"

definition same_endpoint :: "string \<Rightarrow> u16 \<Rightarrow> TrackerPeerEntry \<Rightarrow> bool" where
  "same_endpoint ip port p \<longleftrightarrow> te_ip p = ip \<and> te_port p = port"

fun swarm_put :: "TrackerPeerEntry \<Rightarrow> TrackerPeerEntry list \<Rightarrow> TrackerPeerEntry list" where
  "swarm_put entry [] = [entry]"
| "swarm_put entry (p # ps) =
     (if same_endpoint (te_ip entry) (te_port entry) p then entry # ps else p # swarm_put entry ps)"

definition announce ::
    "(TrackerPeerEntry list \<Rightarrow> TrackerPeerEntry list) \<Rightarrow> nat \<Rightarrow> string \<Rightarrow> string \<Rightarrow> u16 \<Rightarrow> u32 \<Rightarrow> TrackerServer \<Rightarrow>
     TrackerPeerEntry list \<times> TrackerServer" where
  "announce srt now info_hash_hex peer_ip peer_port speed_mbps srv =
     (let flags = (if speed_mbps \<ge> 1000 then 0 OR 0x02 else 0);
          entry = \<lparr>te_ip = peer_ip, te_port = peer_port, te_flags = flags, te_last_announce = now\<rparr>;
          swarm = swarm_put entry (swarms srv info_hash_hex);
          result = filter (\<lambda>p. te_ip p \<noteq> peer_ip \<or> te_port p \<noteq> peer_port) swarm
      in (srt result, srv\<lparr>swarms := (swarms srv)(info_hash_hex := swarm)\<rparr>))"

definition cleanup_stale :: "nat \<Rightarrow> nat \<Rightarrow> TrackerServer \<Rightarrow> TrackerServer" where
  "cleanup_stale now timeout_sec srv =
     srv\<lparr>swarms := (\<lambda>h. filter (\<lambda>p. \<not> (now - te_last_announce p) div 1000000 > timeout_sec) (swarms srv h))\<rparr>"

section \<open>The acceptor\<close>

abbreviation dquote :: char where "dquote \<equiv> CHR 0x22"
abbreviation newline :: char where "newline \<equiv> CHR 0x0A"

text \<open>\<open>find\<close> followed by a jump past the match: the rest of the text after the first occurrence.\<close>

fun find_after :: "string \<Rightarrow> string \<Rightarrow> string option" where
  "find_after pat [] = (if pat = [] then Some [] else None)"
| "find_after pat (ch # s) =
     (if take (length pat) (ch # s) = pat then Some (drop (length pat) (ch # s)) else find_after pat s)"

definition quoted :: "string \<Rightarrow> string" where
  "quoted s = dquote # s @ [dquote]"

definition json_extract_string :: "string \<Rightarrow> string \<Rightarrow> string" where
  "json_extract_string obj key =
     (case find_after (quoted key) obj of
        None \<Rightarrow> []
      | Some r \<Rightarrow> (case find_after '':'' r of
                    None \<Rightarrow> []
                  | Some r1 \<Rightarrow> (case find_after [dquote] r1 of
                                 None \<Rightarrow> []
                               | Some r2 \<Rightarrow> if dquote \<in> set r2 then takeWhile (\<lambda>ch. ch \<noteq> dquote) r2 else [])))"

text \<open>\<open>std::stoull\<close> on a run of digits and minus signs: a sign, then digits; a value over 64 bits and a
  text without digits throw.\<close>

definition stoull :: "string \<Rightarrow> u64 option" where
  "stoull s =
     (let neg = (s \<noteq> [] \<and> hd s = CHR ''-''); t = (if neg then tl s else s);
          ds = takeWhile is_digit t
      in if ds = [] then None
         else if digits_val ds \<ge> 2 ^ 64 then None
         else Some (if neg then - of_nat (digits_val ds) else of_nat (digits_val ds)))"

definition json_extract_int :: "string \<Rightarrow> string \<Rightarrow> u64 option" where
  "json_extract_int obj key =
     (case find_after (quoted key) obj of
        None \<Rightarrow> Some 0
      | Some r \<Rightarrow> (case find_after '':'' r of
                    None \<Rightarrow> Some 0
                  | Some r1 \<Rightarrow>
                      let v = takeWhile (\<lambda>ch. is_digit ch \<or> ch = CHR ''-'')
                                (dropWhile (\<lambda>ch. ch = CHR '' '' \<or> ch = CHR 0x09) r1)
                      in if v = [] then Some 0 else stoull v))"

definition peer_json :: "TrackerPeerEntry \<Rightarrow> string" where
  "peer_json p = ''{'' @ quoted ''ip'' @ '':'' @ quoted (te_ip p) @ '','' @ quoted ''port'' @ '':'' @ show_nat (unat (te_port p))
     @ '','' @ quoted ''flags'' @ '':'' @ show_nat (unat (te_flags p)) @ ''}''"

fun join_comma :: "string list \<Rightarrow> string" where
  "join_comma [] = []"
| "join_comma [x] = x"
| "join_comma (x # y # ys) = x @ '','' @ join_comma (y # ys)"

text \<open>One request line; the peer's address is empty when the endpoint cannot be read.\<close>

definition tracker_handle_client ::
    "(TrackerPeerEntry list \<Rightarrow> TrackerPeerEntry list) \<Rightarrow> nat \<Rightarrow> string \<Rightarrow> string \<Rightarrow> TrackerServer \<Rightarrow> (string \<times> TrackerServer) option" where
  "tracker_handle_client srt now peer_ip request srv =
     (let info_hash = json_extract_string request ''info_hash''
      in case (json_extract_int request ''port'', json_extract_int request ''speed_mbps'') of
           (Some port64, Some speed64) \<Rightarrow>
             if info_hash = [] then Some (''{'' @ quoted ''error'' @ '':'' @ quoted ''missing info_hash'' @ ''}'' @ [newline], srv)
             else let peer_port = ucast port64; speed_mbps = ucast speed64;
                      (peers, srv') = announce srt now info_hash peer_ip peer_port speed_mbps srv;
                      shown = filter (\<lambda>p. \<not> (te_ip p = peer_ip \<and> te_port p = peer_port)) peers
                  in Some (''{'' @ quoted ''interval'' @ '':30,'' @ quoted ''peers'' @ '':['' @ join_comma (map peer_json shown)
                             @ '']}'' @ [newline], srv')
         | _ \<Rightarrow> None)"

section \<open>The client\<close>

datatype json = JNull | JBool bool | JNum nat | JStr string | JArr "json list" | JObj "(string \<times> json) list"

fun obj_get :: "json \<Rightarrow> string \<Rightarrow> json option" where
  "obj_get (JObj kvs) k = map_of kvs k"
| "obj_get _ k = None"

fun json_uint :: "json \<Rightarrow> u64" where
  "json_uint (JNum n) = of_nat n"
| "json_uint _ = 0"

text \<open>An address that is not a text is a null pointer for \<open>inet_addr\<close>.\<close>

definition tracker_peer :: "endian \<Rightarrow> (string \<Rightarrow> u32) \<Rightarrow> json \<Rightarrow> PexPeer list option" where
  "tracker_peer e ia obj =
     (case (obj_get obj ''ip'', obj_get obj ''port'') of
        (Some ip_val, Some port_val) \<Rightarrow>
          (case ip_val of
             JStr ip \<Rightarrow> Some [\<lparr>pex_ip = ia ip, pex_port = hton16 e (ucast (json_uint port_val)),
                             pex_flags = (case obj_get obj ''flags'' of Some f \<Rightarrow> ucast (json_uint f) | None \<Rightarrow> 0), pex_reserved = 0\<rparr>]
           | _ \<Rightarrow> None)
      | _ \<Rightarrow> Some [])"

fun tracker_peers :: "endian \<Rightarrow> (string \<Rightarrow> u32) \<Rightarrow> json list \<Rightarrow> PexPeer list option" where
  "tracker_peers e ia [] = Some []"
| "tracker_peers e ia (v # vs) =
     (case v of
        JObj _ \<Rightarrow> Option.bind (tracker_peer e ia v) (\<lambda>p. map_option ((@) p) (tracker_peers e ia vs))
      | _ \<Rightarrow> tracker_peers e ia vs)"

definition parse_tracker_response :: "endian \<Rightarrow> (string \<Rightarrow> u32) \<Rightarrow> (string \<Rightarrow> json option) \<Rightarrow> string \<Rightarrow> PexPeer list option" where
  "parse_tracker_response e ia yyjson_read resp =
     (case yyjson_read resp of
        None \<Rightarrow> Some []
      | Some root \<Rightarrow>
          if obj_get root ''error'' \<noteq> None then Some []
          else case obj_get root ''peers'' of
                 Some (JArr vs) \<Rightarrow> tracker_peers e ia vs
               | _ \<Rightarrow> Some [])"

definition announce_request :: "string \<Rightarrow> u16 \<Rightarrow> u32 \<Rightarrow> string" where
  "announce_request info_hash_hex p2p_port speed_mbps =
     ''{'' @ quoted ''op'' @ '':'' @ quoted ''announce'' @ '','' @ quoted ''info_hash'' @ '':'' @ quoted info_hash_hex
       @ '','' @ quoted ''port'' @ '':'' @ show_nat (unat p2p_port) @ '','' @ quoted ''speed_mbps'' @ '':'' @ show_nat (unat speed_mbps)
       @ ''}'' @ [newline]"

record TrackerClient =
  tc_info_hash_hex :: string
  tc_p2p_port :: u16
  tc_speed_mbps :: u32
  tc_retry_enabled :: bool
  tc_retry_count :: u32
  tc_has_on_dead :: bool
  tc_dead_signalled :: bool

datatype tracker_event = Tev_write string | Tev_peers "PexPeer list" | Tev_timer nat | Tev_dead

definition MAX_RETRIES :: u32 where "MAX_RETRIES = 240"
definition EMPTY_POLL_INTERVAL_MS :: nat where "EMPTY_POLL_INTERVAL_MS = 1000"

definition schedule_empty_poll :: "TrackerClient \<Rightarrow> tracker_event list" where
  "schedule_empty_poll c = (if tc_retry_enabled c then [Tev_timer EMPTY_POLL_INTERVAL_MS] else [])"

definition schedule_retry :: "TrackerClient \<Rightarrow> TrackerClient \<times> tracker_event list" where
  "schedule_retry c =
     (if \<not> tc_retry_enabled c \<or> tc_retry_count c \<ge> MAX_RETRIES
      then if \<not> tc_dead_signalled c \<and> tc_has_on_dead c
           then (c\<lparr>tc_dead_signalled := True\<rparr>, [Tev_dead]) else (c, [])
      else (c\<lparr>tc_retry_count := tc_retry_count c + 1\<rparr>, [Tev_timer 30000]))"

text \<open>How one attempt goes: the resolver throws, out of the handler that called it; connecting fails;
  the request is written, or not, and no answer comes; or a response line is read.\<close>

datatype attempt = Unresolved | No_connection | No_answer | Answer string

fun do_announce ::
    "endian \<Rightarrow> (string \<Rightarrow> u32) \<Rightarrow> (string \<Rightarrow> json option) \<Rightarrow> attempt \<Rightarrow> TrackerClient \<Rightarrow> (TrackerClient \<times> tracker_event list) option" where
  "do_announce e ia yyjson_read Unresolved c = None"
| "do_announce e ia yyjson_read No_connection c = Some (schedule_retry c)"
| "do_announce e ia yyjson_read No_answer c =
     Some (fst (schedule_retry c),
           Tev_write (announce_request (tc_info_hash_hex c) (tc_p2p_port c) (tc_speed_mbps c)) # snd (schedule_retry c))"
| "do_announce e ia yyjson_read (Answer resp) c =
     map_option (\<lambda>peers. (c, Tev_write (announce_request (tc_info_hash_hex c) (tc_p2p_port c) (tc_speed_mbps c))
                              # Tev_peers peers # (if peers = [] then schedule_empty_poll c else [])))
       (parse_tracker_response e ia yyjson_read resp)"

definition announce_reset :: "TrackerClient \<Rightarrow> TrackerClient" where
  "announce_reset c = c\<lparr>tc_retry_count := 0, tc_dead_signalled := False\<rparr>"

definition client_announce ::
    "endian \<Rightarrow> (string \<Rightarrow> u32) \<Rightarrow> (string \<Rightarrow> json option) \<Rightarrow> attempt \<Rightarrow> TrackerClient \<Rightarrow> (TrackerClient \<times> tracker_event list) option" where
  "client_announce e ia yyjson_read a c = do_announce e ia yyjson_read a (announce_reset c)"

section \<open>Swarms\<close>

definition endpoint :: "TrackerPeerEntry \<Rightarrow> string \<times> u16" where
  "endpoint p = (te_ip p, te_port p)"

definition sorts_by_flags :: "(TrackerPeerEntry list \<Rightarrow> TrackerPeerEntry list) \<Rightarrow> bool" where
  "sorts_by_flags srt \<longleftrightarrow> (\<forall>xs. mset (srt xs) = mset xs \<and> sorted_wrt (\<lambda>a b. te_flags b \<le> te_flags a) (srt xs))"

lemma same_endpoint_iff: "same_endpoint (te_ip q) (te_port q) p \<longleftrightarrow> endpoint p = endpoint q"
  by (simp add: same_endpoint_def endpoint_def)

lemma swarm_put_others: "filter (\<lambda>p. endpoint p \<noteq> endpoint en) (swarm_put en ps) = filter (\<lambda>p. endpoint p \<noteq> endpoint en) ps"
  by (induction ps) (auto simp: same_endpoint_iff)

lemma swarm_put_endpoints: "set (map endpoint (swarm_put en ps)) = insert (endpoint en) (set (map endpoint ps))"
  by (induction ps) (auto simp: same_endpoint_iff)

lemma swarm_put_distinct: "distinct (map endpoint ps) \<Longrightarrow> distinct (map endpoint (swarm_put en ps))"
proof (induction ps)
  case (Cons p ps)
  then show ?case using swarm_put_endpoints[of en ps] by (auto simp: same_endpoint_iff)
qed simp

lemma swarm_put_mem: "en \<in> set (swarm_put en ps)"
  by (induction ps) auto

lemma swarm_put_unique:
  assumes "distinct (map endpoint ps)" "p \<in> set (swarm_put en ps)" "endpoint p = endpoint en"
  shows "p = en"
  using swarm_put_distinct[OF assms(1), of en] swarm_put_mem[of en ps] assms(2,3) by (metis eq_key_imp_eq_value distinct_map inj_onD)

lemma singleton_list:
  assumes "set xs = {x}" "distinct xs"
  shows "xs = [x]"
proof (cases xs)
  case (Cons y ys)
  then have y: "y = x" "set ys \<subseteq> {x}" "x \<notin> set ys" using assms by auto
  then have "ys = []" by (cases ys) auto
  then show ?thesis using Cons y(1) by simp
qed (use assms in simp)

datatype tracker_op = Announce string string u16 u32 | Cleanup nat

fun exec_tracker ::
    "(TrackerPeerEntry list \<Rightarrow> TrackerPeerEntry list) \<Rightarrow> nat \<times> tracker_op \<Rightarrow> TrackerServer \<Rightarrow> TrackerServer" where
  "exec_tracker srt (now, Announce h ip port speed) srv = snd (announce srt now h ip port speed srv)"
| "exec_tracker srt (now, Cleanup timeout) srv = cleanup_stale now timeout srv"

definition swarms_ok :: "TrackerServer \<Rightarrow> bool" where
  "swarms_ok srv \<longleftrightarrow> (\<forall>h. distinct (map endpoint (swarms srv h)))"

lemma exec_swarms_ok: "swarms_ok srv \<Longrightarrow> swarms_ok (exec_tracker srt op srv)"
  by (cases op; cases "snd op")
    (auto simp: swarms_ok_def announce_def Let_def cleanup_stale_def swarm_put_distinct distinct_map_filter)

lemma run_swarms_ok: "swarms_ok srv \<Longrightarrow> swarms_ok (fold (exec_tracker srt) ops srv)"
  by (induction ops arbitrary: srv) (auto intro: exec_swarms_ok)

text \<open>The tracker answers an announcement with exactly the other members of the swarm. In every
  reachable state of the tracker, the answer contains each other peer registered for the info hash once,
  never the caller, faster peers first; the caller is registered with its flags and the time, and
  neither the other entries nor the other swarms change.\<close>

theorem announce_answers_others:
  assumes "sorts_by_flags srt" "srv = fold (exec_tracker srt) ops (new_tracker tport)"
    and "(result, srv') = announce srt now h ip port speed srv"
  shows "mset result = mset (filter (\<lambda>p. endpoint p \<noteq> (ip, port)) (swarms srv h)) \<and> distinct (map endpoint result)
     \<and> sorted_wrt (\<lambda>a b. te_flags b \<le> te_flags a) result
     \<and> filter (\<lambda>p. endpoint p \<noteq> (ip, port)) (swarms srv' h) = filter (\<lambda>p. endpoint p \<noteq> (ip, port)) (swarms srv h)
     \<and> filter (\<lambda>p. endpoint p = (ip, port)) (swarms srv' h)
         = [\<lparr>te_ip = ip, te_port = port, te_flags = (if speed \<ge> 1000 then 2 else 0), te_last_announce = now\<rparr>]
     \<and> (\<forall>h'. h' \<noteq> h \<longrightarrow> swarms srv' h' = swarms srv h')"
proof -
  let ?en = "\<lparr>te_ip = ip, te_port = port, te_flags = (if speed \<ge> 1000 then 2 else 0), te_last_announce = now\<rparr>"
  let ?put = "swarm_put ?en (swarms srv h)"
  have en: "endpoint ?en = (ip, port)" by (simp add: endpoint_def)
  have d: "distinct (map endpoint (swarms srv h))"
    using run_swarms_ok[of "new_tracker tport" srt ops] assms(2) by (simp add: swarms_ok_def new_tracker_def)
  have r: "result = srt (filter (\<lambda>p. endpoint p \<noteq> (ip, port)) ?put)" "srv' = srv\<lparr>swarms := (swarms srv)(h := ?put)\<rparr>"
    using assms(3) by (simp_all add: announce_def Let_def endpoint_def)
  have o: "filter (\<lambda>p. endpoint p \<noteq> (ip, port)) ?put = filter (\<lambda>p. endpoint p \<noteq> (ip, port)) (swarms srv h)"
    using swarm_put_others[of ?en "swarms srv h"] by (simp only: en)
  have m: "mset result = mset (filter (\<lambda>p. endpoint p \<noteq> (ip, port)) (swarms srv h))" "sorted_wrt (\<lambda>a b. te_flags b \<le> te_flags a) result"
    using assms(1) unfolding r o by (simp_all add: sorts_by_flags_def)
  have "mset (map endpoint result) = mset (map endpoint (filter (\<lambda>p. endpoint p \<noteq> (ip, port)) (swarms srv h)))"
    using m(1) by (simp only: mset_map)
  then have "distinct (map endpoint result)"
    using mset_eq_imp_distinct_iff distinct_map_filter[OF d] by blast
  moreover have "filter (\<lambda>p. endpoint p = (ip, port)) ?put = [?en]"
  proof -
    have "set (filter (\<lambda>p. endpoint p = (ip, port)) ?put) = {?en}"
      using swarm_put_unique[OF d, of _ ?en] swarm_put_mem[of ?en] en by auto
    moreover have "distinct (filter (\<lambda>p. endpoint p = (ip, port)) ?put)"
      using swarm_put_distinct[OF d, of ?en] by (simp add: distinct_map)
    ultimately show ?thesis by (rule singleton_list)
  qed
  ultimately show ?thesis using m o r by simp
qed

definition flag_sort :: "TrackerPeerEntry list \<Rightarrow> TrackerPeerEntry list" where
  "flag_sort xs = rev (sort_key te_flags xs)"

lemma flag_sort_sorts: "sorts_by_flags flag_sort"
proof -
  have "sorted_wrt (\<lambda>a b. te_flags b \<le> te_flags a) (rev (sort_key te_flags xs))" for xs
    using sorted_sort_key[of te_flags xs] by (simp add: sorted_wrt_rev sorted_map)
  then show ?thesis unfolding sorts_by_flags_def flag_sort_def by auto
qed

theorem announce_answers_others_witness:
  "endpoint ` set (fst (announce flag_sort 7 ''ab'' ''10.0.0.2'' 6881 100
     (fold (exec_tracker flag_sort) [(5, Announce ''ab'' ''10.0.0.1'' 6881 1000)] (new_tracker 8080)))) = {(''10.0.0.1'', 6881)}"
proof -
  let ?srv = "fold (exec_tracker flag_sort) [(5, Announce ''ab'' ''10.0.0.1'' 6881 1000)] (new_tracker 8080)"
  have "mset (fst (announce flag_sort 7 ''ab'' ''10.0.0.2'' 6881 100 ?srv))
      = mset (filter (\<lambda>p. endpoint p \<noteq> (''10.0.0.2'', 6881)) (swarms ?srv ''ab''))"
    using announce_answers_others[OF flag_sort_sorts refl prod.collapse, where ops = "[(5, Announce ''ab'' ''10.0.0.1'' 6881 1000)]" and tport = 8080
        and now = 7 and h = "''ab''" and ip = "''10.0.0.2''" and port = 6881 and speed = 100]
    by blast
  then have "set (fst (announce flag_sort 7 ''ab'' ''10.0.0.2'' 6881 100 ?srv))
      = set (filter (\<lambda>p. endpoint p \<noteq> (''10.0.0.2'', 6881)) (swarms ?srv ''ab''))"
    by (rule mset_eq_setD)
  moreover have "filter (\<lambda>p. endpoint p \<noteq> (''10.0.0.2'', 6881)) (swarms ?srv ''ab'')
      = [\<lparr>te_ip = ''10.0.0.1'', te_port = 6881, te_flags = 2, te_last_announce = 5\<rparr>]"
    by (simp add: announce_def new_tracker_def endpoint_def Let_def)
  ultimately show ?thesis by (simp only:) (simp add: endpoint_def)
qed

text \<open>Registered peers stay visible until the timeout.\<close>

definition registered :: "nat \<Rightarrow> string \<Rightarrow> string \<times> u16 \<Rightarrow> TrackerServer \<Rightarrow> bool" where
  "registered t h ep srv \<longleftrightarrow> (\<exists>p \<in> set (swarms srv h). endpoint p = ep \<and> te_last_announce p \<ge> t)"

definition keeps_alive :: "nat \<Rightarrow> nat \<times> tracker_op \<Rightarrow> bool" where
  "keeps_alive t op \<longleftrightarrow> fst op \<ge> t \<and> (case snd op of Cleanup timeout \<Rightarrow> fst op \<le> t + timeout * 1000000 | _ \<Rightarrow> True)"

lemma swarm_put_keeps: "p \<in> set ps \<Longrightarrow> endpoint p \<noteq> endpoint en \<Longrightarrow> p \<in> set (swarm_put en ps)"
  by (induction ps) (auto simp: same_endpoint_iff)

lemma registered_step:
  assumes "registered t h ep srv" "keeps_alive t op"
  shows "registered t h ep (exec_tracker srt op srv)"
proof (cases "snd op")
  case (Announce h' ip port speed)
  obtain now where op: "op = (now, Announce h' ip port speed)" using Announce by (cases op) auto
  obtain p where p: "p \<in> set (swarms srv h)" "endpoint p = ep" "te_last_announce p \<ge> t" using assms(1) by (auto simp: registered_def)
  let ?en = "\<lparr>te_ip = ip, te_port = port, te_flags = (if speed \<ge> 1000 then 0 OR 2 else 0), te_last_announce = now\<rparr>"
  define q where "q = (if ep = endpoint ?en then ?en else p)"
  have q: "q \<in> set (swarm_put ?en (swarms srv h))" "endpoint q = ep" "te_last_announce q \<ge> t"
    using swarm_put_mem[of ?en "swarms srv h"] swarm_put_keeps[OF p(1), of ?en] p(2,3) assms(2)
    by (auto simp: q_def op keeps_alive_def)
  have "swarms (exec_tracker srt op srv) h = (if h = h' then swarm_put ?en (swarms srv h) else swarms srv h)"
    by (simp add: op announce_def Let_def)
  then show ?thesis using q p unfolding registered_def by (cases "h = h'") auto
next
  case (Cleanup timeout)
  obtain now where op: "op = (now, Cleanup timeout)" using Cleanup by (cases op) auto
  obtain p where p: "p \<in> set (swarms srv h)" "endpoint p = ep" "te_last_announce p \<ge> t" using assms(1) by (auto simp: registered_def)
  have "now \<le> t + timeout * 1000000" using assms(2) by (simp add: op keeps_alive_def)
  then have "now - te_last_announce p \<le> timeout * 1000000" using p(3) by linarith
  then have "(now - te_last_announce p) div 1000000 \<le> timeout" using div_le_mono[of _ "timeout * 1000000" 1000000] by fastforce
  then show ?thesis using p by (auto simp: op registered_def cleanup_stale_def)
qed

lemma registered_run: "registered t h ep srv \<Longrightarrow> list_all (keeps_alive t) ops \<Longrightarrow> registered t h ep (fold (exec_tracker srt) ops srv)"
  by (induction ops arbitrary: srv) (auto intro: registered_step)

text \<open>C36. A peer that announced itself is found by the others: while announcements go on and stale
  entries are cleaned up with no cleanup later than its timeout after the announcement, every other peer
  that announces the same content is told of it.\<close>

theorem announced_peer_found:
  assumes "sorts_by_flags srt" "srv = snd (announce srt t h ip port speed srv0)" "list_all (keeps_alive t) ops"
    and "(ip', port') \<noteq> (ip, port)"
  shows "\<exists>p \<in> set (fst (announce srt now h ip' port' speed' (fold (exec_tracker srt) ops srv))). te_ip p = ip \<and> te_port p = port"
proof -
  have "registered t h (ip, port) srv"
    unfolding assms(2) registered_def announce_def Let_def
    by (intro bexI[of _ "\<lparr>te_ip = ip, te_port = port, te_flags = (if speed \<ge> 1000 then 0 OR 2 else 0), te_last_announce = t\<rparr>"])
      (simp_all add: endpoint_def swarm_put_mem)
  from registered_run[OF this assms(3), of srt] obtain p where
    p: "p \<in> set (swarms (fold (exec_tracker srt) ops srv) h)" "endpoint p = (ip, port)" by (auto simp: registered_def)
  let ?en = "\<lparr>te_ip = ip', te_port = port', te_flags = (if speed' \<ge> 1000 then 0 OR 2 else 0), te_last_announce = now\<rparr>"
  have "p \<in> set (swarm_put ?en (swarms (fold (exec_tracker srt) ops srv) h))"
    using p assms(4) by (intro swarm_put_keeps) (auto simp: endpoint_def)
  moreover have "set (srt xs) = set xs" for xs using assms(1) by (metis set_mset_mset sorts_by_flags_def)
  ultimately show ?thesis
    using p(2) assms(4) by (auto simp: announce_def Let_def endpoint_def intro!: bexI[of _ p])
qed

theorem announced_peer_found_witness:
  "\<exists>p \<in> set (fst (announce flag_sort 9 ''ab'' ''10.0.0.2'' 6881 100
       (fold (exec_tracker flag_sort) [(60000000, Cleanup 90)] (snd (announce flag_sort 5 ''ab'' ''10.0.0.1'' 6881 1000 (new_tracker 8080)))))).
     te_ip p = ''10.0.0.1'' \<and> te_port p = 6881"
  by (rule announced_peer_found[OF flag_sort_sorts refl]) (simp_all add: keeps_alive_def)

section \<open>Requests\<close>

lemma find_after_skip: "c \<notin> set w \<Longrightarrow> find_after (c # pat) (w @ s) = find_after (c # pat) s"
proof (induction w)
  case (Cons x w)
  then show ?case by (auto simp: Let_def)
qed simp

lemma find_after_here: "find_after (c # pat) (c # pat @ s) = Some s"
  by simp

lemma stoull_show: "n < 2 ^ 64 \<Longrightarrow> stoull (show_nat n) = Some (of_nat n)"
proof -
  assume n: "n < 2 ^ 64"
  have d: "takeWhile is_digit (show_nat n) = show_nat n" using takeWhile_digits(1)[of n "[]"] by simp
  obtain ch r where s: "show_nat n = ch # r" by (cases "show_nat n") auto
  then have "is_digit ch" using show_nat_digits[of n] by simp
  then have "ch \<noteq> CHR ''-''" by (auto simp: is_digit_def)
  then have "\<not> hd (show_nat n) = CHR ''-''" using s by simp
  then show ?thesis using n by (simp add: stoull_def Let_def d)
qed

lemma number_run:
  assumes "\<not> is_digit c" "c \<noteq> CHR ''-''"
  shows "takeWhile (\<lambda>ch. is_digit ch \<or> ch = CHR ''-'') (show_nat n @ c # s) = show_nat n"
    "dropWhile (\<lambda>ch. ch = CHR '' '' \<or> ch = CHR 0x09) (show_nat n @ c # s) = show_nat n @ c # s"
proof -
  show "takeWhile (\<lambda>ch. is_digit ch \<or> ch = CHR ''-'') (show_nat n @ c # s) = show_nat n"
    using show_nat_digits[of n] assms by (subst takeWhile_append2) auto
  obtain ch r where s: "show_nat n = ch # r" by (cases "show_nat n") auto
  then have "is_digit ch" using show_nat_digits[of n] by simp
  then have "ch \<noteq> CHR '' ''" "ch \<noteq> CHR 0x09" by (auto simp: is_digit_def)
  then show "dropWhile (\<lambda>ch. ch = CHR '' '' \<or> ch = CHR 0x09) (show_nat n @ c # s) = show_nat n @ c # s" by (simp add: s)
qed

lemma int_after_key:
  assumes "find_after (quoted key) obj = Some (CHR '':'' # show_nat n @ c # s)" "\<not> is_digit c" "c \<noteq> CHR ''-''" "n < 2 ^ 64"
  shows "json_extract_int obj key = Some (of_nat n)"
  using assms number_run[OF assms(2,3)] stoull_show[OF assms(4)]
  by (simp add: json_extract_int_def Let_def)

lemma find_after_quoted:
  assumes "c \<noteq> dquote" "c \<notin> set w" "dquote \<notin> set w"
  shows "find_after (dquote # c # pat) (dquote # w @ dquote # s) = find_after (dquote # c # pat) (dquote # s)"
proof -
  have "hd (w @ dquote # s) \<noteq> c" using assms by (cases w) auto
  then have "take (length (c # pat)) (w @ dquote # s) \<noteq> c # pat" by (cases w) auto
  then have "find_after (dquote # c # pat) (dquote # w @ dquote # s) = find_after (dquote # c # pat) (w @ dquote # s)" by simp
  then show ?thesis using find_after_skip[OF assms(3)] by simp
qed

definition request_head :: string where
  "request_head = ''{'' @ quoted ''op'' @ '':'' @ quoted ''announce'' @ '','' @ quoted ''info_hash'' @ '':''"

definition request_tail :: "u16 \<Rightarrow> u32 \<Rightarrow> string" where
  "request_tail p v = '','' @ quoted ''port'' @ '':'' @ show_nat (unat p) @ '','' @ quoted ''speed_mbps'' @ '':'' @ show_nat (unat v)
     @ ''}'' @ [newline]"

lemma request_parts: "announce_request hh p v = request_head @ dquote # hh @ dquote # request_tail p v"
  by (simp add: announce_request_def request_head_def request_tail_def quoted_def)

lemma head_skips:
  "find_after (dquote # CHR ''p'' # pat) (request_head @ s) = find_after (dquote # CHR ''p'' # pat) s"
  "find_after (dquote # CHR ''s'' # pat) (request_head @ s) = find_after (dquote # CHR ''s'' # pat) s"
  by (simp_all add: request_head_def quoted_def)

lemma tail_keys:
  "find_after (quoted ''port'') (dquote # request_tail p v)
     = Some (CHR '':'' # show_nat (unat p) @ CHR '','' # quoted ''speed_mbps'' @ '':'' @ show_nat (unat v) @ ''}'' @ [newline])"
  "find_after (quoted ''speed_mbps'') (dquote # request_tail p v) = Some (CHR '':'' # show_nat (unat v) @ CHR ''}'' # [newline])"
proof -
  have d: "dquote \<notin> set (show_nat n)" for n using show_nat_digits[of n] by (auto simp: is_digit_def)
  show "find_after (quoted ''port'') (dquote # request_tail p v)
     = Some (CHR '':'' # show_nat (unat p) @ CHR '','' # quoted ''speed_mbps'' @ '':'' @ show_nat (unat v) @ ''}'' @ [newline])"
    by (simp add: request_tail_def quoted_def)
  show "find_after (quoted ''speed_mbps'') (dquote # request_tail p v) = Some (CHR '':'' # show_nat (unat v) @ CHR ''}'' # [newline])"
    by (simp add: request_tail_def quoted_def find_after_skip[OF d])
qed

lemma hex_alphabet: "ch \<in> set (digest_hex d) \<Longrightarrow> ch \<in> set ''0123456789abcdef''"
proof -
  define H where "H = set ''0123456789abcdef''"
  have "list_all (\<lambda>n. hex_digit n \<in> set ''0123456789abcdef'') [0..<16]" by code_simp
  then have h: "hex_digit n \<in> H" if "n < 16" for n using that by (simp add: list_all_iff H_def)
  have "unat x div 16 < 16" for x :: u8 using unsigned_less[of x, where ?'a = nat] by simp
  then show "ch \<in> set (digest_hex d) \<Longrightarrow> ch \<in> set ''0123456789abcdef''"
    using h unfolding H_def[symmetric] by (auto simp: digest_hex_def hex_byte_def)
qed

lemma request_read_back:
  "json_extract_string (announce_request (digest_hex d) p v) ''info_hash'' = digest_hex d"
  "json_extract_int (announce_request (digest_hex d) p v) ''port'' = Some (ucast p)"
  "json_extract_int (announce_request (digest_hex d) p v) ''speed_mbps'' = Some (ucast v)"
proof -
  have q: "dquote \<notin> set (digest_hex d)" "CHR ''p'' \<notin> set (digest_hex d)" "CHR ''s'' \<notin> set (digest_hex d)"
    using hex_alphabet by fastforce+
  have "find_after (quoted ''info_hash'') (announce_request (digest_hex d) p v) = Some (CHR '':'' # dquote # digest_hex d @ dquote # request_tail p v)"
    by (simp add: announce_request_def request_tail_def quoted_def)
  then show "json_extract_string (announce_request (digest_hex d) p v) ''info_hash'' = digest_hex d"
    using q(1) by (auto simp: json_extract_string_def takeWhile_append2 takeWhile_tail)
  have "find_after (quoted ''port'') (announce_request (digest_hex d) p v) = find_after (quoted ''port'') (dquote # request_tail p v)"
    by (simp add: request_parts head_skips quoted_def find_after_quoted[OF _ q(2,1)] del: find_after.simps)
  from int_after_key[OF this[unfolded tail_keys]]
  have "json_extract_int (announce_request (digest_hex d) p v) ''port'' = Some (of_nat (unat p))"
    using unsigned_less[of p, where ?'a = nat] by (simp add: is_digit_def)
  then show "json_extract_int (announce_request (digest_hex d) p v) ''port'' = Some (ucast p)" by simp
  have "find_after (quoted ''speed_mbps'') (announce_request (digest_hex d) p v) = find_after (quoted ''speed_mbps'') (dquote # request_tail p v)"
    by (simp add: request_parts head_skips quoted_def find_after_quoted[OF _ q(3,1)] del: find_after.simps)
  from int_after_key[OF this[unfolded tail_keys]]
  have "json_extract_int (announce_request (digest_hex d) p v) ''speed_mbps'' = Some (of_nat (unat v))"
    using unsigned_less[of v, where ?'a = nat] by (simp add: is_digit_def)
  then show "json_extract_int (announce_request (digest_hex d) p v) ''speed_mbps'' = Some (ucast v)" by simp
qed

text \<open>C37. Client and tracker understand each other: the line a client writes for a content's info hash,
  its port and its link speed is read by the acceptor as the announcement of exactly these, and is
  answered without an exception.\<close>

theorem announce_roundtrip:
  assumes "d \<noteq> []"
  shows "\<exists>response. tracker_handle_client srt now peer_ip (announce_request (digest_hex d) port speed) srv
     = Some (response, snd (announce srt now (digest_hex d) peer_ip port speed srv))"
proof -
  have "digest_hex d \<noteq> []" using assms by (cases d) (simp_all add: digest_hex_def hex_byte_def)
  moreover have "ucast (ucast port :: u64) = port" "ucast (ucast speed :: u64) = speed"
    by (auto intro!: bit_word_eqI simp: bit_simps dest: bit_imp_le_length)
  ultimately show ?thesis
    by (simp add: tracker_handle_client_def request_read_back Let_def split: prod.split)
qed

theorem announce_roundtrip_witness:
  "\<exists>response. tracker_handle_client flag_sort 5 ''10.0.0.1'' (announce_request (digest_hex [171]) 6881 1000) (new_tracker 8080)
     = Some (response, snd (announce flag_sort 5 (digest_hex [171]) ''10.0.0.1'' 6881 1000 (new_tracker 8080)))"
  by (rule announce_roundtrip) simp

section \<open>Retrying\<close>

text \<open>The timers drive the client: an attempt that leaves one pending is followed by the next. The loop
  returns the client, what it did, and the outcomes no attempt was made for.\<close>

fun is_timer :: "tracker_event \<Rightarrow> bool" where
  "is_timer (Tev_timer ms) = True"
| "is_timer ev = False"

fun announce_loop ::
    "endian \<Rightarrow> (string \<Rightarrow> u32) \<Rightarrow> (string \<Rightarrow> json option) \<Rightarrow> attempt list \<Rightarrow> TrackerClient
     \<Rightarrow> (TrackerClient \<times> tracker_event list \<times> attempt list) option" where
  "announce_loop e ia yyjson_read [] c = Some (c, [], [])"
| "announce_loop e ia yyjson_read (a # as) c =
     (case do_announce e ia yyjson_read a c of
        None \<Rightarrow> None
      | Some (c', evs) \<Rightarrow>
          if list_ex is_timer evs
          then map_option (\<lambda>(c'', evs', rest). (c'', evs @ evs', rest)) (announce_loop e ia yyjson_read as c')
          else Some (c', evs, as))"

definition fails :: "attempt \<Rightarrow> bool" where
  "fails a \<longleftrightarrow> a = No_connection \<or> a = No_answer"

lemma do_announce_fails:
  assumes "fails a"
  shows "\<exists>w. do_announce e ia yj a c = Some (fst (schedule_retry c), w @ snd (schedule_retry c))
             \<and> \<not> list_ex is_timer w \<and> Tev_dead \<notin> set w"
  using assms unfolding fails_def
proof
  assume "a = No_connection"
  then show ?thesis by (intro exI[of _ "[]"]) simp
next
  let ?w = "Tev_write (announce_request (tc_info_hash_hex c) (tc_p2p_port c) (tc_speed_mbps c))"
  assume "a = No_answer"
  then show ?thesis by (intro exI[of _ "[?w]"]) simp
qed

lemma announce_loop_dead:
  assumes "list_all fails as" "tc_retry_enabled c" "tc_has_on_dead c" "\<not> tc_dead_signalled c"
    "unat (tc_retry_count c) + k = 240" "k < length as"
  shows "\<exists>c' evs. announce_loop e ia yj as c = Some (c', evs @ [Tev_dead], drop (Suc k) as)
     \<and> tc_dead_signalled c' \<and> Tev_dead \<notin> set evs \<and> length (filter is_timer evs) = k"
  using assms
proof (induction as arbitrary: c k)
  case (Cons a as)
  obtain w where w: "do_announce e ia yj a c = Some (fst (schedule_retry c), w @ snd (schedule_retry c))"
      "\<not> list_ex is_timer w" "Tev_dead \<notin> set w"
    using do_announce_fails[of a e ia yj c] Cons.prems(1) by auto
  have w0: "filter is_timer w = []" using w(2) by (induction w) auto
  show ?case
  proof (cases k)
    case 0
    then have "tc_retry_count c \<ge> MAX_RETRIES" using Cons.prems(5) by (simp add: word_le_nat_alt MAX_RETRIES_def)
    then have "schedule_retry c = (c\<lparr>tc_dead_signalled := True\<rparr>, [Tev_dead])"
      using Cons.prems by (simp add: schedule_retry_def)
    then show ?thesis using w w0 0 by simp
  next
    case (Suc k')
    let ?c = "c\<lparr>tc_retry_count := tc_retry_count c + 1\<rparr>"
    have n: "unat (tc_retry_count c) < 240" using Suc Cons.prems(5) by simp
    then have "\<not> tc_retry_count c \<ge> MAX_RETRIES" by (simp add: word_le_nat_alt MAX_RETRIES_def)
    then have r: "schedule_retry c = (?c, [Tev_timer 30000])"
      using Cons.prems by (simp add: schedule_retry_def)
    have "unat (tc_retry_count c + 1) = unat (tc_retry_count c) + 1" using n by (subst unat_add_lem[THEN iffD1]) simp_all
    then obtain c' evs where "announce_loop e ia yj as ?c = Some (c', evs @ [Tev_dead], drop (Suc k') as)"
        "tc_dead_signalled c'" "Tev_dead \<notin> set evs" "length (filter is_timer evs) = k'"
      using Cons.IH[of ?c k'] Cons.prems Suc by auto
    then show ?thesis using w r w0 Suc by (intro exI[of _ c'] exI[of _ "w @ Tev_timer 30000 # evs"]) simp
  qed
qed simp



end
