(* ===== verification/Task_Manager.thy ===== *)
theory Task_Manager
  imports Pipeline Manager_Runs Segment_IO Fastcdc Net_Util Tracker
begin

text \<open>
  \<open>src/src/daemon/task_manager.cpp\<close>: the daemon's tasks. A task joins the components of the other
  theories: the seed it was started from, the pools that write and verify chunks, the peer manager with
  its scheduler, the writer of the output file and the tracker client. The members a command sets before
  it stores the task are plain fields; the tracker client and the writer can be missing. Doubles are
  rationals; time points are microseconds. An announcement ends asynchronously, so its outcome is a step
  of its own. The calls the scheduler makes through the issuers of a task are its events, and
  \<open>deliver_events\<close> runs the issuers on them in order.
\<close>

section \<open>Data\<close>

record ActiveTask =
  at_task_id :: string
  at_seed :: TSeedFile
  at_file_path :: string
  at_seed_path :: string
  at_is_seed :: bool
  at_state :: string
  at_started_at :: string
  at_finished_at :: string
  at_started_mono :: nat
  at_pipeline :: pipeline
  at_peer_mgr :: PeerManager
  at_tracker_client :: "TrackerClient option"
  at_seed_fd :: int
  at_writer :: "SegmentWriter option"
  at_chunk_offsets :: "u64 list"
  at_bytes_done :: u64
  at_speed_ema :: rat
  at_completed_speed_mib_s :: rat
  at_startup_announce_deadline :: nat
  at_next_startup_announce :: nat
  at_last_bytes_done :: u64
  at_tracker_dead :: bool

record TaskInfo =
  ti_task_id :: string
  ti_state :: string
  ti_progress :: rat
  ti_bytes_done :: u64
  ti_speed_mib_s :: rat
  ti_file_path :: string
  ti_seed_path :: string
  ti_started_at :: string
  ti_finished_at :: string

record TaskManager =
  tm_p2p_port :: u16
  tm_tracker_host :: string
  tm_tracker_port :: u16
  tm_tracker :: TrackerServer
  tm_tasks :: "(string \<times> ActiveTask) list"

definition new_task_manager :: "u16 \<Rightarrow> string \<Rightarrow> u16 \<Rightarrow> TaskManager" where
  "new_task_manager p2p_port tracker_host tracker_port =
     \<lparr>tm_p2p_port = p2p_port, tm_tracker_host = tracker_host, tm_tracker_port = tracker_port,
      tm_tracker = new_tracker tracker_port, tm_tasks = []\<rparr>"

text \<open>What a call finds on the host: digests, files by name, what opening, mapping and copying files give,
  interfaces, clocks and random numbers. \<open>h_resolves\<close> says which names the resolver knows (it throws for
  the others) and \<open>h_bind_ok\<close> whether the listening socket can be bound.\<close>

record host =
  h_platform :: platform
  h_sha1 :: "bytes \<Rightarrow> bytes"
  h_sha256 :: "bytes \<Rightarrow> bytes"
  h_file :: "string \<Rightarrow> bytes option"
  h_map_ok :: bool
  h_open_rdonly :: "string \<Rightarrow> int"
  h_writer_fd :: int
  h_fallocate_ok :: bool
  h_ftruncate_ok :: bool
  h_mmap :: mmap_fun
  h_copy_file_range :: "u64 \<Rightarrow> u64 \<Rightarrow> u64 \<Rightarrow> int"
  h_memory :: store
  h_cores :: u32
  h_ifaddrs :: "ifaddr list option"
  h_speed_file :: "string \<Rightarrow> u32 option option"
  h_bind_ok :: bool
  h_listen_ip :: "string option"
  h_resolves :: "string \<Rightarrow> bool"
  h_piece_shuffle :: "nat list \<Rightarrow> nat list"
  h_random :: "nat \<Rightarrow> nat"
  h_iso_now :: string
  h_now :: nat

datatype exn = Seed_error seed_error | Bind_failed | Resolve_failed

text \<open>\<open>tasks_\<close>, a \<open>std::map\<close>: an association list in the order of the task ids.\<close>

fun task_put :: "string \<Rightarrow> 'a \<Rightarrow> (string \<times> 'a) list \<Rightarrow> (string \<times> 'a) list" where
  "task_put k v [] = [(k, v)]"
| "task_put k v ((k', v') # es) =
     (if k = k' then (k, v) # es else if k < k' then (k, v) # (k', v') # es else (k', v') # task_put k v es)"

definition gen_task_id :: "(nat \<Rightarrow> nat) \<Rightarrow> string" where
  "gen_task_id rng = map (\<lambda>i. hex_digit (rng i)) [0..<8]"

definition mark_seed_complete :: "Scheduler \<Rightarrow> bool list \<Rightarrow> Scheduler" where
  "mark_seed_complete s bitfield = mark_all_complete bitfield s"

section \<open>The issuers of a task\<close>

fun issue_event :: "endian \<Rightarrow> nat \<Rightarrow> sched_event \<Rightarrow> PeerManager \<Rightarrow> PeerManager" where
  "issue_event e now (Issue_request sid c b l) pm =
     (case get_session sid pm of
        None \<Rightarrow> pm
      | Some sess \<Rightarrow>
          put_session sid (record_request_sent c b now (inc_pending
            (send_message (build_request e (of_nat c) (of_nat b) (of_nat l)) sess))) pm)"
| "issue_event e now (Cancel_request sid c b l) pm =
     (case get_session sid pm of
        None \<Rightarrow> pm
      | Some sess \<Rightarrow>
          put_session sid (dec_pending (send_message (build_cancel e (of_nat c) (of_nat b) (of_nat l)) sess)) pm)"
| "issue_event e now (Broadcast_have c) pm =
     pm\<lparr>pm_sessions := map (send_message (build_have e (of_nat c))) (pm_sessions pm)\<rparr>"
| "issue_event e now Broadcast_not_interested pm =
     pm\<lparr>pm_sessions := map (send_message (build_not_interested e)) (pm_sessions pm)\<rparr>"
| "issue_event e now (Not_interested sid) pm =
     (case get_session sid pm of None \<Rightarrow> pm | Some sess \<Rightarrow> put_session sid (send_not_interested e sess) pm)"

definition deliver_events :: "endian \<Rightarrow> nat \<Rightarrow> PeerManager \<Rightarrow> PeerManager" where
  "deliver_events e now pm =
     fold (issue_event e now) (out (pm_sched pm)) (pm\<lparr>pm_sched := (pm_sched pm)\<lparr>out := []\<rparr>\<rparr>)"

section \<open>Announcing a task\<close>

definition tracker_endpoint :: "TaskManager \<Rightarrow> TSeedFile \<Rightarrow> string \<times> u16" where
  "tracker_endpoint tm seed =
     (let (host, port) =
        (if tm_tracker_host tm = []
         then case parse_tracker_url (announce_url seed) of
                Some t_url \<Rightarrow> (tu_host t_url, tu_port t_url)
              | None \<Rightarrow> (tm_tracker_host tm, tm_tracker_port tm)
         else (tm_tracker_host tm, tm_tracker_port tm))
      in (if host = [] then ''127.0.0.1'' else host, port))"

definition new_task_client :: "u16 \<Rightarrow> TSeedFile \<Rightarrow> TrackerClient" where
  "new_task_client p2p_port seed = \<lparr>tc_info_hash_hex = digest_hex (info_hash seed), tc_p2p_port = p2p_port,
     tc_speed_mbps = 1000, tc_retry_enabled = True, tc_retry_count = 0, tc_has_on_dead = True, tc_dead_signalled = False\<rparr>"

text \<open>The flag is \<open>False\<close> when the resolver throws.\<close>

definition announce_task_now :: "host \<Rightarrow> TaskManager \<Rightarrow> ActiveTask \<Rightarrow> bool \<times> ActiveTask" where
  "announce_task_now h tm t =
     (let ep = tracker_endpoint tm (at_seed t);
          client = (case at_tracker_client t of Some c \<Rightarrow> c | None \<Rightarrow> new_task_client (tm_p2p_port tm) (at_seed t))
      in (h_resolves h (fst ep), t\<lparr>at_tracker_client := Some (announce_reset client), at_tracker_dead := False\<rparr>))"

fun on_tracker_event :: "host \<Rightarrow> tracker_event \<Rightarrow> ActiveTask \<Rightarrow> ActiveTask" where
  "on_tracker_event h (Tev_peers peers) t = t\<lparr>at_peer_mgr :=
     fold (\<lambda>p. connect_to (pf_inet (h_platform h)) (pf_sendfile (h_platform h)) (h_now h)
                 (inet_ntoa (pf_order (h_platform h)) (pex_ip p)) (ntoh16 (pf_order (h_platform h)) (pex_port p)))
       peers (at_peer_mgr t)\<rparr>"
| "on_tracker_event h Tev_dead t = t\<lparr>at_tracker_dead := True\<rparr>"
| "on_tracker_event h _ t = t"

text \<open>An attempt of the task's client comes to its end.\<close>

definition on_attempt :: "host \<Rightarrow> (string \<Rightarrow> json option) \<Rightarrow> attempt \<Rightarrow> ActiveTask \<Rightarrow> ActiveTask option" where
  "on_attempt h yyjson_read a t =
     (case at_tracker_client t of
        None \<Rightarrow> None
      | Some c \<Rightarrow>
          map_option (\<lambda>(c', evs). fold (on_tracker_event h) evs (t\<lparr>at_tracker_client := Some c'\<rparr>))
            (do_announce (pf_order (h_platform h)) (pf_inet (h_platform h)) yyjson_read a c))"

section \<open>Reusing what is on disk\<close>

definition seed_config :: "TSeedFile \<Rightarrow> FastCDCConfig" where
  "seed_config seed = \<lparr>min_size = min_chunk_size (header seed), avg_size = avg_chunk_size (header seed),
     max_size = max_chunk_size (header seed)\<rparr>"

definition scan_path :: "host \<Rightarrow> bytes option \<Rightarrow> FastCDCConfig \<Rightarrow> ChunkEntry list" where
  "scan_path h content cfg = fastcdc_scan_file (h_sha256 h) (if h_map_ok h then content else None) content cfg"

text \<open>The index by digest that \<open>cmd_add\<close> and \<open>cmd_update\<close> build: a missing key is an empty list.\<close>

definition index_chunks :: "ChunkEntry list \<Rightarrow> bytes \<Rightarrow> ChunkEntry list" where
  "index_chunks cs = fold (\<lambda>c index. index(ce_sha256 c := index (ce_sha256 c) @ [c])) cs (\<lambda>_. [])"

definition resume_step :: "(bytes \<Rightarrow> ChunkEntry list) \<Rightarrow> ChunkEntry \<Rightarrow> bool list \<times> u64 \<Rightarrow> bool list \<times> u64" where
  "resume_step local_index want = (\<lambda>(bf, bytes).
     if \<exists>have \<in> set (local_index (ce_sha256 want)). ce_offset have = ce_offset want \<and> ce_length have = ce_length want
     then (bf @ [True], bytes + ucast (ce_length want)) else (bf @ [False], bytes))"

definition resume_chunks :: "host \<Rightarrow> TSeedFile \<Rightarrow> bytes option \<Rightarrow> bool list \<times> u64" where
  "resume_chunks h seed content =
     fold (resume_step (index_chunks (scan_path h content (seed_config seed)))) (chunks seed) ([], 0)"

type_synonym files = "string \<Rightarrow> bytes option"

definition write_at :: "nat \<Rightarrow> bytes \<Rightarrow> bytes \<Rightarrow> bytes" where
  "write_at off data content =
     (let c = content @ replicate (off - length content) 0 in take off c @ data @ drop (off + length data) c)"

definition clone_range ::
    "(u64 \<Rightarrow> u64 \<Rightarrow> u64 \<Rightarrow> int) \<Rightarrow> string \<Rightarrow> u64 \<Rightarrow> string \<Rightarrow> u64 \<Rightarrow> u64 \<Rightarrow> files \<Rightarrow> bool \<times> files" where
  "clone_range copy_file_range src src_off dst dst_off len fs =
     (let n = copy_file_range src_off dst_off len
      in (n = int (unat len),
          case (fs src, fs dst) of
            (Some old, Some new) \<Rightarrow>
              fs(dst \<mapsto> write_at (unat dst_off) (take (nat n) (drop (unat src_off) old)) new)
          | _ \<Rightarrow> fs))"

text \<open>The loop over the candidates of one chunk: the first of the right length that can be copied is used
  up; a candidate that was not used stays.\<close>

fun try_candidates ::
    "(u64 \<Rightarrow> u64 \<Rightarrow> u64 \<Rightarrow> int) \<Rightarrow> string \<Rightarrow> string \<Rightarrow> ChunkEntry \<Rightarrow> ChunkEntry list \<Rightarrow> files
     \<Rightarrow> bool \<times> ChunkEntry list \<times> files" where
  "try_candidates cfr src dst want [] fs = (False, [], fs)"
| "try_candidates cfr src dst want (cand # cands) fs =
     (if ce_length cand \<noteq> ce_length want
      then case try_candidates cfr src dst want cands fs of (ok, rest, fs') \<Rightarrow> (ok, cand # rest, fs')
      else case clone_range cfr src (ce_offset cand) dst (ce_offset want) (ucast (ce_length want)) fs of
             (True, fs') \<Rightarrow> (True, cands, fs')
           | (False, fs') \<Rightarrow>
               (case try_candidates cfr src dst want cands fs' of (ok, rest, fs'') \<Rightarrow> (ok, cand # rest, fs'')))"

record clone_state =
  cl_index :: "bytes \<Rightarrow> ChunkEntry list"
  cl_bitfield :: "bool list"
  cl_matched :: u32
  cl_matched_bytes :: u64
  cl_files :: files

definition clone_step ::
    "(u64 \<Rightarrow> u64 \<Rightarrow> u64 \<Rightarrow> int) \<Rightarrow> bool \<Rightarrow> string \<Rightarrow> string \<Rightarrow> ChunkEntry \<Rightarrow> clone_state \<Rightarrow> clone_state" where
  "clone_step cfr old_open src dst want st =
     (if \<not> old_open then st\<lparr>cl_bitfield := cl_bitfield st @ [False]\<rparr>
      else case try_candidates cfr src dst want (cl_index st (ce_sha256 want)) (cl_files st) of
             (ok, rest, fs) \<Rightarrow>
               st\<lparr>cl_index := (cl_index st)(ce_sha256 want := rest), cl_bitfield := cl_bitfield st @ [ok],
                  cl_matched := (if ok then cl_matched st + 1 else cl_matched st),
                  cl_matched_bytes := (if ok then cl_matched_bytes st + ucast (ce_length want) else cl_matched_bytes st),
                  cl_files := fs\<rparr>)"

definition clone_chunks ::
    "(u64 \<Rightarrow> u64 \<Rightarrow> u64 \<Rightarrow> int) \<Rightarrow> bool \<Rightarrow> string \<Rightarrow> string \<Rightarrow> ChunkEntry list \<Rightarrow> ChunkEntry list \<Rightarrow> files \<Rightarrow> clone_state" where
  "clone_chunks cfr old_open src dst old_chunks wanted fs =
     fold (clone_step cfr old_open src dst) wanted
       \<lparr>cl_index = index_chunks old_chunks, cl_bitfield = [], cl_matched = 0, cl_matched_bytes = 0, cl_files = fs\<rparr>"

section \<open>Starting a task\<close>

definition io_threads :: "u32 \<Rightarrow> u32" where
  "io_threads hardware_concurrency = min (max 2 (hardware_concurrency div 2)) 8"

fun init_assemblers ::
    "mmap_fun \<Rightarrow> ChunkEntry list \<Rightarrow> SegmentWriter \<Rightarrow> ChunkAssembler list option \<times> SegmentWriter" where
  "init_assemblers mm [] w = (Some [], w)"
| "init_assemblers mm (c # cs) w =
     (case get_chunk_base mm (ce_offset c) (ce_length c) w of
        (None, w1) \<Rightarrow> (None, w1)
      | (Some b, w1) \<Rightarrow>
          (case assembler_init (Some (unat b)) (ce_length c) SUB_BLOCK_SIZE of
             None \<Rightarrow> (None, w1)
           | Some a \<Rightarrow> (case init_assemblers mm cs w1 of (asms, w2) \<Rightarrow> (map_option (Cons a) asms, w2))))"

definition task_peer_manager :: "host \<Rightarrow> TaskManager \<Rightarrow> TSeedFile \<Rightarrow> u32 \<Rightarrow> bool list \<Rightarrow> PeerManager" where
  "task_peer_manager h tm seed speed bf =
     (new_peer_manager (pf_inet (h_platform h)) (h_listen_ip h) (get_local_ip (h_ifaddrs h)) new_scheduler True
        (info_hash seed) speed (tm_p2p_port tm))
     \<lparr>pm_initial_bitfield := bf, pm_has_file := True, pm_chunk_offsets := Some (map ce_offset (chunks seed))\<rparr>"

definition seed_scheduler :: "TSeedFile \<Rightarrow> u32 \<Rightarrow> bool list \<Rightarrow> Scheduler \<Rightarrow> Scheduler" where
  "seed_scheduler seed speed full_bf s =
     set_not_interested_issuer (set_cancel_issuer (mark_seed_complete
       (set_chunk_sizes (map ce_length (chunks seed)) (init_scheduler (unat (chunk_count (header seed))) speed s)) full_bf))"

definition download_scheduler ::
    "(nat list \<Rightarrow> nat list) \<Rightarrow> TSeedFile \<Rightarrow> u32 \<Rightarrow> bool \<Rightarrow> bool list \<Rightarrow> Scheduler \<Rightarrow> Scheduler" where
  "download_scheduler shuf seed speed some_done bf s =
     (let s1 = randomize_piece_order shuf
                 (set_chunk_sizes (map ce_length (chunks seed)) (init_scheduler (unat (chunk_count (header seed))) speed s));
          s2 = (if some_done then mark_all_complete bf s1 else s1)
      in set_not_interested_issuer (set_cancel_issuer s2))"

definition new_task :: "host \<Rightarrow> string \<Rightarrow> TSeedFile \<Rightarrow> string \<Rightarrow> string \<Rightarrow> pipeline \<Rightarrow> PeerManager \<Rightarrow> ActiveTask" where
  "new_task h tid seed file_path seed_path pl pm = \<lparr>
     at_task_id = tid, at_seed = seed, at_file_path = file_path, at_seed_path = seed_path, at_is_seed = False,
     at_state = ''downloading'', at_started_at = h_iso_now h, at_finished_at = [], at_started_mono = h_now h,
     at_pipeline = pl, at_peer_mgr = pm, at_tracker_client = None, at_seed_fd = -1, at_writer = None,
     at_chunk_offsets = map ce_offset (chunks seed), at_bytes_done = 0, at_speed_ema = 0, at_completed_speed_mib_s = 0,
     at_startup_announce_deadline = h_now h + 60000000, at_next_startup_announce = h_now h + 2000000,
     at_last_bytes_done = 0, at_tracker_dead = False\<rparr>"

text \<open>The end of the three commands: the task is stored, then announced; when the resolver throws, the task
  stays stored.\<close>

definition store_task :: "host \<Rightarrow> ActiveTask \<Rightarrow> string \<Rightarrow> TaskManager \<Rightarrow> (exn + string) \<times> TaskManager" where
  "store_task h t response tm =
     (let (ok, t') = announce_task_now h tm t;
          tm' = tm\<lparr>tm_tasks := task_put (at_task_id t) t' (tm_tasks tm)\<rparr>
      in (if ok then Inr response else Inl Resolve_failed, tm'))"

section \<open>Commands\<close>

definition error_json :: "string \<Rightarrow> string" where
  "error_json msg = ''{'' @ quoted ''status'' @ '':'' @ quoted ''error'' @ '','' @ quoted ''error'' @ '':'' @ quoted msg @ ''}''"

definition task_json :: "string \<Rightarrow> string \<Rightarrow> string" where
  "task_json tid extra = ''{'' @ quoted ''status'' @ '':'' @ quoted ''ok'' @ '','' @ quoted ''data'' @ '':{''
     @ quoted ''task_id'' @ '':'' @ quoted tid @ extra @ ''}}''"

definition cmd_seed :: "host \<Rightarrow> string \<Rightarrow> string \<Rightarrow> TaskManager \<Rightarrow> (exn + string) \<times> TaskManager" where
  "cmd_seed h seed_path file_path tm =
     (case read_tseed (pf_order (h_platform h)) (h_sha1 h) (h_file h seed_path) of
        Inl err \<Rightarrow> (Inl (Seed_error err), tm)
      | Inr seed \<Rightarrow>
          let tid = gen_task_id (h_random h);
              fd = h_open_rdonly h file_path;
              asms = map (\<lambda>c. the (assembler_init None (ce_length c) SUB_BLOCK_SIZE)) (chunks seed);
              pl = start_pipeline (io_threads (h_cores h)) (h_cores h) asms (h_memory h);
              speed = detect_link_speed_mbps (h_ifaddrs h) (h_speed_file h);
              full_bf = replicate (unat (chunk_count (header seed))) True;
              pm = task_peer_manager h tm seed speed full_bf;
              pm' = pm\<lparr>pm_sched := seed_scheduler seed speed full_bf (pm_sched pm)\<rparr>
          in if fd < 0 then (Inr (error_json ''cannot open file for seeding''), tm)
             else if \<not> h_bind_ok h then (Inl Bind_failed, tm)
             else store_task h
                    ((new_task h tid seed file_path seed_path pl pm')
                     \<lparr>at_is_seed := True, at_state := ''seeding'', at_seed_fd := fd,
                      at_startup_announce_deadline := 0, at_next_startup_announce := 0\<rparr>)
                    (task_json tid []) tm)"

text \<open>\<open>SegmentWriter::open\<close> with its default segment size.\<close>

definition open_output :: "host \<Rightarrow> string \<Rightarrow> TSeedFile \<Rightarrow> bool \<times> SegmentWriter \<times> bytes option" where
  "open_output h path seed =
     segment_open path (file_size (header seed)) (64 * 1024 * 1024) (h_file h path)
       (h_writer_fd h) (h_fallocate_ok h) (h_ftruncate_ok h) new_segment_writer"

definition cmd_add :: "host \<Rightarrow> string \<Rightarrow> string \<Rightarrow> TaskManager \<Rightarrow> (exn + string) \<times> files \<times> TaskManager" where
  "cmd_add h seed_path save_path tm =
     (case read_tseed (pf_order (h_platform h)) (h_sha1 h) (h_file h seed_path) of
        Inl err \<Rightarrow> (Inl (Seed_error err), h_file h, tm)
      | Inr seed \<Rightarrow>
          let tid = gen_task_id (h_random h);
              file_exists = (case h_file h save_path of None \<Rightarrow> False | Some c \<Rightarrow> c \<noteq> []);
              (ok, w, content) = open_output h save_path seed;
              fs = (h_file h)(save_path := content)
          in if \<not> ok then (Inr (error_json ''cannot create output file''), fs, tm)
             else case init_assemblers (h_mmap h) (chunks seed) w of
                    (None, w') \<Rightarrow> (Inr (error_json ''mmap chunk base failed''), fs, tm)
                  | (Some asms, w') \<Rightarrow>
                      if \<not> h_bind_ok h then (Inl Bind_failed, fs, tm)
                      else let pl = start_pipeline (io_threads (h_cores h)) (h_cores h) asms (h_memory h);
                               speed = detect_link_speed_mbps (h_ifaddrs h) (h_speed_file h);
                               (init_bf, initial_bytes_done) =
                                 (if file_exists then resume_chunks h seed content
                                  else (replicate (unat (chunk_count (header seed))) False, 0));
                               pm = task_peer_manager h tm seed speed init_bf;
                               pm' = pm\<lparr>pm_sched := download_scheduler (h_piece_shuffle h) seed speed
                                            (initial_bytes_done > 0) init_bf (pm_sched pm)\<rparr>;
                               t = (new_task h tid seed save_path seed_path pl pm')
                                     \<lparr>at_writer := Some w', at_bytes_done := initial_bytes_done\<rparr>;
                               (resp, tm') = store_task h t (task_json tid []) tm
                           in (resp, fs, tm'))"

text \<open>The scan of the old file, before the output is opened. An exception of the old seed's reader is caught
  and leaves nothing to reuse.\<close>

definition old_file_chunks :: "host \<Rightarrow> string \<Rightarrow> string \<Rightarrow> ChunkEntry list option" where
  "old_file_chunks h old_seed_path old_file_path =
     (if old_file_path = [] then None
      else case read_tseed (pf_order (h_platform h)) (h_sha1 h) (h_file h old_seed_path) of
             Inl err \<Rightarrow> None
           | Inr old_seed \<Rightarrow> Some (scan_path h (h_file h old_file_path) (seed_config old_seed)))"

definition cmd_update ::
    "host \<Rightarrow> string \<Rightarrow> string \<Rightarrow> string \<Rightarrow> string \<Rightarrow> TaskManager \<Rightarrow> (exn + string) \<times> files \<times> TaskManager" where
  "cmd_update h new_seed_path new_file_path old_seed_path old_file_path tm =
     (case read_tseed (pf_order (h_platform h)) (h_sha1 h) (h_file h new_seed_path) of
        Inl err \<Rightarrow> (Inl (Seed_error err), h_file h, tm)
      | Inr seed \<Rightarrow>
          let tid = gen_task_id (h_random h);
              old_chunks = old_file_chunks h old_seed_path old_file_path;
              (ok, w, content) = open_output h new_file_path seed;
              fs = (h_file h)(new_file_path := content)
          in if \<not> ok then (Inr (error_json ''cannot create output file''), fs, tm)
             else case init_assemblers (h_mmap h) (chunks seed) w of
                    (None, w') \<Rightarrow> (Inr (error_json ''mmap chunk base failed''), fs, tm)
                  | (Some asms, w') \<Rightarrow>
                      let pl = start_pipeline (io_threads (h_cores h)) (h_cores h) asms (h_memory h);
                          speed = detect_link_speed_mbps (h_ifaddrs h) (h_speed_file h);
                          st = clone_chunks (h_copy_file_range h)
                                 (old_chunks \<noteq> None \<and> h_open_rdonly h old_file_path \<ge> 0)
                                 old_file_path new_file_path (case old_chunks of None \<Rightarrow> [] | Some cs \<Rightarrow> cs) (chunks seed) fs;
                          pm = task_peer_manager h tm seed speed (cl_bitfield st);
                          pm' = pm\<lparr>pm_sched := download_scheduler (h_piece_shuffle h) seed speed
                                       (cl_matched st > 0) (cl_bitfield st) (pm_sched pm)\<rparr>;
                          t = (new_task h tid seed new_file_path new_seed_path pl pm')
                                \<lparr>at_writer := Some w', at_bytes_done := cl_matched_bytes st\<rparr>;
                          (resp, tm') = store_task h t
                             (task_json tid ('','' @ quoted ''chunk_count'' @ '':'' @ show_nat (unat (chunk_count (header seed)))
                               @ '','' @ quoted ''matched'' @ '':'' @ show_nat (unat (cl_matched st)))) tm
                      in if \<not> h_bind_ok h then (Inl Bind_failed, cl_files st, tm) else (resp, cl_files st, tm'))"

definition task_info :: "string \<times> ActiveTask \<Rightarrow> TaskInfo" where
  "task_info = (\<lambda>(tid, t).
     let st = (if at_state t = [] then if at_is_seed t then ''seeding'' else ''downloading'' else at_state t)
     in \<lparr>ti_task_id = tid, ti_state = st,
         ti_progress = (if file_size (header (at_seed t)) > 0
                        then of_nat (unat (at_bytes_done t)) / of_nat (unat (file_size (header (at_seed t)))) else 0),
         ti_bytes_done = at_bytes_done t,
         ti_speed_mib_s = (if st = ''complete'' \<and> at_completed_speed_mib_s t > 0 then at_completed_speed_mib_s t
                           else at_speed_ema t / (1024 * 1024) * 10),
         ti_file_path = at_file_path t, ti_seed_path = at_seed_path t,
         ti_started_at = at_started_at t, ti_finished_at = at_finished_at t\<rparr>)"

definition cmd_list :: "TaskManager \<Rightarrow> TaskInfo list" where
  "cmd_list tm = map task_info (tm_tasks tm)"

definition cmd_remove :: "string \<Rightarrow> TaskManager \<Rightarrow> string \<times> TaskManager" where
  "cmd_remove task_id tm =
     (if task_id \<in> fst ` set (tm_tasks tm)
      then (''{'' @ quoted ''status'' @ '':'' @ quoted ''ok'' @ ''}'', tm\<lparr>tm_tasks := filter (\<lambda>(k, _). k \<noteq> task_id) (tm_tasks tm)\<rparr>)
      else (error_json ''task not found'', tm))"

definition session_json :: "PeerSession \<Rightarrow> string" where
  "session_json sess = ''{'' @ quoted ''ip'' @ '':'' @ quoted (remote_ip sess) @ '','' @ quoted ''port'' @ '':'' @ show_nat (unat (remote_port sess))
     @ '','' @ quoted ''speed_mbps'' @ '':'' @ show_nat (unat (ps_remote_speed_mbps sess))
     @ '','' @ quoted ''pending'' @ '':'' @ show_nat (unat (ps_pending_requests sess)) @ '','' @ quoted ''flags'' @ '':0}''"

definition cmd_peers :: "string \<Rightarrow> TaskManager \<Rightarrow> string" where
  "cmd_peers task_id tm =
     (case map_of (tm_tasks tm) task_id of
        None \<Rightarrow> error_json ''task not found''
      | Some t \<Rightarrow> ''{'' @ quoted ''status'' @ '':'' @ quoted ''ok'' @ '','' @ quoted ''data'' @ '':{'' @ quoted ''peers'' @ '':[''
          @ join_comma (map session_json (pm_sessions (at_peer_mgr t))) @ '']}}'')"

section \<open>The heartbeat of a task\<close>

definition on_result :: "TSeedFile \<Rightarrow> VerifyResult \<Rightarrow> Scheduler \<times> u64 \<times> ChunkCompleteMsg list \<Rightarrow> Scheduler \<times> u64 \<times> ChunkCompleteMsg list" where
  "on_result seed r = (\<lambda>(s, bytes, passed).
     if vr_passed r
     then (s, if vr_chunk_idx r < chunk_count (header seed) then bytes + ucast (ce_length (chunks seed ! unat (vr_chunk_idx r))) else bytes,
           passed @ [\<lparr>cc_chunk_idx = unat (vr_chunk_idx r), cc_winning_peer_slot = vr_winning_peer_slot r\<rparr>])
     else (on_verify_failed (unat (vr_chunk_idx r)) s, bytes, passed))"

definition check_complete :: "host \<Rightarrow> ActiveTask \<Rightarrow> ActiveTask" where
  "check_complete h t =
     (if at_bytes_done t \<ge> file_size (header (at_seed t)) \<and> at_state t = ''downloading''
      then let elapsed = (of_nat (h_now h) - of_nat (at_started_mono t)) / 1000000 :: rat;
               t' = t\<lparr>at_state := ''complete'', at_finished_at := h_iso_now h\<rparr>
           in if elapsed > 0
              then t'\<lparr>at_completed_speed_mib_s := of_nat (unat (file_size (header (at_seed t)))) / elapsed / (1024 * 1024)\<rparr>
              else t'
      else t)"

definition take_results :: "host \<Rightarrow> ActiveTask \<Rightarrow> ActiveTask" where
  "take_results h t =
     (let pm = at_peer_mgr t;
          s1 = tick (pf_sort (h_platform h)) (of_nat (h_now h div 1000)) (pm_sched pm);
          (results, v) = drain_results (pl_verify (at_pipeline t));
          (s2, bytes, passed) = fold (on_result (at_seed t)) results (s1, at_bytes_done t, []);
          s3 = (if passed \<noteq> [] then process_completions passed s2 else s2)
      in t\<lparr>at_peer_mgr := deliver_events (pf_order (h_platform h)) (h_now h) (pm\<lparr>pm_sched := s3\<rparr>),
           at_pipeline := (at_pipeline t)\<lparr>pl_verify := v\<rparr>, at_bytes_done := bytes\<rparr>)"

definition update_speed :: "ActiveTask \<Rightarrow> ActiveTask" where
  "update_speed t = t\<lparr>at_last_bytes_done := at_bytes_done t,
     at_speed_ema := 0.125 * of_nat (unat (at_bytes_done t - at_last_bytes_done t)) + 0.875 * at_speed_ema t\<rparr>"

definition mark_waiting :: "ActiveTask \<Rightarrow> ActiveTask" where
  "mark_waiting t = (if at_tracker_dead t \<and> at_state t = ''downloading'' then t\<lparr>at_state := ''waiting''\<rparr> else t)"

definition startup_announce :: "host \<Rightarrow> TaskManager \<Rightarrow> ActiveTask \<Rightarrow> bool \<times> ActiveTask" where
  "startup_announce h tm t =
     (if \<not> at_is_seed t \<and> at_state t = ''downloading'' \<and> h_now h < at_startup_announce_deadline t
         \<and> h_now h \<ge> at_next_startup_announce t
      then announce_task_now h tm (t\<lparr>at_next_startup_announce := h_now h + 2000000\<rparr>) else (True, t))"

text \<open>One task's turn in \<open>TaskManager::tick\<close>; the flag is \<open>False\<close> when the announcement throws, which ends
  the whole tick.\<close>

definition task_tick :: "host \<Rightarrow> TaskManager \<Rightarrow> ActiveTask \<Rightarrow> bool \<times> ActiveTask" where
  "task_tick h tm t =
     (let (ok, t') = startup_announce h tm (mark_waiting (check_complete h (take_results h t)))
      in if ok then (True, update_speed t') else (False, t'))"

text \<open>A loop over \<open>tasks_\<close> that an exception leaves.\<close>

fun each_task :: "(ActiveTask \<Rightarrow> bool \<times> ActiveTask) \<Rightarrow> (string \<times> ActiveTask) list \<Rightarrow> bool \<times> (string \<times> ActiveTask) list" where
  "each_task f [] = (True, [])"
| "each_task f ((tid, t) # ts) =
     (case f t of
        (False, t') \<Rightarrow> (False, (tid, t') # ts)
      | (True, t') \<Rightarrow> (case each_task f ts of (ok, ts') \<Rightarrow> (ok, (tid, t') # ts')))"

definition tick_tasks :: "host \<Rightarrow> TaskManager \<Rightarrow> bool \<times> TaskManager" where
  "tick_tasks h tm = (case each_task (task_tick h tm) (tm_tasks tm) of (ok, ts) \<Rightarrow> (ok, tm\<lparr>tm_tasks := ts\<rparr>))"

definition tick_tracker_announce :: "host \<Rightarrow> TaskManager \<Rightarrow> bool \<times> TaskManager" where
  "tick_tracker_announce h tm =
     (case each_task (announce_task_now h tm) (tm_tasks tm) of (ok, ts) \<Rightarrow> (ok, tm\<lparr>tm_tasks := ts\<rparr>))"

definition each_peer_mgr :: "(PeerManager \<Rightarrow> PeerManager) \<Rightarrow> TaskManager \<Rightarrow> TaskManager" where
  "each_peer_mgr f tm = tm\<lparr>tm_tasks := map (\<lambda>(tid, t). (tid, t\<lparr>at_peer_mgr := f (at_peer_mgr t)\<rparr>)) (tm_tasks tm)\<rparr>"

definition tick_choke_all :: "host \<Rightarrow> TaskManager \<Rightarrow> TaskManager" where
  "tick_choke_all h = each_peer_mgr (tick_choke (pf_order (h_platform h)) (pf_desc (h_platform h)) (pf_shuffle (h_platform h)) (h_now h))"

definition tick_pex_all :: "host \<Rightarrow> TaskManager \<Rightarrow> TaskManager" where
  "tick_pex_all h = each_peer_mgr (tick_pex (pf_order (h_platform h)) (pf_inet (h_platform h)) (h_now h))"

text \<open>The statistics timer: every session's rates are renewed. Its line in the log is given with the sum.\<close>

definition do_stats_tick :: "host \<Rightarrow> bool \<Rightarrow> TaskManager \<Rightarrow> u64 \<times> TaskManager" where
  "do_stats_tick h cancelled tm =
     (if cancelled then (0, tm)
      else let tm' = each_peer_mgr (\<lambda>pm. pm\<lparr>pm_sessions :=
                       map (\<lambda>s. update_upload_rate (h_now h) (update_download_rate (h_now h) s)) (pm_sessions pm)\<rparr>) tm
           in (fold (\<lambda>(tid, t). fold (\<lambda>s total. total + ucast (ps_download_rate_kbps s)) (pm_sessions (at_peer_mgr t)))
                 (tm_tasks tm') 0, tm'))"

end
