(* ===== verification/Honest_Runs.thy ===== *)
theory Honest_Runs
  imports Pipeline
begin

text \<open>
  The download pipeline when peers send what the seed describes: every piece dispatched is a whole
  sub-block of its chunk. However the workers interleave, no step is undefined, no verification
  fails, a verified chunk is in memory byte for byte, and once everything dispatched has been
  processed each fully delivered chunk has been verified.
\<close>

section \<open>Honest pieces\<close>

definition honest_task :: "(nat \<Rightarrow> bytes) \<Rightarrow> ChunkAssembler list \<Rightarrow> PieceTask \<Rightarrow> bool" where
  "honest_task content asms task \<longleftrightarrow> unat (pt_chunk_idx task) < length asms
     \<and> genuine_piece (asms ! unat (pt_chunk_idx task)) (content (unat (pt_chunk_idx task))) (pt_begin task) (pt_data task)"

definition apart :: "(nat \<Rightarrow> bytes) \<Rightarrow> (nat \<Rightarrow> nat) \<Rightarrow> nat \<Rightarrow> bool" where
  "apart content bs n \<longleftrightarrow> (\<forall>i < n. \<forall>j < n. i \<noteq> j \<longrightarrow>
     bs i + length (content i) \<le> bs j \<or> bs j + length (content j) \<le> bs i)"

definition chunk_ok :: "(nat \<Rightarrow> bytes) \<Rightarrow> (nat \<Rightarrow> nat) \<Rightarrow> store \<Rightarrow> nat \<Rightarrow> ChunkAssembler \<Rightarrow> bool" where
  "chunk_ok content bs m i a \<longleftrightarrow> asm_geom a \<and> base a = Some (bs i) \<and> length (content i) = unat (chunk_size a)
     \<and> (\<forall>s \<in> done_slots a. holds_slot a m (content i) s)"

definition call_ok :: "(nat \<Rightarrow> bytes) \<Rightarrow> ChunkAssembler list \<Rightarrow> store \<Rightarrow> PieceTask \<Rightarrow> piece_call \<Rightarrow> bool" where
  "call_ok content asms m t k \<longleftrightarrow> (let i = unat (pt_chunk_idx t); s = slot_of (asms ! i) (pt_begin t) in
     pc_begin k = pt_begin t \<and> pc_data k = pt_data t
     \<and> (pc_at k \<noteq> At_check \<longrightarrow> holds_slot (asms ! i) m (content i) s)
     \<and> (pc_at k \<noteq> At_check \<and> pc_at k \<noteq> At_mark \<longrightarrow> s \<in> done_slots (asms ! i)))"

definition honest_inv :: "(nat \<Rightarrow> bytes) \<Rightarrow> (nat \<Rightarrow> nat) \<Rightarrow> pipeline \<Rightarrow> bool" where
  "honest_inv content bs p \<longleftrightarrow>
     (\<forall>i < length (pl_assemblers p). chunk_ok content bs (pl_mem p) i (pl_assemblers p ! i))
     \<and> (\<forall>q \<in> set (io_queues (pl_io p)). \<forall>t \<in> set q. honest_task content (pl_assemblers p) t)
     \<and> (\<forall>t k. Io_piece t k \<in> set (io_workers (pl_io p)) \<longrightarrow>
          honest_task content (pl_assemblers p) t \<and> call_ok content (pl_assemblers p) (pl_mem p) t k)"

definition grows :: "ChunkAssembler \<Rightarrow> ChunkAssembler \<Rightarrow> bool" where
  "grows a a' \<longleftrightarrow> base a' = base a \<and> chunk_size a' = chunk_size a \<and> sub_block_size a' = sub_block_size a
     \<and> total_slots a' = total_slots a \<and> done_slots a \<subseteq> done_slots a'"

lemma grows_cong:
  assumes "grows a a'"
  shows "genuine_piece a' = genuine_piece a" "slot_of a' = slot_of a" "holds_slot a' = holds_slot a"
  using assms by (simp_all add: grows_def fun_eq_iff genuine_piece_def slot_of_def holds_slot_def)

text \<open>Writing a piece of one chunk leaves the others alone and keeps what the chunk already holds.\<close>

lemma memcpy_apart:
  assumes "apart content bs n" "i < n" "j < n" "asm_geom a" "base a = Some (bs i)" "genuine_piece a (content i) begin data"
    and "base b = Some (bs j)" "i = j \<longrightarrow> sub_block_size b = sub_block_size a" "holds_slot b m (content j) s"
  shows "holds_slot b (memcpy m (the (base a) + unat begin) data) (content j) s"
proof (cases "i = j")
  case True
  then have "holds_slot b = holds_slot a" using assms(5,7,8) by (simp add: fun_eq_iff holds_slot_def)
  then show ?thesis using memcpy_genuine(2)[OF assms(4,6)] assms(9) True by simp
next
  case False
  have "unat begin + length data \<le> length (content i)" using assms(6) by (auto simp: genuine_piece_def)
  moreover have "bs i + length (content i) \<le> bs j \<or> bs j + length (content j) \<le> bs i"
    using assms(1-3) False unfolding apart_def by blast
  ultimately have "memcpy m (the (base a) + unat begin) data (bs j + x) = m (bs j + x)" if "x < length (content j)" for x
    using that assms(5) by (auto simp: memcpy_def)
  then show ?thesis using assms(7,9) by (simp add: holds_slot_def holds_range_def)
qed

text \<open>One step of a call with a genuine piece, as the chunk sees it.\<close>

lemma call_step_honest:
  assumes "asm_geom a" "genuine_piece a chunk (pc_begin k) (pc_data k)" "\<And>r. pc_at k \<noteq> Returned r"
    and "pc_at k = At_count \<longrightarrow> slot_of a (pc_begin k) \<in> done_slots a"
  obtains a' m' k' where "call_step a m k = Some (a', m', k')" "grows a a'" "asm_geom a'"
    "pc_begin k' = pc_begin k" "pc_data k' = pc_data k" "pc_at k' \<noteq> At_check"
    "done_slots a' \<subseteq> insert (slot_of a (pc_begin k)) (done_slots a)"
    "pc_at k = At_check \<Longrightarrow> done_slots a' = done_slots a"
    "pc_at k' \<noteq> At_mark \<Longrightarrow> slot_of a (pc_begin k) \<in> done_slots a'"
    "m' = (if pc_at k = At_check then memcpy m (the (base a) + unat (pc_begin k)) (pc_data k) else m)"
proof (cases "pc_at k")
  case At_check
  show thesis
    by (rule that[OF call_step_genuine(1)[OF assms(1,2) At_check, of m]])
      (use At_check assms(1) in \<open>auto simp: grows_def\<close>)
next
  case At_mark
  obtain a' where a': "call_step a m k =
        Some (a', m, k\<lparr>pc_at := (if slot_of a (pc_begin k) \<in> done_slots a then Returned False else At_count)\<rparr>)"
      "a' = a\<lparr>completed_mask := completed_mask a'\<rparr>" "asm_geom a'"
      "done_slots a' = insert (slot_of a (pc_begin k)) (done_slots a)"
    using call_step_genuine(2)[OF assms(1,2) At_mark, of m] by blast
  obtain cmk where c: "a' = a\<lparr>completed_mask := cmk\<rparr>" using a'(2) by blast
  have "grows a a'" unfolding grows_def a'(4) by (auto simp: c)
  then show thesis using a' At_mark by (intro that[OF a'(1)]) auto
next
  case At_count
  show thesis
    by (rule that[OF call_step_genuine(3)[OF assms(1,2) At_count, of m]])
      (use At_count assms(1,4) in \<open>auto simp: grows_def\<close>)
qed (use assms(3) in simp)

section \<open>Steps keep the invariant\<close>

lemma honest_grow:
  assumes inv: "honest_inv content bs p" and i: "i < length (pl_assemblers p)" and g: "grows (pl_assemblers p ! i) a'"
    and ok: "chunk_ok content bs m' i a'"
    and keep: "\<And>j s. j < length (pl_assemblers p) \<Longrightarrow> holds_slot (pl_assemblers p ! j) (pl_mem p) (content j) s
        \<Longrightarrow> holds_slot (pl_assemblers p ! j) m' (content j) s"
  shows "honest_inv content bs (p\<lparr>pl_assemblers := (pl_assemblers p)[i := a'], pl_mem := m'\<rparr>)"
proof -
  let ?asms = "(pl_assemblers p)[i := a']"
  have c: "genuine_piece (?asms ! j) = genuine_piece (pl_assemblers p ! j)" "slot_of (?asms ! j) = slot_of (pl_assemblers p ! j)"
    "holds_slot (?asms ! j) = holds_slot (pl_assemblers p ! j)" "done_slots (pl_assemblers p ! j) \<subseteq> done_slots (?asms ! j)" for j
    using grows_cong[OF g] g i by (cases "j = i"; simp add: grows_def)+
  have h: "honest_task content ?asms t = honest_task content (pl_assemblers p) t" for t
    by (simp add: honest_task_def c(1))
  have k: "call_ok content ?asms m' t q" if "call_ok content (pl_assemblers p) (pl_mem p) t q" "honest_task content (pl_assemblers p) t" for t q
    using that keep[of "unat (pt_chunk_idx t)"]
    by (auto simp: call_ok_def Let_def c(1-3) honest_task_def intro: subsetD[OF c(4)])
  have "chunk_ok content bs m' j (?asms ! j)" if "j < length (pl_assemblers p)" for j
    using that ok inv keep[OF that] i by (cases "j = i") (auto simp: honest_inv_def chunk_ok_def)
  then show ?thesis using inv k by (simp add: honest_inv_def h)
qed

lemma honest_set:
  assumes "honest_inv content bs p"
    and "\<And>t k. y = Io_piece t k \<Longrightarrow> honest_task content (pl_assemblers p) t \<and> call_ok content (pl_assemblers p) (pl_mem p) t k"
  shows "honest_inv content bs (io_set w y p)"
proof -
  have "Io_piece t k = y \<or> Io_piece t k \<in> set ws" if "Io_piece t k \<in> set (ws[w := y])" for t k ws
    using that set_update_subset_insert[of ws w y] by blast
  then show ?thesis using assms by (fastforce simp: honest_inv_def)
qed

lemma honest_verify [simp]: "honest_inv content bs (p\<lparr>pl_verify := v\<rparr>) = honest_inv content bs p"
  by (simp add: honest_inv_def)

lemma honest_call:
  assumes inv: "honest_inv content bs p" and ap: "apart content bs (length (pl_assemblers p))"
    and w: "Io_piece t k \<in> set (io_workers (pl_io p))" and pc: "\<And>r. pc_at k \<noteq> Returned r"
  defines "i \<equiv> unat (pt_chunk_idx t)"
  obtains a' m' k' where "call_step (pl_assemblers p ! i) (pl_mem p) k = Some (a', m', k')" "grows (pl_assemblers p ! i) a'"
    "pc_at k' = At_count \<or> pc_at k' = Returned True \<or> pc_at k' = Returned False \<Longrightarrow> slot_of a' (pt_begin t) \<in> done_slots a'"
    "honest_inv content bs (io_set w' (Io_piece t k') (p\<lparr>pl_assemblers := (pl_assemblers p)[i := a'], pl_mem := m'\<rparr>))"
proof -
  let ?a = "pl_assemblers p ! i"
  have t: "honest_task content (pl_assemblers p) t" and ok: "call_ok content (pl_assemblers p) (pl_mem p) t k"
    using inv w by (auto simp: honest_inv_def)
  have i: "i < length (pl_assemblers p)" and gen: "genuine_piece ?a (content i) (pc_begin k) (pc_data k)"
    and beg: "pc_begin k = pt_begin t" "pc_data k = pt_data t"
    using t ok by (auto simp: honest_task_def call_ok_def Let_def i_def)
  have a: "chunk_ok content bs (pl_mem p) i ?a" using inv i by (simp add: honest_inv_def)
  have cnt: "pc_at k = At_count \<longrightarrow> slot_of ?a (pc_begin k) \<in> done_slots ?a"
    using ok beg by (auto simp: call_ok_def Let_def i_def)
  obtain a' m' k' where s: "call_step ?a (pl_mem p) k = Some (a', m', k')" "grows ?a a'" "asm_geom a'"
      "pc_begin k' = pc_begin k" "pc_data k' = pc_data k" "pc_at k' \<noteq> At_check"
      "done_slots a' \<subseteq> insert (slot_of ?a (pc_begin k)) (done_slots ?a)"
      "pc_at k = At_check \<Longrightarrow> done_slots a' = done_slots ?a"
      "pc_at k' \<noteq> At_mark \<Longrightarrow> slot_of ?a (pc_begin k) \<in> done_slots a'"
      "m' = (if pc_at k = At_check then memcpy (pl_mem p) (the (base ?a) + unat (pc_begin k)) (pc_data k) else pl_mem p)"
    using call_step_honest[OF _ gen pc cnt, of "pl_mem p"] a by (auto simp: chunk_ok_def)
  have keep: "holds_slot (pl_assemblers p ! j) m' (content j) s"
    if "j < length (pl_assemblers p)" "holds_slot (pl_assemblers p ! j) (pl_mem p) (content j) s" for j s
  proof -
    have "base (pl_assemblers p ! j) = Some (bs j)" using inv that(1) by (simp add: honest_inv_def chunk_ok_def)
    then show ?thesis using memcpy_apart[OF ap i that(1) _ _ gen _ _ that(2)] a that(2) by (auto simp: s(10) chunk_ok_def)
  qed
  have slot: "holds_slot ?a m' (content i) (slot_of ?a (pc_begin k))"
    using ok beg keep[OF i] memcpy_genuine(1)[OF _ gen, of "pl_mem p"] a by (auto simp: s(10) call_ok_def Let_def i_def chunk_ok_def)
  have "holds_slot ?a m' (content i) sl" if "sl \<in> done_slots a'" for sl
    using that s(7) slot a keep[OF i, of sl] by (auto simp: chunk_ok_def)
  then have "chunk_ok content bs m' i a'"
    using a s(2,3) grows_cong[OF s(2)] by (simp add: chunk_ok_def grows_def)
  then have "honest_inv content bs (p\<lparr>pl_assemblers := (pl_assemblers p)[i := a'], pl_mem := m'\<rparr>)"
    by (intro honest_grow[OF inv i s(2)] keep)
  moreover have "honest_task content ((pl_assemblers p)[i := a']) t"
    using t i grows_cong[OF s(2)] by (simp add: honest_task_def i_def)
  moreover have "call_ok content ((pl_assemblers p)[i := a']) m' t k'"
    using i grows_cong[OF s(2)] s(4,5,6,9) slot beg by (simp add: call_ok_def Let_def i_def)
  ultimately have "honest_inv content bs (io_set w' (Io_piece t k') (p\<lparr>pl_assemblers := (pl_assemblers p)[i := a'], pl_mem := m'\<rparr>))"
    by (intro honest_set) simp_all
  moreover have "pc_at k' = At_count \<or> pc_at k' = Returned True \<or> pc_at k' = Returned False \<Longrightarrow> slot_of a' (pt_begin t) \<in> done_slots a'"
    using s(9) beg grows_cong[OF s(2)] by auto
  ultimately show thesis using that s(1,2) by blast
qed

lemma honest_io:
  assumes inv: "honest_inv content bs p" and ap: "apart content bs (length (pl_assemblers p))"
    and w: "w < length (io_workers (pl_io p))" "w < length (io_queues (pl_io p))" and st: "io_step cs w p = Some p'"
  shows "honest_inv content bs p'"
proof (cases "io_workers (pl_io p) ! w")
  case (Io_piece t k)
  then have m: "Io_piece t k \<in> set (io_workers (pl_io p))" using nth_mem[OF w(1)] by simp
  have i: "unat (pt_chunk_idx t) < length (pl_assemblers p)" using inv m by (auto simp: honest_inv_def honest_task_def)
  show ?thesis
  proof (cases "\<exists>r. pc_at k = Returned r")
    case True
    then show ?thesis using st Io_piece i inv
      by (auto simp: io_step_def io_piece_step_def Let_def split: if_splits intro!: honest_set)
  next
    case False
    then obtain a' m' k' where "call_step (pl_assemblers p ! unat (pt_chunk_idx t)) (pl_mem p) k = Some (a', m', k')"
        "honest_inv content bs (io_set w (Io_piece t k')
           (p\<lparr>pl_assemblers := (pl_assemblers p)[unat (pt_chunk_idx t) := a'], pl_mem := m'\<rparr>))"
      using honest_call[OF inv ap m] by metis
    then show ?thesis using st Io_piece i False
      by (cases "pc_at k") (auto simp: io_step_def io_piece_step_def Let_def)
  qed
next
  case Io_poll
  show ?thesis
  proof (cases "io_queues (pl_io p) ! w")
    case Nil
    then show ?thesis using st Io_poll inv by (auto simp: io_step_def io_poll_def intro!: honest_set)
  next
    case (Cons t q)
    let ?p = "p\<lparr>pl_io := (pl_io p)\<lparr>io_queues := (io_queues (pl_io p))[w := q]\<rparr>\<rparr>"
    have q: "io_queues (pl_io p) ! w \<in> set (io_queues (pl_io p))" using w(2) by simp
    have "\<forall>u \<in> set (t # q). honest_task content (pl_assemblers p) u"
      using inv q Cons by (auto simp: honest_inv_def)
    moreover from this have "honest_inv content bs ?p"
      using inv by (auto simp: honest_inv_def dest!: in_updated)
    ultimately show ?thesis using st Io_poll Cons
      by (auto simp: io_step_def io_poll_def call_ok_def call_of_def Let_def intro!: honest_set)
  qed
qed (use st inv in \<open>auto simp: io_step_def split: if_splits intro!: honest_set\<close>)

lemma honest_dispatch:
  assumes "honest_inv content bs p" "honest_task content (pl_assemblers p) t" "io_dispatch t (pl_io p) = Some io"
  shows "honest_inv content bs (p\<lparr>pl_io := io\<rparr>)"
proof -
  define w where "w = unat (io_route (io_num_workers (pl_io p)) t)"
  have io: "io = (pl_io p)\<lparr>io_queues := (io_queues (pl_io p))[w := io_queues (pl_io p) ! w @ [t]]\<rparr>" "w < length (io_queues (pl_io p))"
    using assms(3) by (auto simp: io_dispatch_def Let_def w_def split: if_splits)
  have "\<forall>u \<in> set (io_queues (pl_io p) ! w). honest_task content (pl_assemblers p) u"
    using assms(1) nth_mem[OF io(2)] by (auto simp: honest_inv_def)
  then show ?thesis using assms(1,2) by (auto simp: io honest_inv_def dest!: in_updated)
qed

section \<open>Complete chunks are right\<close>

lemma complete_all_done:
  assumes "tally a k d" "0 < d" "asm_geom a"
  shows "done_slots a = {..<unat (total_slots a)}"
proof -
  obtain dec where "dec + k = card (done_slots a)" "unat (total_slots a) \<le> dec"
    using assms(1,2) by (auto simp: tally_def done_slots_def split: if_splits)
  then have "card (done_slots a) = unat (total_slots a)" using card_done_le[OF assms(3)] by simp
  then show ?thesis using all_done_iff[OF assms(3)] by simp
qed

lemma complete_in_memory:
  assumes "chunk_ok content bs m i a" "done_slots a = {..<unat (total_slots a)}"
  shows "read_mem m (bs i) (unat (chunk_size a)) = content i"
proof (rule nth_equalityI)
  show "length (read_mem m (bs i) (unat (chunk_size a))) = length (content i)"
    using assms(1) by (simp add: read_mem_def chunk_ok_def)
  fix x assume "x < length (read_mem m (bs i) (unat (chunk_size a)))"
  then have x: "x < length (content i)" "x < unat (chunk_size a)" using assms(1) by (simp_all add: read_mem_def chunk_ok_def)
  have "m (the (base a) + x) = content i ! x"
    using assms x by (intro all_slots_held[of a m "content i"]) (auto simp: chunk_ok_def)
  then show "read_mem m (bs i) (unat (chunk_size a)) ! x = content i ! x"
    using assms(1) x by (simp add: read_mem_def chunk_ok_def)
qed

section \<open>No piece is lost\<close>

definition delivered :: "pipeline \<Rightarrow> PieceTask \<Rightarrow> bool" where
  "delivered p t \<longleftrightarrow> (\<exists>q \<in> set (io_queues (pl_io p)). t \<in> set q) \<or> (\<exists>k. Io_piece t k \<in> set (io_workers (pl_io p)))
     \<or> slot_of (pl_assemblers p ! unat (pt_chunk_idx t)) (pt_begin t) \<in> done_slots (pl_assemblers p ! unat (pt_chunk_idx t))"

definition pool_ok :: "IOWorkerPool \<Rightarrow> bool" where
  "pool_ok io \<longleftrightarrow> io_num_workers io \<noteq> 0 \<and> length (io_queues io) = unat (io_num_workers io)
     \<and> length (io_workers io) = unat (io_num_workers io)"

lemma delivered_verify [simp]: "delivered (p\<lparr>pl_verify := v\<rparr>) t = delivered p t"
  by (simp add: delivered_def)

lemma kept_in_update: "x \<in> set xs \<Longrightarrow> x \<noteq> xs ! w \<Longrightarrow> x \<in> set (xs[w := y])"
  by (metis in_set_conv_nth length_list_update nth_list_update_neq)

lemma delivered_set:
  assumes "delivered p u" "\<And>k. io_workers (pl_io p) ! w = Io_piece u k \<Longrightarrow> delivered (io_set w y p) u"
  shows "delivered (io_set w y p) u"
proof (cases "\<exists>k. io_workers (pl_io p) ! w = Io_piece u k")
  case False
  then have "Io_piece u k \<in> set ((io_workers (pl_io p))[w := y])" if "Io_piece u k \<in> set (io_workers (pl_io p))" for k
    by (intro kept_in_update[OF that]) metis
  then show ?thesis using assms(1) by (auto simp: delivered_def)
qed (use assms(2) in blast)

lemma delivered_grow:
  assumes "delivered p u" "grows (pl_assemblers p ! i) a'" "i < length (pl_assemblers p)"
  shows "delivered (p\<lparr>pl_assemblers := (pl_assemblers p)[i := a'], pl_mem := m'\<rparr>) u"
  using assms(1) assms(2,3) grows_cong[OF assms(2)]
  by (cases "unat (pt_chunk_idx u) = i") (auto simp: delivered_def grows_def)

lemma delivered_io:
  assumes inv: "honest_inv content bs p" and ap: "apart content bs (length (pl_assemblers p))"
    and w: "w < length (io_workers (pl_io p))" "w < length (io_queues (pl_io p))" and st: "io_step cs w p = Some p'"
    and d: "delivered p u"
  shows "delivered p' u"
proof (cases "io_workers (pl_io p) ! w")
  case (Io_piece t k)
  then have m: "Io_piece t k \<in> set (io_workers (pl_io p))" using nth_mem[OF w(1)] by simp
  have i: "unat (pt_chunk_idx t) < length (pl_assemblers p)" and ok: "call_ok content (pl_assemblers p) (pl_mem p) t k"
    using inv m by (auto simp: honest_inv_def honest_task_def)
  show ?thesis
  proof (cases "\<exists>r. pc_at k = Returned r")
    case True
    then have s: "slot_of (pl_assemblers p ! unat (pt_chunk_idx t)) (pt_begin t) \<in> done_slots (pl_assemblers p ! unat (pt_chunk_idx t))"
      using ok by (auto simp: call_ok_def Let_def)
    have v: "delivered (p\<lparr>pl_verify := v\<rparr>) u" for v using d by (simp add: delivered_def)
    have "delivered (io_set w Io_poll (p\<lparr>pl_verify := v\<rparr>)) u" for v
    proof (rule delivered_set[OF v])
      fix k' assume "io_workers (pl_io (p\<lparr>pl_verify := v\<rparr>)) ! w = Io_piece u k'"
      then have "t = u" using Io_piece by simp
      then show "delivered (io_set w Io_poll (p\<lparr>pl_verify := v\<rparr>)) u" using s by (simp add: delivered_def)
    qed
    from this this[of "pl_verify p"] have "delivered (io_set w Io_poll p) u" "\<And>v. delivered (io_set w Io_poll (p\<lparr>pl_verify := v\<rparr>)) u"
      by simp_all
    then show ?thesis using st Io_piece i True by (auto simp: io_step_def io_piece_step_def Let_def split: if_splits)
  next
    case False
    then obtain a' m' k' where c: "call_step (pl_assemblers p ! unat (pt_chunk_idx t)) (pl_mem p) k = Some (a', m', k')"
        "grows (pl_assemblers p ! unat (pt_chunk_idx t)) a'"
      using honest_call[OF inv ap m] by metis
    let ?p = "p\<lparr>pl_assemblers := (pl_assemblers p)[unat (pt_chunk_idx t) := a'], pl_mem := m'\<rparr>"
    have "delivered (io_set w (Io_piece t k') ?p) u"
    proof (rule delivered_set[OF delivered_grow[OF d c(2) i]])
      fix k2 assume "io_workers (pl_io ?p) ! w = Io_piece u k2"
      then have "Io_piece u k' \<in> set ((io_workers (pl_io p))[w := Io_piece t k'])"
        using Io_piece set_update_memI[OF w(1)] by simp
      then show "delivered (io_set w (Io_piece t k') ?p) u" unfolding delivered_def by auto
    qed
    then show ?thesis using st Io_piece i False c(1)
      by (cases "pc_at k") (auto simp: io_step_def io_piece_step_def Let_def)
  qed
next
  case Io_poll
  show ?thesis
  proof (cases "io_queues (pl_io p) ! w")
    case Nil
    then have "p' = io_set w Io_test p" using st Io_poll by (simp add: io_step_def io_poll_def)
    then show ?thesis using delivered_set[OF d, of w Io_test] Io_poll by simp
  next
    case (Cons t q)
    let ?qs = "(io_queues (pl_io p))[w := q]"
    have q: "(\<exists>r \<in> set ?qs. x \<in> set r) \<or> x = t" if "r \<in> set (io_queues (pl_io p))" "x \<in> set r" for r x
    proof (cases "r = io_queues (pl_io p) ! w")
      case True
      then show ?thesis using that(2) Cons set_update_memI[OF w(2), of q] by auto
    next
      case False
      then have "r \<in> set ?qs" using kept_in_update[OF that(1)] by simp
      then show ?thesis using that(2) by blast
    qed
    let ?y = "Io_piece t (call_of (pt_begin t) (pt_data t))"
    have p': "io_queues (pl_io p') = ?qs" "io_workers (pl_io p') = (io_workers (pl_io p))[w := ?y]" "pl_assemblers p' = pl_assemblers p"
      using st Io_poll Cons by (auto simp: io_step_def io_poll_def)
    have 1: "?y \<in> set (io_workers (pl_io p'))" unfolding p' by (rule set_update_memI[OF w(1)])
    have 2: "Io_piece u k \<in> set (io_workers (pl_io p'))" if "Io_piece u k \<in> set (io_workers (pl_io p))" for k
      unfolding p' by (rule kept_in_update[OF that]) (use Io_poll in simp)
    show ?thesis
      using d unfolding delivered_def p'(1,3)
    proof (elim disjE bexE exE)
      fix r assume "r \<in> set (io_queues (pl_io p))" "u \<in> set r"
      then have "(\<exists>r \<in> set ?qs. u \<in> set r) \<or> u = t" by (rule q)
      then show "(\<exists>q \<in> set ?qs. u \<in> set q) \<or> (\<exists>k. Io_piece u k \<in> set (io_workers (pl_io p')))
          \<or> slot_of (pl_assemblers p ! unat (pt_chunk_idx u)) (pt_begin u) \<in> done_slots (pl_assemblers p ! unat (pt_chunk_idx u))"
        using 1 by metis
    qed (use 2 in blast)+
  qed
next
  case Io_test
  then have "p' = io_set w (if io_running (pl_io p) then Io_poll else Io_exited) p" using st by (simp add: io_step_def)
  then show ?thesis using delivered_set[OF d, of w] Io_test by simp
qed (use st d in \<open>simp add: io_step_def\<close>)

lemma delivered_dispatch:
  assumes "pool_ok (pl_io p)"
  obtains io where "io_dispatch t (pl_io p) = Some io" "pool_ok io" "delivered (p\<lparr>pl_io := io\<rparr>) t"
    "\<And>u. delivered p u \<Longrightarrow> delivered (p\<lparr>pl_io := io\<rparr>) u"
proof -
  define w where "w = unat (io_route (io_num_workers (pl_io p)) t)"
  define io where "io = (pl_io p)\<lparr>io_queues := (io_queues (pl_io p))[w := io_queues (pl_io p) ! w @ [t]]\<rparr>"
  have "w < unat (io_num_workers (pl_io p))"
    using assms by (auto simp: w_def io_route_def pool_ok_def unat_mod unat_gt_0)
  then have w: "w < length (io_queues (pl_io p))" using assms by (simp add: pool_ok_def)
  then have 1: "io_dispatch t (pl_io p) = Some io" "pool_ok io"
    using assms by (auto simp: io_dispatch_def Let_def io_def pool_ok_def simp flip: w_def)
  have m: "io_queues (pl_io p) ! w @ [t] \<in> set (io_queues io)"
    using set_update_memI[OF w] by (simp add: io_def)
  have "\<exists>r' \<in> set (io_queues io). set r \<subseteq> set r'" if "r \<in> set (io_queues (pl_io p))" for r
  proof (cases "r = io_queues (pl_io p) ! w")
    case True
    then show ?thesis by (intro bexI[OF _ m]) auto
  next
    case False
    then have "r \<in> set (io_queues io)" using kept_in_update[OF that] by (simp add: io_def)
    then show ?thesis by blast
  qed
  then have "delivered (p\<lparr>pl_io := io\<rparr>) u" if "delivered p u" for u
    using that by (fastforce simp: delivered_def io_def)
  moreover have "delivered (p\<lparr>pl_io := io\<rparr>) t"
    using bexI[OF _ m, of "\<lambda>q. t \<in> set q"] by (simp add: delivered_def)
  ultimately show thesis using that 1 by blast
qed

lemma pool_io: "io_step cs w p = Some p' \<Longrightarrow> pool_ok (pl_io p) \<Longrightarrow> pool_ok (pl_io p')"
  by (auto simp: io_step_def io_poll_def io_piece_step_def Let_def pool_ok_def
      split: io_worker.splits if_splits list.splits piece_pc.splits)

section \<open>Runs\<close>

text \<open>What a task sets up: an assembler per chunk at its address, addresses apart, and a seed whose
  digests are those of the contents.\<close>

definition honest_setup ::
    "(bytes \<Rightarrow> bytes option) \<Rightarrow> ChunkEntry list \<Rightarrow> (nat \<Rightarrow> bytes) \<Rightarrow> (nat \<Rightarrow> nat) \<Rightarrow> ChunkAssembler list \<Rightarrow> bool" where
  "honest_setup evp cs content bs asms \<longleftrightarrow> length asms = length cs \<and> length cs < 2 ^ 32 \<and> apart content bs (length cs)
     \<and> (\<forall>i < length cs. assembler_init (Some (bs i)) (ce_length (cs ! i)) SUB_BLOCK_SIZE = Some (asms ! i)
          \<and> 0 < length (content i) \<and> length (content i) = unat (ce_length (cs ! i)) \<and> length (content i) \<le> 2 ^ 20
          \<and> evp (content i) = Some (ce_sha256 (cs ! i)))"

definition all_honest :: "(nat \<Rightarrow> bytes) \<Rightarrow> ChunkAssembler list \<Rightarrow> pipe_op list \<Rightarrow> bool" where
  "all_honest content asms ops \<longleftrightarrow> (\<forall>t. P_dispatch t \<in> set ops \<longrightarrow> honest_task content asms t)"

definition shape :: "ChunkAssembler \<Rightarrow> nat option \<times> u32 \<times> u32 \<times> u32" where
  "shape a = (base a, chunk_size a, sub_block_size a, total_slots a)"

definition full_inv :: "(nat \<Rightarrow> bytes) \<Rightarrow> (nat \<Rightarrow> nat) \<Rightarrow> ChunkAssembler list \<Rightarrow> pipe_op list \<Rightarrow> pipeline \<Rightarrow> VerifyResult list \<Rightarrow> bool" where
  "full_inv content bs asms ops p rs \<longleftrightarrow> honest_inv content bs p \<and> pool_ok (pl_io p)
     \<and> map shape (pl_assemblers p) = map shape asms
     \<and> (\<forall>t. P_dispatch t \<in> set ops \<longrightarrow> delivered p t)
     \<and> (\<forall>r \<in> set (vf_result_queue (pl_verify p)) \<union> set rs. vr_passed r)"

lemma fresh_of_setup: "honest_setup evp cs content bs asms \<Longrightarrow> fresh_assemblers cs asms"
  by (auto simp: honest_setup_def fresh_assemblers_def)

lemma setup_assembler:
  assumes "honest_setup evp cs content bs asms" "i < length cs"
  shows "asm_geom (asms ! i)" "done_slots (asms ! i) = {}" "base (asms ! i) = Some (bs i)"
    "unat (chunk_size (asms ! i)) = length (content i)" "0 < unat (total_slots (asms ! i))"
proof -
  have len: "length (content i) = unat (ce_length (cs ! i))" "0 < length (content i)" "length (content i) \<le> 2 ^ 20"
    and init: "assembler_init (Some (bs i)) (ce_length (cs ! i)) SUB_BLOCK_SIZE = Some (asms ! i)"
    using assms unfolding honest_setup_def by blast+
  obtain a where a: "assembler_init (Some (bs i)) (ce_length (cs ! i)) SUB_BLOCK_SIZE = Some a" "asm_inv a" "done_slots a = {}"
      "base a = Some (bs i)" "chunk_size a = ce_length (cs ! i)"
    using assembler_init_inv[of SUB_BLOCK_SIZE "ce_length (cs ! i)" "Some (bs i)"] len by (auto simp: SUB_BLOCK_SIZE_def)
  then have e: "asms ! i = a" using init by simp
  show "asm_geom (asms ! i)" "done_slots (asms ! i) = {}" "base (asms ! i) = Some (bs i)"
      "unat (chunk_size (asms ! i)) = length (content i)"
    using a len by (simp_all add: e asm_inv_def)
  have "0 div unat (sub_block_size a) < (unat (chunk_size a) + unat (sub_block_size a) - 1) div unat (sub_block_size a)"
    using a(2,5) len by (intro ceil_div_gt) (auto simp: asm_inv_def asm_geom_def)
  then show "0 < unat (total_slots (asms ! i))" using a(2) by (simp add: e asm_inv_def asm_geom_def)
qed

lemma call_step_shape: "call_step a m k = Some (a', m', k') \<Longrightarrow> shape a' = shape a"
  by (auto simp: shape_def call_step_def pending_fetch_sub_def Let_def split: piece_pc.splits if_splits prod.splits)

lemma io_step_same_shape:
  assumes "io_step cs w p = Some p'"
  shows "map shape (pl_assemblers p') = map shape (pl_assemblers p)"
proof (cases "io_workers (pl_io p) ! w")
  case (Io_piece t k)
  show ?thesis
  proof (cases "\<exists>r. pc_at k = Returned r")
    case True
    then show ?thesis using assms Io_piece by (auto simp: io_step_def io_piece_step_def Let_def split: if_splits)
  next
    case False
    then obtain a m k' where "call_step (pl_assemblers p ! unat (pt_chunk_idx t)) (pl_mem p) k = Some (a, m, k')"
        "pl_assemblers p' = (pl_assemblers p)[unat (pt_chunk_idx t) := a]"
      using assms Io_piece by (cases "pc_at k") (auto simp: io_step_def io_piece_step_def Let_def split: if_splits)
    then show ?thesis using call_step_shape by (simp add: map_update_same)
  qed
qed (use assms in \<open>auto simp: io_step_def io_poll_def split: list.splits\<close>)

lemma shape_nth:
  assumes "map shape xs = map shape ys" "i < length ys"
  shows "shape (xs ! i) = shape (ys ! i)"
proof -
  have "length xs = length ys" using assms(1) by (rule map_eq_imp_length_eq)
  then show ?thesis using assms by (metis nth_map)
qed

lemma honest_task_shape:
  assumes "map shape xs = map shape ys"
  shows "honest_task content xs t = honest_task content ys t"
proof -
  have l: "length xs = length ys" using assms by (rule map_eq_imp_length_eq)
  have "genuine_piece (xs ! i) = genuine_piece (ys ! i)" if "i < length ys" for i
    using shape_nth[OF assms that] by (simp add: fun_eq_iff genuine_piece_def shape_def)
  then show ?thesis using l by (auto simp: honest_task_def)
qed

text \<open>A chunk whose completion is anywhere in the pipeline is in memory.\<close>

lemma completed_in_memory:
  assumes "pipe_inv p rs" "honest_inv content bs p" "unat c < length (pl_assemblers p)" "0 < completions c p rs"
  shows "read_mem (pl_mem p) (bs (unat c)) (unat (chunk_size (pl_assemblers p ! unat c))) = content (unat c)"
proof -
  have ok: "chunk_ok content bs (pl_mem p) (unat c) (pl_assemblers p ! unat c)"
    using assms(2,3) by (simp add: honest_inv_def)
  moreover have "tally (pl_assemblers p ! unat c) (pieces_at c At_count p) (completions c p rs)"
    using assms(1,3) by (simp add: pipe_inv_def)
  ultimately show ?thesis
    using complete_in_memory complete_all_done assms(4) by (auto simp: chunk_ok_def)
qed

lemma hash_passes:
  assumes "pipe_inv p rs" "honest_inv content bs p" "task_ok cs (pl_assemblers p) t" "Vf_hash t \<in> set (vf_workers (pl_verify p))"
    and "evp (content (unat (vt_chunk_idx t))) = Some (ce_sha256 (cs ! unat (vt_chunk_idx t)))"
  obtains r where "verify_chunk evp (pl_mem p) t = Some r" "vr_passed r"
proof -
  let ?i = "unat (vt_chunk_idx t)"
  have i: "?i < length (pl_assemblers p)" "vt_data t = base (pl_assemblers p ! ?i)"
      "vt_length t = chunk_size (pl_assemblers p ! ?i)" "vt_expected_hash t = ce_sha256 (cs ! ?i)"
    using assms(3) by (auto simp: task_ok_def Let_def)
  have "Vf_hash t \<in> set (filter (hashing (vt_chunk_idx t)) (vf_workers (pl_verify p)))" using assms(4) by simp
  then have "0 < count_if (hashing (vt_chunk_idx t)) (vf_workers (pl_verify p))" by (rule length_pos_if_in_set)
  then have "read_mem (pl_mem p) (bs ?i) (unat (vt_length t)) = content ?i"
    using completed_in_memory[OF assms(1,2) i(1)] by (simp add: completions_def in_verify_def i(3))
  moreover have "vt_data t = Some (bs ?i)" using assms(2) i(1,2) by (simp add: honest_inv_def chunk_ok_def)
  ultimately show thesis using that assms(5) by (simp add: verify_chunk_def sha256_def i(4))
qed

fun enabled :: "(nat \<Rightarrow> bytes) \<Rightarrow> pipe_op \<Rightarrow> pipeline \<Rightarrow> bool" where
  "enabled content (P_dispatch t) p \<longleftrightarrow> honest_task content (pl_assemblers p) t"
| "enabled content (P_io w) p \<longleftrightarrow> w < length (io_workers (pl_io p))"
| "enabled content (P_verify w pick) p \<longleftrightarrow> w < length (vf_workers (pl_verify p))"
| "enabled content P_drain p \<longleftrightarrow> True"

definition good_run ::
    "(bytes \<Rightarrow> bytes option) \<Rightarrow> ChunkEntry list \<Rightarrow> (nat \<Rightarrow> bytes) \<Rightarrow> (nat \<Rightarrow> nat) \<Rightarrow> ChunkAssembler list \<Rightarrow> pipeline \<Rightarrow> VerifyResult list \<Rightarrow> bool" where
  "good_run evp cs content bs asms p rs \<longleftrightarrow> pipe_inv p rs \<and> honest_inv content bs p \<and> pool_ok (pl_io p)
     \<and> length (pl_assemblers p) = length cs \<and> apart content bs (length cs)
     \<and> (\<forall>t \<in> set (vf_task_queue (pl_verify p)) \<union> hashing_tasks (pl_verify p). task_ok cs (pl_assemblers p) t)
     \<and> (\<forall>i < length cs. evp (content i) = Some (ce_sha256 (cs ! i)))"

lemma good_passes:
  assumes g: "good_run evp cs content bs asms p rs" and m: "Vf_hash t \<in> set (vf_workers (pl_verify p))"
  shows "\<exists>r. verify_chunk evp (pl_mem p) t = Some r \<and> vr_passed r"
proof -
  have ok: "task_ok cs (pl_assemblers p) t" using g m by (auto simp: good_run_def hashing_tasks_def)
  then have "evp (content (unat (vt_chunk_idx t))) = Some (ce_sha256 (cs ! unat (vt_chunk_idx t)))"
    using g by (auto simp: good_run_def task_ok_def Let_def)
  moreover have "pipe_inv p rs" "honest_inv content bs p" using g by (simp_all add: good_run_def)
  ultimately show ?thesis using hash_passes[OF _ _ ok m] by metis
qed

lemma progress_io:
  assumes g: "good_run evp cs content bs asms p rs" and w: "w < length (io_workers (pl_io p))"
  shows "io_step cs w p \<noteq> None"
proof (cases "io_workers (pl_io p) ! w")
  case (Io_piece t k)
  then have m: "Io_piece t k \<in> set (io_workers (pl_io p))" using nth_mem[OF w] by simp
  have inv: "honest_inv content bs p" "apart content bs (length (pl_assemblers p))" using g by (simp_all add: good_run_def)
  have i: "unat (pt_chunk_idx t) < length (pl_assemblers p)" "unat (pt_chunk_idx t) < length cs"
    using inv m g by (auto simp: honest_inv_def honest_task_def good_run_def)
  show ?thesis
  proof (cases "\<exists>r. pc_at k = Returned r")
    case True
    then show ?thesis using Io_piece i by (auto simp: io_step_def io_piece_step_def verify_enqueue_def Let_def)
  next
    case False
    then obtain a' m' k' where "call_step (pl_assemblers p ! unat (pt_chunk_idx t)) (pl_mem p) k = Some (a', m', k')"
      using honest_call[OF inv m] by metis
    then show ?thesis using Io_piece i False by (cases "pc_at k") (auto simp: io_step_def io_piece_step_def Let_def)
  qed
qed (auto simp: io_step_def)

lemma progress:
  assumes g: "good_run evp cs content bs asms p rs" and op: "enabled content op p"
  shows "exec_pipe evp cs op p \<noteq> None"
proof (cases op)
  case (P_dispatch t)
  have "pool_ok (pl_io p)" using g by (simp add: good_run_def)
  then obtain io where "io_dispatch t (pl_io p) = Some io" using delivered_dispatch[of p t] by metis
  then show ?thesis using P_dispatch by simp
next
  case (P_io w)
  then show ?thesis using progress_io[OF g] op by simp
next
  case (P_verify w pick)
  then have w: "w < length (vf_workers (pl_verify p))" using op by simp
  show ?thesis
  proof (cases "vf_workers (pl_verify p) ! w")
    case (Vf_hash t)
    then have m: "Vf_hash t \<in> set (vf_workers (pl_verify p))" using nth_mem[OF w] by simp
    then obtain r where "verify_chunk evp (pl_mem p) t = Some r" using good_passes[OF g] by blast
    then show ?thesis using P_verify w Vf_hash by (simp add: verify_step_def)
  qed (use P_verify w in \<open>auto simp: verify_step_def Let_def\<close>)
qed (simp add: drain_results_def)

lemma enqueue_results: "verify_enqueue cs asms idx slot v = Some v' \<Longrightarrow> vf_result_queue v' = vf_result_queue v"
  by (auto simp: verify_enqueue_def Let_def split: if_splits)

lemma full_exec:
  assumes g: "good_run evp cs content bs asms p rs" and inv: "full_inv content bs asms ops p rs"
    and op: "\<And>t. op = P_dispatch t \<Longrightarrow> honest_task content asms t" and st: "exec_pipe evp cs op p = Some (p', rs')"
  shows "full_inv content bs asms (ops @ [op]) p' (rs @ rs')"
proof -
  have h: "honest_inv content bs p" "apart content bs (length (pl_assemblers p))" "pool_ok (pl_io p)"
    and sh: "map shape (pl_assemblers p) = map shape asms"
    using g inv by (simp_all add: good_run_def full_inv_def)
  show ?thesis
  proof (cases op)
    case (P_dispatch t)
    then have t: "honest_task content (pl_assemblers p) t" using op honest_task_shape[OF sh] by simp
    obtain io where io: "io_dispatch t (pl_io p) = Some io" "pool_ok io" "delivered (p\<lparr>pl_io := io\<rparr>) t"
        "\<And>u. delivered p u \<Longrightarrow> delivered (p\<lparr>pl_io := io\<rparr>) u"
      using delivered_dispatch[OF h(3)] by metis
    then show ?thesis using P_dispatch st inv honest_dispatch[OF h(1) t io(1)] by (auto simp: full_inv_def)
  next
    case (P_io w)
    then have s: "io_step cs w p = Some p'" "w < length (io_workers (pl_io p))" "rs' = []" using st by (auto split: if_splits)
    then have q: "w < length (io_queues (pl_io p))" using h(3) by (simp add: pool_ok_def)
    have "vf_result_queue (pl_verify p') = vf_result_queue (pl_verify p)"
      using io_step_shape[OF s(1,2)] enqueue_results by metis
    then show ?thesis
      using P_io inv s(3) honest_io[OF h(1,2) s(2) q s(1)] pool_io[OF s(1) h(3)] io_step_same_shape[OF s(1)]
        delivered_io[OF h(1,2) s(2) q s(1)]
      by (simp add: full_inv_def)
  next
    case (P_verify w pick)
    then obtain v where s: "verify_step evp (pl_mem p) w pick (pl_verify p) = Some v" "w < length (vf_workers (pl_verify p))"
        "rs' = []" "p' = p\<lparr>pl_verify := v\<rparr>"
      using st by (auto split: if_splits)
    have "\<forall>r \<in> set (vf_result_queue v). vr_passed r"
    proof (cases "vf_workers (pl_verify p) ! w")
      case (Vf_hash t)
      then have m: "Vf_hash t \<in> set (vf_workers (pl_verify p))" using nth_mem[OF s(2)] by simp
      then obtain r where "verify_chunk evp (pl_mem p) t = Some r" "vr_passed r" using good_passes[OF g] by blast
      then show ?thesis using s(1) Vf_hash inv by (auto simp: verify_step_def full_inv_def)
    qed (use s(1) inv in \<open>auto simp: verify_step_def full_inv_def Let_def split: if_splits\<close>)
    then show ?thesis using P_verify inv s(3,4) by (auto simp: full_inv_def)
  next
    case P_drain
    then show ?thesis using st inv by (auto simp: full_inv_def drain_results_def)
  qed
qed

lemma start_full:
  assumes "honest_setup evp cs content bs asms" "0 < n"
  shows "full_inv content bs asms [] (start_pipeline n cores asms m) []"
proof -
  have "chunk_ok content bs m i (asms ! i)" if "i < length cs" for i
    using setup_assembler[OF assms(1) that] by (simp add: chunk_ok_def)
  then show ?thesis using assms
    by (auto simp: full_inv_def honest_inv_def pool_ok_def start_pipeline_def io_start_def verify_start_def Let_def honest_setup_def)
qed

lemma good_of_full:
  assumes su: "honest_setup evp cs content bs asms" and run: "pipe_run evp cs (start_pipeline n cores asms m) ops p rs"
    and full: "full_inv content bs asms ops p rs"
  shows "good_run evp cs content bs asms p rs"
proof -
  have "trace_inv evp cs (start_pipeline n cores asms m) ops p rs"
    by (rule trace_run[OF run]) (auto simp: start_pipeline_def verify_start_def hashing_tasks_def Let_def)
  moreover have "pipe_inv p rs" using inv_pipe_run[OF run start_inv[OF fresh_of_setup[OF su]]] .
  moreover have "length (pl_assemblers p) = length asms"
    using full map_eq_imp_length_eq by (auto simp: full_inv_def)
  ultimately show ?thesis using su full by (auto simp: good_run_def full_inv_def trace_inv_def honest_setup_def)
qed

lemma full_run:
  assumes run: "pipe_run evp cs (start_pipeline n cores asms m) ops p rs"
    and su: "honest_setup evp cs content bs asms" "0 < n" and h: "all_honest content asms ops"
  shows "full_inv content bs asms ops p rs"
  using run h
proof (induction rule: pipe_run.induct)
  case pipe_start
  show ?case by (rule start_full[OF su])
next
  case (pipe_step ops p rs op p' rs')
  then have f: "full_inv content bs asms ops p rs" by (simp add: all_honest_def)
  show ?case
    by (rule full_exec[OF good_of_full[OF su(1) pipe_step.hyps(1) f] f _ pipe_step.hyps(2)])
      (use pipe_step.prems in \<open>simp add: all_honest_def\<close>)
qed

section \<open>Honest downloads\<close>

definition idle :: "pipeline \<Rightarrow> bool" where
  "idle p \<longleftrightarrow> (\<forall>q \<in> set (io_queues (pl_io p)). q = []) \<and> (\<forall>w \<in> set (io_workers (pl_io p)). w = Io_test \<or> w = Io_poll)
     \<and> vf_task_queue (pl_verify p) = [] \<and> (\<forall>w \<in> set (vf_workers (pl_verify p)). w = Vf_test \<or> w = Vf_poll)"

definition fully_sent :: "ChunkAssembler list \<Rightarrow> pipe_op list \<Rightarrow> nat \<Rightarrow> bool" where
  "fully_sent asms ops i \<longleftrightarrow> (\<forall>s < unat (total_slots (asms ! i)). \<exists>t. P_dispatch t \<in> set ops \<and> unat (pt_chunk_idx t) = i
     \<and> slot_of (asms ! i) (pt_begin t) = s)"

lemma idle_complete:
  assumes g: "good_run evp cs content bs asms p rs" and full: "full_inv content bs asms ops p rs"
    and "idle p" "i < length cs" "fully_sent asms ops i" "0 < unat (total_slots (asms ! i))"
  shows "\<exists>r \<in> set (vf_result_queue (pl_verify p)) \<union> set rs. unat (vr_chunk_idx r) = i"
proof -
  let ?a = "pl_assemblers p ! i"
  have l: "length (pl_assemblers p) = length cs" and pinv: "pipe_inv p rs" and hinv: "honest_inv content bs p"
    using g by (simp_all add: good_run_def)
  have "length cs < 2 ^ 32" using pinv l by (simp add: pipe_inv_def)
  then have i32: "i < 2 ^ 32" using assms(4) by linarith
  have geom: "asm_geom ?a" using hinv assms(4) l by (simp add: honest_inv_def chunk_ok_def)
  have "map shape (pl_assemblers p) = map shape asms" using full by (simp add: full_inv_def)
  then have len: "length asms = length cs" using l map_eq_imp_length_eq by fastforce
  define c :: u32 where "c = of_nat i"
  have c: "unat c = i" using i32 by (simp add: c_def unat_of_nat_u32)
  have sh: "shape ?a = shape (asms ! i)" using full assms(4) len by (intro shape_nth) (simp_all add: full_inv_def)
  have "s \<in> done_slots ?a" if "s < unat (total_slots ?a)" for s
  proof -
    have "s < unat (total_slots (asms ! i))" using that sh by (simp add: shape_def)
    then obtain t where t: "P_dispatch t \<in> set ops" "unat (pt_chunk_idx t) = i" "slot_of (asms ! i) (pt_begin t) = s"
      using assms(5) unfolding fully_sent_def by blast
    moreover have "slot_of ?a (pt_begin t) = slot_of (asms ! i) (pt_begin t)" using sh by (simp add: shape_def slot_of_def)
    moreover have "delivered p t" using full t(1) by (simp add: full_inv_def)
    ultimately show ?thesis using assms(3) by (fastforce simp: delivered_def idle_def)
  qed
  then have all: "done_slots ?a = {..<unat (total_slots ?a)}" using asm_geom_bounded[OF geom] by blast
  have none: "pieces_at c q p = 0" for q using assms(3) by (fastforce simp: idle_def filter_empty_conv)
  have "tally ?a (pieces_at c At_count p) (completions c p rs)" using pinv assms(4) l c by (auto simp: pipe_inv_def)
  then have "completions c p rs = 1"
    using none[of At_count] all assms(6) sh by (auto simp: tally_def done_slots_def shape_def)
  moreover have "count_if (\<lambda>t. vt_chunk_idx t = c) (vf_task_queue (pl_verify p)) = 0"
      "count_if (hashing c) (vf_workers (pl_verify p)) = 0"
    using assms(3) by (fastforce simp: idle_def filter_empty_conv)+
  ultimately have "count_if (\<lambda>r. vr_chunk_idx r = c) (vf_result_queue (pl_verify p) @ rs) = 1"
    using none by (simp add: completions_def in_verify_def)
  then have "filter (\<lambda>r. vr_chunk_idx r = c) (vf_result_queue (pl_verify p) @ rs) \<noteq> []" by fastforce
  then show ?thesis unfolding filter_empty_conv using c by auto
qed

text \<open>Honest peers, correct download. When every dispatched piece is a whole sub-block of its chunk, then
  under every interleaving of the network thread, the I/O workers and the verification workers: no
  step is undefined; every verification passes, and the chunk is then in memory byte for byte; and
  when the pools have come to rest, every chunk all of whose sub-blocks were sent has its result.\<close>

lemma honest_download:
  assumes su: "honest_setup evp cs content bs asms" "0 < n"
    and run: "pipe_run evp cs (start_pipeline n cores asms m) ops p rs" and h: "all_honest content asms ops"
  shows "(\<forall>op. enabled content op p \<longrightarrow> exec_pipe evp cs op p \<noteq> None)
     \<and> (\<forall>r \<in> set (vf_result_queue (pl_verify p)) \<union> set rs. vr_passed r
          \<and> (let i = unat (vr_chunk_idx r) in read_mem (pl_mem p) (bs i) (length (content i)) = content i))
     \<and> (\<forall>i < length cs. idle p \<and> fully_sent asms ops i \<longrightarrow>
          (\<exists>r \<in> set (vf_result_queue (pl_verify p)) \<union> set rs. unat (vr_chunk_idx r) = i))"
proof -
  have full: "full_inv content bs asms ops p rs" by (rule full_run[OF run su h])
  have g: "good_run evp cs content bs asms p rs" by (rule good_of_full[OF su(1) run full])
  have pinv: "pipe_inv p rs" "honest_inv content bs p" using g by (simp_all add: good_run_def)
  have t: "trace_inv evp cs (start_pipeline n cores asms m) ops p rs"
    by (rule trace_run[OF run]) (auto simp: start_pipeline_def verify_start_def hashing_tasks_def Let_def)
  have "read_mem (pl_mem p) (bs (unat (vr_chunk_idx r))) (length (content (unat (vr_chunk_idx r)))) = content (unat (vr_chunk_idx r))"
    if r: "r \<in> set (vf_result_queue (pl_verify p)) \<union> set rs" for r
  proof -
    let ?c = "vr_chunk_idx r"
    have i: "unat ?c < length (pl_assemblers p)" using t r by (auto simp: trace_inv_def)
    have "r \<in> set (filter (\<lambda>r. vr_chunk_idx r = ?c) (vf_result_queue (pl_verify p) @ rs))" using r by auto
    then have "0 < count_if (\<lambda>r. vr_chunk_idx r = ?c) (vf_result_queue (pl_verify p) @ rs)" by (rule length_pos_if_in_set)
    then have "0 < completions ?c p rs" by (auto simp: completions_def in_verify_def)
    then have "read_mem (pl_mem p) (bs (unat ?c)) (unat (chunk_size (pl_assemblers p ! unat ?c))) = content (unat ?c)"
      using completed_in_memory[OF _ _ i] pinv by blast
    moreover have "length (content (unat ?c)) = unat (chunk_size (pl_assemblers p ! unat ?c))"
      using g i by (auto simp: good_run_def honest_inv_def chunk_ok_def)
    ultimately show ?thesis by simp
  qed
  then show ?thesis
    using progress[OF g] full idle_complete[OF g full] setup_assembler(5)[OF su(1)] by (simp add: full_inv_def Let_def)
qed

definition example_cs :: "ChunkEntry list" where
  "example_cs = [\<lparr>ce_offset = 0, ce_length = 3, ce_sha256 = [7]\<rparr>]"

definition example_asms :: "ChunkAssembler list" where
  "example_asms = [the (assembler_init (Some 100) 3 SUB_BLOCK_SIZE)]"

definition example_piece :: PieceTask where
  "example_piece = \<lparr>pt_chunk_idx = 0, pt_begin = 0, pt_peer_slot = 4, pt_data = [1, 2, 3]\<rparr>"

definition example_ops :: "pipe_op list" where
  "example_ops = P_dispatch example_piece # replicate 7 (P_io 0) @ [P_verify 1 0, P_verify 1 0, P_verify 1 0, P_drain]"

lemma example_setup: "honest_setup (\<lambda>_. Some [7]) example_cs (\<lambda>_. [1, 2, 3]) (\<lambda>_. 100) example_asms"
  by (simp add: honest_setup_def example_cs_def example_asms_def apart_def assembler_init_def SUB_BLOCK_SIZE_def Let_def)

lemma honest_download_example:
  "\<exists>p rs. run_pipe (\<lambda>_. Some [7]) example_cs example_ops (start_pipeline 1 8 example_asms (\<lambda>_. 0), []) = Some (p, rs)
     \<and> map vr_chunk_idx rs = [0] \<and> vr_passed (hd rs) \<and> read_mem (pl_mem p) 100 3 = [1, 2, 3]"
proof -
  define s where "s = run_pipe (\<lambda>_. Some [7]) example_cs example_ops (start_pipeline 1 8 example_asms (\<lambda>_. 0), [])"
  have v: "\<not> Option.is_none s" "map vr_chunk_idx (snd (the s)) = [0]" unfolding s_def by code_simp+
  then obtain p rs where s: "s = Some (p, rs)" by (cases s) auto
  then have rs: "map vr_chunk_idx rs = [0]" using v by simp
  have run: "pipe_run (\<lambda>_. Some [7]) example_cs (start_pipeline 1 8 example_asms (\<lambda>_. 0)) example_ops p rs"
    using run_pipe_run[OF s[unfolded s_def] pipe_start] by simp
  have hon: "all_honest (\<lambda>_. [1, 2, 3]) example_asms example_ops"
    by (auto simp: all_honest_def example_ops_def example_piece_def honest_task_def example_asms_def genuine_piece_def
        assembler_init_def SUB_BLOCK_SIZE_def Let_def)
  obtain r where r: "rs = [r]" "vr_chunk_idx r = 0" using rs by (cases rs) auto
  have "vr_passed r \<and> read_mem (pl_mem p) 100 3 = [1, 2, 3]"
    using honest_download[OF example_setup _ run hon] r by (auto simp: Let_def numeral_3_eq_3)
  then show ?thesis using s rs r unfolding s_def by simp
qed

text \<open>With other peers the last guarantee is lost: \<open>on_piece\<close> copies before it looks whether the slot is
  already done, so a late piece overwrites a chunk that has been verified and counted, and nothing
  verifies it again.\<close>

lemma late_piece_overwrites:
  "\<exists>p rs. run_pipe (\<lambda>bs. Some (map (\<lambda>b. b + 6) (take 1 bs))) example_cs
       (example_ops @ P_dispatch (example_piece\<lparr>pt_data := [9, 9, 9]\<rparr>) # replicate 5 (P_io 0))
       (start_pipeline 1 8 example_asms (\<lambda>_. 0), []) = Some (p, rs)
     \<and> map vr_passed rs = [True] \<and> vf_task_queue (pl_verify p) = [] \<and> read_mem (pl_mem p) 100 3 = [9, 9, 9]"
proof -
  let ?s = "run_pipe (\<lambda>bs. Some (map (\<lambda>b. b + 6) (take 1 bs))) example_cs
       (example_ops @ P_dispatch (example_piece\<lparr>pt_data := [9, 9, 9]\<rparr>) # replicate 5 (P_io 0))
       (start_pipeline 1 8 example_asms (\<lambda>_. 0), [])"
  have "\<not> Option.is_none ?s" "map vr_passed (snd (the ?s)) = [True]" "length (vf_task_queue (pl_verify (fst (the ?s)))) = 0"
      "read_mem (pl_mem (fst (the ?s))) 100 3 = [9, 9, 9]"
    by code_simp+
  then show ?thesis by (cases ?s) auto
qed

end
