(* ===== verification/Task_Runs.thy ===== *)
theory Task_Runs
  imports Task_Manager Honest_Runs
begin

text \<open>
  The life of one download: every interleaving of pieces arriving, workers moving, heartbeats,
  announcements and their outcomes, and everything that happens to the task's connections. The lemmas
  project such a run to a run of the task's pools and account for \<open>bytes_done\<close>: it is the sum of the
  lengths of the chunks whose verified result was drained, each chunk at most once. The properties are
  about tasks that \<open>cmd_add\<close> created on a fresh output file.
\<close>

section \<open>Runs of a task\<close>

datatype task_op =
    Tk_piece PieceTask
  | Tk_io nat
  | Tk_verify nat nat
  | Tk_tick
  | Tk_announce
  | Tk_attempt attempt
  | Tk_peers pm_op

definition on_pools :: "(bytes \<Rightarrow> bytes option) \<Rightarrow> pipe_op \<Rightarrow> ActiveTask \<Rightarrow> ActiveTask option" where
  "on_pools evp op t =
     map_option (\<lambda>(p, _). t\<lparr>at_pipeline := p\<rparr>) (exec_pipe evp (chunks (at_seed t)) op (at_pipeline t))"

fun exec_task ::
    "(bytes \<Rightarrow> bytes option) \<Rightarrow> (string \<Rightarrow> json option) \<Rightarrow> host \<times> TaskManager \<times> task_op \<Rightarrow> ActiveTask \<Rightarrow> ActiveTask option" where
  "exec_task evp yy (h, tm, Tk_piece task) t = on_pools evp (P_dispatch task) t"
| "exec_task evp yy (h, tm, Tk_io w) t = on_pools evp (P_io w) t"
| "exec_task evp yy (h, tm, Tk_verify w pick) t = on_pools evp (P_verify w pick) t"
| "exec_task evp yy (h, tm, Tk_tick) t = Some (snd (task_tick h tm t))"
| "exec_task evp yy (h, tm, Tk_announce) t = Some (snd (announce_task_now h tm t))"
| "exec_task evp yy (h, tm, Tk_attempt a) t = on_attempt h yy a t"
| "exec_task evp yy (h, tm, Tk_peers op) t =
     map_option (\<lambda>pm. t\<lparr>at_peer_mgr := deliver_events (pf_order (h_platform h)) (h_now h) pm\<rparr>)
       (exec_pm (h_platform h) (h_now h) op (at_peer_mgr t))"

inductive task_run ::
    "(bytes \<Rightarrow> bytes option) \<Rightarrow> (string \<Rightarrow> json option) \<Rightarrow> ActiveTask \<Rightarrow> (host \<times> TaskManager \<times> task_op) list \<Rightarrow> ActiveTask \<Rightarrow> bool"
  for evp yy t0 where
  task_start: "task_run evp yy t0 [] t0"
| task_step: "task_run evp yy t0 ops t \<Longrightarrow> exec_task evp yy op t = Some t' \<Longrightarrow> task_run evp yy t0 (ops @ [op]) t'"

fun pipe_part :: "task_op \<Rightarrow> pipe_op list" where
  "pipe_part (Tk_piece task) = [P_dispatch task]"
| "pipe_part (Tk_io w) = [P_io w]"
| "pipe_part (Tk_verify w pick) = [P_verify w pick]"
| "pipe_part Tk_tick = [P_drain]"
| "pipe_part _ = []"

definition pipe_ops :: "(host \<times> TaskManager \<times> task_op) list \<Rightarrow> pipe_op list" where
  "pipe_ops ops = concat (map (\<lambda>(h, tm, op). pipe_part op) ops)"

lemma pipe_ops_simps [simp]:
  "pipe_ops [] = []" "pipe_ops (ops @ [(h, tm, op)]) = pipe_ops ops @ pipe_part op"
  by (simp_all add: pipe_ops_def)

section \<open>What a heartbeat does to a task\<close>

definition counted :: "TSeedFile \<Rightarrow> VerifyResult \<Rightarrow> bool" where
  "counted seed r \<longleftrightarrow> vr_passed r \<and> vr_chunk_idx r < chunk_count (header seed)"

definition gain :: "TSeedFile \<Rightarrow> VerifyResult list \<Rightarrow> u64" where
  "gain seed rs = sum_list (map (\<lambda>r. ucast (ce_length (chunks seed ! unat (vr_chunk_idx r)))) (filter (counted seed) rs))"

lemma gain_append [simp]: "gain seed (rs @ rs') = gain seed rs + gain seed rs'"
  by (simp add: gain_def)

lemma results_bytes: "fst (snd (fold (on_result seed) rs (s, bytes, passed))) = bytes + gain seed rs"
  by (induction rs arbitrary: s bytes passed) (simp_all add: gain_def on_result_def counted_def)

lemma take_results_bytes:
  "at_bytes_done (take_results h t) = at_bytes_done t + gain (at_seed t) (vf_result_queue (pl_verify (at_pipeline t)))"
  by (simp add: take_results_def drain_results_def Let_def split: prod.split) (metis results_bytes fst_conv snd_conv)

lemma take_results_fields:
  "at_seed (take_results h t) = at_seed t" "at_state (take_results h t) = at_state t"
  "at_tracker_dead (take_results h t) = at_tracker_dead t"
  "at_pipeline (take_results h t) = (at_pipeline t)\<lparr>pl_verify := (pl_verify (at_pipeline t))\<lparr>vf_result_queue := []\<rparr>\<rparr>"
  by (simp_all add: take_results_def drain_results_def Let_def split: prod.split)

lemma announce_fields [simp]:
  "at_seed (snd (announce_task_now h tm t)) = at_seed t" "at_state (snd (announce_task_now h tm t)) = at_state t"
  "at_bytes_done (snd (announce_task_now h tm t)) = at_bytes_done t"
  "at_pipeline (snd (announce_task_now h tm t)) = at_pipeline t"
  by (simp_all add: announce_task_now_def Let_def)

lemma check_complete_fields:
  "at_seed (check_complete h t) = at_seed t" "at_bytes_done (check_complete h t) = at_bytes_done t"
  "at_pipeline (check_complete h t) = at_pipeline t" "at_tracker_dead (check_complete h t) = at_tracker_dead t"
  "at_state (check_complete h t) =
     (if at_bytes_done t \<ge> file_size (header (at_seed t)) \<and> at_state t = ''downloading'' then ''complete'' else at_state t)"
  by (simp_all add: check_complete_def Let_def)

lemma mark_waiting_fields:
  "at_seed (mark_waiting t) = at_seed t" "at_bytes_done (mark_waiting t) = at_bytes_done t"
  "at_pipeline (mark_waiting t) = at_pipeline t"
  "at_state (mark_waiting t) = (if at_tracker_dead t \<and> at_state t = ''downloading'' then ''waiting'' else at_state t)"
  by (simp_all add: mark_waiting_def)

lemma startup_fields:
  "at_seed (snd (startup_announce h tm t)) = at_seed t" "at_bytes_done (snd (startup_announce h tm t)) = at_bytes_done t"
  "at_pipeline (snd (startup_announce h tm t)) = at_pipeline t" "at_state (snd (startup_announce h tm t)) = at_state t"
  by (simp_all add: startup_announce_def)

lemmas tick_fields = take_results_bytes take_results_fields check_complete_fields mark_waiting_fields startup_fields

lemma task_tick_last:
  "snd (task_tick h tm t) =
     (let t' = snd (startup_announce h tm (mark_waiting (check_complete h (take_results h t)))) in
      if fst (task_tick h tm t) then update_speed t' else t')"
  by (simp add: task_tick_def Let_def split: prod.split)

text \<open>The state after a heartbeat is decided by the bytes counted and the tracker.\<close>

definition next_state :: "string \<Rightarrow> bool \<Rightarrow> bool \<Rightarrow> string" where
  "next_state st all_done dead =
     (if st \<noteq> ''downloading'' then st else if all_done then ''complete'' else if dead then ''waiting'' else st)"

lemma task_tick_fields:
  fixes h tm t defines "t' \<equiv> snd (task_tick h tm t)"
  defines "queue \<equiv> vf_result_queue (pl_verify (at_pipeline t))"
  shows "at_seed t' = at_seed t" "at_bytes_done t' = at_bytes_done t + gain (at_seed t) queue"
    "at_pipeline t' = (at_pipeline t)\<lparr>pl_verify := (pl_verify (at_pipeline t))\<lparr>vf_result_queue := []\<rparr>\<rparr>"
    "at_state t' = next_state (at_state t) (at_bytes_done t' \<ge> file_size (header (at_seed t))) (at_tracker_dead t)"
proof -
  let ?t1 = "snd (startup_announce h tm (mark_waiting (check_complete h (take_results h t))))"
  have f: "at_seed t' = at_seed ?t1" "at_bytes_done t' = at_bytes_done ?t1" "at_pipeline t' = at_pipeline ?t1" "at_state t' = at_state ?t1"
    by (simp_all add: t'_def task_tick_last Let_def update_speed_def)
  show "at_seed t' = at_seed t" "at_bytes_done t' = at_bytes_done t + gain (at_seed t) queue"
    "at_pipeline t' = (at_pipeline t)\<lparr>pl_verify := (pl_verify (at_pipeline t))\<lparr>vf_result_queue := []\<rparr>\<rparr>"
    by (simp_all add: f tick_fields queue_def)
  show "at_state t' = next_state (at_state t) (at_bytes_done t' \<ge> file_size (header (at_seed t))) (at_tracker_dead t)"
    by (simp add: f tick_fields queue_def next_state_def)
qed

section \<open>A run of the task is a run of its pools\<close>

definition state_step :: "ActiveTask \<Rightarrow> ActiveTask \<Rightarrow> bool" where
  "state_step t t' \<longleftrightarrow> at_state t' = at_state t \<or> at_state t = ''downloading'' \<and>
     (at_state t' = ''waiting'' \<or> at_state t' = ''complete'' \<and> at_bytes_done t' \<ge> file_size (header (at_seed t)))"

definition pools_step :: "(bytes \<Rightarrow> bytes option) \<Rightarrow> pipe_op list \<Rightarrow> ActiveTask \<Rightarrow> ActiveTask \<Rightarrow> bool" where
  "pools_step evp ops t t' \<longleftrightarrow> at_seed t' = at_seed t \<and> state_step t t' \<and>
     (ops = [] \<and> at_pipeline t' = at_pipeline t \<and> at_bytes_done t' = at_bytes_done t
      \<or> (\<exists>op rs. ops = [op] \<and> exec_pipe evp (chunks (at_seed t)) op (at_pipeline t) = Some (at_pipeline t', rs)
           \<and> at_bytes_done t' = at_bytes_done t + gain (at_seed t) rs))"

lemma on_tracker_events_fields:
  fixes h evs t defines "t' \<equiv> fold (on_tracker_event h) evs t"
  shows "at_seed t' = at_seed t" "at_state t' = at_state t" "at_pipeline t' = at_pipeline t" "at_bytes_done t' = at_bytes_done t"
proof -
  have "at_seed (on_tracker_event h ev t) = at_seed t \<and> at_state (on_tracker_event h ev t) = at_state t
      \<and> at_pipeline (on_tracker_event h ev t) = at_pipeline t \<and> at_bytes_done (on_tracker_event h ev t) = at_bytes_done t" for ev t
    by (cases ev) simp_all
  then have "at_seed (fold (on_tracker_event h) evs t) = at_seed t \<and> at_state (fold (on_tracker_event h) evs t) = at_state t
      \<and> at_pipeline (fold (on_tracker_event h) evs t) = at_pipeline t \<and> at_bytes_done (fold (on_tracker_event h) evs t) = at_bytes_done t"
    by (induction evs arbitrary: t) simp_all
  then show "at_seed t' = at_seed t" "at_state t' = at_state t" "at_pipeline t' = at_pipeline t" "at_bytes_done t' = at_bytes_done t"
    by (simp_all add: t'_def)
qed

lemma on_pools_step:
  assumes "on_pools evp op t = Some t'" "op \<noteq> P_drain"
  shows "pools_step evp [op] t t'"
proof -
  obtain p rs where x: "exec_pipe evp (chunks (at_seed t)) op (at_pipeline t) = Some (p, rs)" "t' = t\<lparr>at_pipeline := p\<rparr>"
    using assms(1) by (auto simp: on_pools_def)
  moreover have "rs = []" using x(1) assms(2) by (cases op) (auto split: if_splits)
  ultimately show ?thesis by (simp add: pools_step_def state_step_def gain_def)
qed

lemma exec_task_pools:
  assumes "exec_task evp yy (h, tm, op) t = Some t'"
  shows "pools_step evp (pipe_part op) t t'"
proof (cases op)
  case Tk_tick
  then have "t' = snd (task_tick h tm t)" using assms by simp
  then show ?thesis using Tk_tick
    by (simp add: pools_step_def task_tick_fields state_step_def next_state_def drain_results_def)
next
  case (Tk_attempt a)
  then show ?thesis using assms
    by (auto simp: on_attempt_def pools_step_def state_step_def on_tracker_events_fields split: option.splits)
next
  case (Tk_piece task)
  then show ?thesis using assms on_pools_step[of evp "P_dispatch task" t t'] by simp
next
  case (Tk_io w)
  then show ?thesis using assms on_pools_step[of evp "P_io w" t t'] by simp
next
  case (Tk_verify w pick)
  then show ?thesis using assms on_pools_step[of evp "P_verify w pick" t t'] by simp
qed (use assms in \<open>auto simp: pools_step_def state_step_def\<close>)

lemma task_run_pools:
  assumes "task_run evp yy t0 ops t"
  obtains rs where "at_seed t = at_seed t0" "at_bytes_done t = at_bytes_done t0 + gain (at_seed t0) rs"
    "pipe_run evp (chunks (at_seed t0)) (at_pipeline t0) (pipe_ops ops) (at_pipeline t) rs"
  using assms
proof (induction arbitrary: thesis rule: task_run.induct)
  case task_start
  show ?case by (rule task_start[of "[]"]) (simp_all add: gain_def pipe_start)
next
  case (task_step ops t op t')
  obtain h tm k where op: "op = (h, tm, k)" by (cases op)
  obtain rs where rs: "at_seed t = at_seed t0" "at_bytes_done t = at_bytes_done t0 + gain (at_seed t0) rs"
    "pipe_run evp (chunks (at_seed t0)) (at_pipeline t0) (pipe_ops ops) (at_pipeline t) rs"
    using task_step.IH .
  have st: "pools_step evp (pipe_part k) t t'" using task_step.hyps(2) exec_task_pools op by blast
  show ?case
  proof (cases "pipe_part k")
    case Nil
    then show ?thesis using st rs op task_step.prems[of rs] by (simp add: pools_step_def)
  next
    case (Cons q qs)
    then obtain rs' where "qs = []" "exec_pipe evp (chunks (at_seed t)) q (at_pipeline t) = Some (at_pipeline t', rs')"
        "at_bytes_done t' = at_bytes_done t + gain (at_seed t) rs'" "at_seed t' = at_seed t"
      using st by (auto simp: pools_step_def)
    then show ?thesis using rs op Cons pipe_step[OF rs(3)] by (intro task_step.prems[of "rs @ rs'"]) simp_all
  qed
qed

section \<open>What is counted\<close>

definition passed_set :: "VerifyResult list \<Rightarrow> nat set" where
  "passed_set rs = (\<lambda>r. unat (vr_chunk_idx r)) ` {r \<in> set rs. vr_passed r}"

definition chunk_len :: "TSeedFile \<Rightarrow> nat \<Rightarrow> nat" where
  "chunk_len seed i = unat (ce_length (chunks seed ! i))"

definition good_results :: "TSeedFile \<Rightarrow> VerifyResult list \<Rightarrow> bool" where
  "good_results seed rs \<longleftrightarrow> distinct (map vr_chunk_idx rs) \<and> (\<forall>r \<in> set rs. unat (vr_chunk_idx r) < length (chunks seed))"

definition whole_seed :: "TSeedFile \<Rightarrow> bool" where
  "whole_seed seed \<longleftrightarrow> length (chunks seed) = unat (chunk_count (header seed))
     \<and> tiled 0 (unat (file_size (header seed))) (chunks seed)"

lemma tiled_lengths: "tiled start stop cs \<Longrightarrow> stop = start + (\<Sum>i<length cs. unat (ce_length (cs ! i)))"
proof (induction cs arbitrary: start)
  case (Cons c cs)
  then have "stop = start + unat (ce_length c) + (\<Sum>i<length cs. unat (ce_length (cs ! i)))" by auto
  then show ?case by (simp add: sum.lessThan_Suc_shift del: sum.lessThan_Suc)
qed simp

lemma tiled_positive: "tiled start stop cs \<Longrightarrow> i < length cs \<Longrightarrow> 0 < unat (ce_length (cs ! i))"
  by (induction cs arbitrary: start i) (auto simp: nth_Cons split: nat.splits)

lemma whole_seed_sum:
  assumes "whole_seed seed"
  shows "unat (file_size (header seed)) = (\<Sum>i<length (chunks seed). chunk_len seed i)"
  using assms tiled_lengths[of 0 _ "chunks seed"] by (auto simp: whole_seed_def chunk_len_def)

lemma counted_sum:
  assumes "whole_seed seed" "good_results seed rs"
  shows "(\<Sum>r \<leftarrow> filter (counted seed) rs. chunk_len seed (unat (vr_chunk_idx r))) = sum (chunk_len seed) (passed_set rs)"
proof -
  let ?xs = "map (\<lambda>r. unat (vr_chunk_idx r)) (filter (counted seed) rs)"
  have "set ?xs = passed_set rs" using assms
    by (auto simp: passed_set_def counted_def good_results_def whole_seed_def word_less_nat_alt)
  moreover have "distinct ?xs" using assms(2)
    by (auto simp: good_results_def distinct_map inj_on_def word_unat_eq_iff)
  ultimately show ?thesis using sum_list_distinct_conv_sum_set[of ?xs "chunk_len seed"] by (simp add: comp_def)
qed

lemma passed_subset: "good_results seed rs \<Longrightarrow> passed_set rs \<subseteq> {..<length (chunks seed)}"
  by (auto simp: passed_set_def good_results_def)

lemma unat_sum_list:
  "sum_list (map unat ws) < 2 ^ 64 \<Longrightarrow> unat (sum_list ws :: u64) = sum_list (map unat ws)"
  by (induction ws) (simp_all add: unat_word_ariths)

lemma gain_unat:
  assumes "whole_seed seed" "good_results seed rs"
  shows "unat (gain seed rs) = sum (chunk_len seed) (passed_set rs)"
proof -
  note len = widen_u32
  have "sum (chunk_len seed) (passed_set rs) \<le> unat (file_size (header seed))"
    unfolding whole_seed_sum[OF assms(1)] by (rule sum_mono2) (use passed_subset[OF assms(2)] in auto)
  then have "sum (chunk_len seed) (passed_set rs) < 2 ^ 64" using unsigned_less[of "file_size (header seed)", where ?'a = nat] by simp
  then show ?thesis using unat_sum_list[of "map (\<lambda>r. ucast (ce_length (chunks seed ! unat (vr_chunk_idx r)))) (filter (counted seed) rs)"]
      counted_sum[OF assms] by (simp add: gain_def chunk_len_def comp_def len)
qed

lemma all_counted:
  assumes "whole_seed seed" "good_results seed rs" "file_size (header seed) \<le> gain seed rs"
  shows "passed_set rs = {..<length (chunks seed)}"
proof (rule ccontr)
  assume "passed_set rs \<noteq> {..<length (chunks seed)}"
  then obtain i where i: "i < length (chunks seed)" "i \<notin> passed_set rs" using passed_subset[OF assms(2)] by auto
  have "sum (chunk_len seed) (passed_set rs) + chunk_len seed i = sum (chunk_len seed) (insert i (passed_set rs))"
    using i by (simp add: passed_set_def)
  also have "\<dots> \<le> unat (file_size (header seed))"
    unfolding whole_seed_sum[OF assms(1)] by (rule sum_mono2) (use passed_subset[OF assms(2)] i in auto)
  finally show False
    using assms(3) gain_unat[OF assms(1,2)] i tiled_positive[of 0 _ "chunks seed" i] assms(1)
    by (auto simp: word_le_nat_alt chunk_len_def whole_seed_def)
qed

section \<open>Tasks that start on a fresh file\<close>

definition fresh_task :: "ActiveTask \<Rightarrow> bool" where
  "fresh_task t \<longleftrightarrow> at_bytes_done t = 0 \<and> at_state t = ''downloading'' \<and>
     (\<exists>n cores asms m. 0 < n \<and> at_pipeline t = start_pipeline n cores asms m \<and> fresh_assemblers (chunks (at_seed t)) asms)"

lemma run_results:
  assumes "fresh_task t0" "pipe_run evp (chunks (at_seed t0)) (at_pipeline t0) ops p rs"
  shows "good_results (at_seed t0) rs"
    "\<forall>i \<in> passed_set rs. verified_in evp (chunks (at_seed t0)) (at_pipeline t0) ops i"
  using assms drained_results by (fastforce simp: fresh_task_def good_results_def passed_set_def)+

lemma passed_append: "passed_set (rs @ rs') = passed_set rs \<union> passed_set rs'"
  by (auto simp: passed_set_def)

lemma bytes_grow:
  assumes "whole_seed seed" "good_results seed (rs @ rs')"
  shows "gain seed rs \<le> gain seed (rs @ rs')"
proof -
  have "good_results seed rs" using assms(2) by (simp add: good_results_def)
  then show ?thesis unfolding word_le_nat_alt using gain_unat[OF assms(1)] assms(2) passed_append[of rs rs']
    by (simp del: gain_append) (rule sum_mono2, auto simp: passed_set_def)
qed

lemma complete_bytes:
  assumes "task_run evp yy t0 ops t" "fresh_task t0" "whole_seed (at_seed t0)" "at_state t = ''complete''"
  shows "file_size (header (at_seed t0)) \<le> at_bytes_done t"
  using assms(1,4)
proof (induction rule: task_run.induct)
  case task_start
  then show ?case using assms(2) by (simp add: fresh_task_def)
next
  case (task_step ops t op t')
  obtain h tm k where op: "op = (h, tm, k)" by (cases op)
  obtain rs where rs: "at_seed t = at_seed t0" "at_bytes_done t = at_bytes_done t0 + gain (at_seed t0) rs"
      "pipe_run evp (chunks (at_seed t0)) (at_pipeline t0) (pipe_ops ops) (at_pipeline t) rs"
    using task_run_pools[OF task_step.hyps(1)] .
  have st: "pools_step evp (pipe_part k) t t'" using task_step.hyps(2) exec_task_pools op by blast
  have "at_bytes_done t \<le> at_bytes_done t'"
  proof (cases "at_bytes_done t' = at_bytes_done t")
    case False
    then obtain q rs' where q: "exec_pipe evp (chunks (at_seed t0)) q (at_pipeline t) = Some (at_pipeline t', rs')"
        "at_bytes_done t' = at_bytes_done t + gain (at_seed t0) rs'"
      using st rs(1) by (auto simp: pools_step_def)
    then have "good_results (at_seed t0) (rs @ rs')" using run_results(1)[OF assms(2) pipe_step[OF rs(3)]] by blast
    then show ?thesis using bytes_grow[OF assms(3)] rs(2) q(2) assms(2) by (simp add: fresh_task_def)
  qed simp
  then show ?case using st task_step rs(1) by (auto simp: pools_step_def state_step_def)
qed

lemma complete_passed:
  assumes run: "task_run evp yy t0 ops t" and "fresh_task t0" "whole_seed (at_seed t0)" "at_state t = ''complete''"
  obtains rs where "pipe_run evp (chunks (at_seed t0)) (at_pipeline t0) (pipe_ops ops) (at_pipeline t) rs"
    "passed_set rs = {..<length (chunks (at_seed t0))}"
proof -
  obtain rs where rs: "at_bytes_done t = at_bytes_done t0 + gain (at_seed t0) rs"
      "pipe_run evp (chunks (at_seed t0)) (at_pipeline t0) (pipe_ops ops) (at_pipeline t) rs"
    using task_run_pools[OF run] by metis
  moreover have "file_size (header (at_seed t0)) \<le> gain (at_seed t0) rs"
    using complete_bytes[OF assms] rs(1) assms(2) by (simp add: fresh_task_def)
  ultimately show ?thesis using that all_counted[OF assms(3) run_results(1)[OF assms(2) rs(2)]] by blast
qed

lemma map_of_task_put: "map_of (task_put k v es) = (map_of es)(k \<mapsto> v)"
  by (induction k v es rule: task_put.induct) (auto simp: fun_eq_iff)

lemma init_assemblers_fresh:
  "init_assemblers mm cs w = (Some asms, w') \<Longrightarrow> length asms = length cs
     \<and> (\<forall>i < length cs. \<exists>b. assembler_init (Some b) (ce_length (cs ! i)) SUB_BLOCK_SIZE = Some (asms ! i))"
proof (induction cs arbitrary: w asms)
  case (Cons c cs)
  obtain b w1 a as where x: "assembler_init (Some b) (ce_length c) SUB_BLOCK_SIZE = Some a"
      "init_assemblers mm cs w1 = (Some as, w')" "asms = a # as"
    using Cons.prems by (auto split: prod.splits option.splits)
  then show ?case using Cons.IH[OF x(2)] by (auto simp: nth_Cons split: nat.splits)
qed simp

lemma store_task_map:
  "map_of (tm_tasks (snd (store_task h t resp tm))) = (map_of (tm_tasks tm))(at_task_id t \<mapsto> snd (announce_task_now h tm t))"
  by (simp add: store_task_def Let_def map_of_task_put split: prod.split)

text \<open>What \<open>cmd_add\<close> stores when the output file is not there or empty.\<close>

definition fresh_file :: "host \<Rightarrow> string \<Rightarrow> bool" where
  "fresh_file h path \<longleftrightarrow> h_file h path = None \<or> h_file h path = Some []"

definition added :: "host \<Rightarrow> string \<Rightarrow> string \<Rightarrow> TaskManager \<Rightarrow> ActiveTask \<Rightarrow> bool" where
  "added h seed_path save_path tm t \<longleftrightarrow> (let tid = gen_task_id (h_random h) in
     map_of (tm_tasks tm) tid = None \<and> map_of (tm_tasks (snd (snd (cmd_add h seed_path save_path tm)))) tid = Some t)"

lemma io_threads_pos: "0 < io_threads n"
proof -
  have "2 \<le> io_threads n" by (auto simp: io_threads_def min_def max_def not_le)
  then show ?thesis by (simp add: word_less_nat_alt word_le_nat_alt)
qed

end
