(* ===== verification/Downloads.thy ===== *)
theory Downloads
  imports Task_Runs
begin

text \<open>
  What a download promises. A task that \<open>cmd_add\<close> starts on a fresh file becomes complete only when every
  chunk has matched its digest, whatever the peers send; it does become complete when the peers are
  honest and everything has arrived; and the two ways it can be stuck: a chunk whose digest failed once,
  and a tracker that was given up.
\<close>

section \<open>The task \<open>cmd_add\<close> starts\<close>

lemma announce_fields_rest [simp]:
  "at_tracker_dead (snd (announce_task_now h tm t)) = False"
  by (simp add: announce_task_now_def Let_def)

lemma added_task:
  assumes "added h seed_path save_path tm t"
  obtains seed w content asms w' bf bytes pm where
    "read_tseed (pf_order (h_platform h)) (h_sha1 h) (h_file h seed_path) = Inr seed"
    "open_output h save_path seed = (True, w, content)"
    "init_assemblers (h_mmap h) (chunks seed) w = (Some asms, w')"
    "(bf, bytes) = (if fresh_file h save_path then (replicate (unat (chunk_count (header seed))) False, 0)
                    else resume_chunks h seed content)"
    "fst (snd (cmd_add h seed_path save_path tm)) = (h_file h)(save_path := content)"
    "pm = task_peer_manager h tm seed (detect_link_speed_mbps (h_ifaddrs h) (h_speed_file h)) bf"
    "t = snd (announce_task_now h tm ((new_task h (gen_task_id (h_random h)) seed save_path seed_path
           (start_pipeline (io_threads (h_cores h)) (h_cores h) asms (h_memory h))
           (pm\<lparr>pm_sched := download_scheduler (h_piece_shuffle h) seed (detect_link_speed_mbps (h_ifaddrs h) (h_speed_file h))
                 (bytes > 0) bf (pm_sched pm)\<rparr>))\<lparr>at_writer := Some w', at_bytes_done := bytes\<rparr>))"
proof -
  let ?tid = "gen_task_id (h_random h)"
  have none: "map_of (tm_tasks tm) ?tid = None"
    and some: "map_of (tm_tasks (snd (snd (cmd_add h seed_path save_path tm)))) ?tid = Some t"
    using assms by (simp_all add: added_def Let_def)
  obtain seed where seed: "read_tseed (pf_order (h_platform h)) (h_sha1 h) (h_file h seed_path) = Inr seed"
    using none some by (cases "read_tseed (pf_order (h_platform h)) (h_sha1 h) (h_file h seed_path)") (simp_all add: cmd_add_def)
  obtain ok w content where out: "open_output h save_path seed = (ok, w, content)" by (cases "open_output h save_path seed")
  have ok using none some by (rule_tac ccontr) (simp add: cmd_add_def seed out)
  obtain asms' w' where ia: "init_assemblers (h_mmap h) (chunks seed) w = (asms', w')" by (cases "init_assemblers (h_mmap h) (chunks seed) w")
  obtain asms where asms: "asms' = Some asms" using none some
    by (cases asms') (simp_all add: cmd_add_def seed out ia \<open>ok\<close>)
  have bind: "h_bind_ok h" using none some by (rule_tac ccontr) (simp add: cmd_add_def seed out ia \<open>ok\<close> asms)
  obtain bf bytes where b: "(if fresh_file h save_path then (replicate (unat (chunk_count (header seed))) False, 0)
                    else resume_chunks h seed content) = (bf, bytes)" by fastforce
  have fe: "(case h_file h save_path of None \<Rightarrow> False | Some c \<Rightarrow> c \<noteq> []) = (\<not> fresh_file h save_path)"
    by (auto simp: fresh_file_def split: option.splits)
  have b': "(if \<not> fresh_file h save_path then resume_chunks h seed content
             else (replicate (unat (chunk_count (header seed))) False, 0)) = (bf, bytes)" using b by (simp split: if_splits)
  have out': "open_output h save_path seed = (True, w, content)" using out \<open>ok\<close> by simp
  have ia': "init_assemblers (h_mmap h) (chunks seed) w = (Some asms, w')" using ia asms by simp
  show ?thesis
  proof (rule that[OF seed out' ia' b[symmetric] _ refl])
    show "fst (snd (cmd_add h seed_path save_path tm)) = (h_file h)(save_path := content)"
      by (simp add: cmd_add_def seed out' ia' bind Let_def fe b' split: prod.split)
  next
    let ?speed = "detect_link_speed_mbps (h_ifaddrs h) (h_speed_file h)"
    let ?pm = "task_peer_manager h tm seed ?speed bf"
    let ?t = "(new_task h ?tid seed save_path seed_path (start_pipeline (io_threads (h_cores h)) (h_cores h) asms (h_memory h))
           (?pm\<lparr>pm_sched := download_scheduler (h_piece_shuffle h) seed ?speed (bytes > 0) bf (pm_sched ?pm)\<rparr>))
           \<lparr>at_writer := Some w', at_bytes_done := bytes\<rparr>"
    have "snd (snd (cmd_add h seed_path save_path tm)) = snd (store_task h ?t (task_json ?tid []) tm)"
      by (simp add: cmd_add_def seed out' ia' bind Let_def fe b' split: prod.split)
    then show "t = snd (announce_task_now h tm ?t)" using some by (simp add: store_task_map new_task_def)
  qed
qed

lemma added_fresh:
  assumes add: "added h seed_path save_path tm t" and fr: "fresh_file h save_path"
  shows "fresh_task t" "length (chunks (at_seed t)) = unat (chunk_count (header (at_seed t)))"
proof -
  obtain seed w content asms w' bf bytes pm where x:
    "read_tseed (pf_order (h_platform h)) (h_sha1 h) (h_file h seed_path) = Inr seed"
    "init_assemblers (h_mmap h) (chunks seed) w = (Some asms, w')"
    "(bf, bytes) = (if fresh_file h save_path then (replicate (unat (chunk_count (header seed))) False, 0)
                    else resume_chunks h seed content)"
    "t = snd (announce_task_now h tm ((new_task h (gen_task_id (h_random h)) seed save_path seed_path
           (start_pipeline (io_threads (h_cores h)) (h_cores h) asms (h_memory h))
           (pm\<lparr>pm_sched := download_scheduler (h_piece_shuffle h) seed (detect_link_speed_mbps (h_ifaddrs h) (h_speed_file h))
                 (bytes > 0) bf (pm_sched pm)\<rparr>))\<lparr>at_writer := Some w', at_bytes_done := bytes\<rparr>))"
    using added_task[OF add] by this
  have t: "at_seed t = seed" "at_bytes_done t = 0" "at_state t = ''downloading''"
      "at_pipeline t = start_pipeline (io_threads (h_cores h)) (h_cores h) asms (h_memory h)"
    using x(3) fr by (simp_all add: x(4) new_task_def)
  show len: "length (chunks (at_seed t)) = unat (chunk_count (header (at_seed t)))"
    using read_tseed_chunks[OF x(1)] t by simp
  have "fresh_assemblers (chunks (at_seed t)) asms"
    using init_assemblers_fresh[OF x(2)] len t unat_u32_less[of "chunk_count (header seed)"] by (simp add: fresh_assemblers_def)
  then show "fresh_task t" using t io_threads_pos[of "h_cores h"] by (auto simp: fresh_task_def)
qed

lemma added_whole:
  assumes "added h seed_path save_path tm t" "fresh_file h save_path"
    "tiled 0 (unat (file_size (header (at_seed t)))) (chunks (at_seed t))"
  shows "whole_seed (at_seed t)"
  using added_fresh[OF assms(1,2)] assms(3) by (simp add: whole_seed_def)

lemma task_run_append:
  "task_run evp yy t1 ops2 t2 \<Longrightarrow> task_run evp yy t0 ops1 t1 \<Longrightarrow> task_run evp yy t0 (ops1 @ ops2) t2"
proof (induction rule: task_run.induct)
  case (task_step ops t op t')
  then show ?case using task_run.task_step[of evp yy t0 "ops1 @ ops" t op t'] by simp
qed simp

lemma pipe_run_append:
  "pipe_run evp cs p1 ops2 p2 rs2 \<Longrightarrow> pipe_run evp cs p0 ops1 p1 rs1 \<Longrightarrow> pipe_run evp cs p0 (ops1 @ ops2) p2 (rs1 @ rs2)"
proof (induction rule: pipe_run.induct)
  case (pipe_step ops p rs op p' rs')
  then show ?case using pipe_run.pipe_step[of evp cs p0 "ops1 @ ops" p "rs1 @ rs" op p' rs'] by simp
qed simp

lemma queue_persists:
  "pipe_run evp cs p1 ops p2 rs \<Longrightarrow> set (vf_result_queue (pl_verify p1)) \<subseteq> set (vf_result_queue (pl_verify p2)) \<union> set rs"
proof (induction rule: pipe_run.induct)
  case (pipe_step ops p rs op p' rs')
  have "set (vf_result_queue (pl_verify p)) \<subseteq> set (vf_result_queue (pl_verify p')) \<union> set rs'"
    using pipe_step.hyps(2)
    by (cases op) (auto simp: io_step_def io_set_def io_poll_def io_piece_step_def verify_enqueue_def verify_step_def drain_results_def Let_def
        split: if_splits io_worker.splits list.splits piece_pc.splits verify_worker.splits option.splits)
  then show ?case using pipe_step.IH by auto
qed simp

section \<open>Safety\<close>

text \<open>C1. A download is never reported complete on trust: when a task that was added on a fresh output
  file, with a seed whose chunks tile the file, is complete, then each of its chunks matched the digest
  of the seed at some moment of the run. Peers may send anything, in any order, and workers, heartbeats,
  announcements and connections may interleave in any way.\<close>

theorem complete_means_verified:
  assumes "added h seed_path save_path tm t0" "fresh_file h save_path"
    and "tiled 0 (unat (file_size (header (at_seed t0)))) (chunks (at_seed t0))"
    and "task_run evp yy t0 ops t" "at_state t = ''complete''"
  shows "\<forall>i < length (chunks (at_seed t0)). verified_in evp (chunks (at_seed t0)) (at_pipeline t0) (pipe_ops ops) i"
proof -
  have fr: "fresh_task t0" and w: "whole_seed (at_seed t0)" using added_fresh added_whole assms by blast+
  obtain rs where rs: "pipe_run evp (chunks (at_seed t0)) (at_pipeline t0) (pipe_ops ops) (at_pipeline t) rs"
      "passed_set rs = {..<length (chunks (at_seed t0))}"
    using complete_passed[OF assms(4) fr w assms(5)] .
  then show ?thesis using run_results(2)[OF fr rs(1)] by auto
qed

text \<open>C25. A chunk whose digest failed once blocks its task for good: the assembler keeps all its slots
  marked, so no later piece completes the chunk again, and from then on the task never becomes complete,
  whatever arrives.\<close>

theorem failed_chunk_blocks:
  assumes "added h seed_path save_path tm t0" "fresh_file h save_path"
    and "tiled 0 (unat (file_size (header (at_seed t0)))) (chunks (at_seed t0))"
    and run1: "task_run evp yy t0 ops1 t1"
    and r: "r \<in> set (vf_result_queue (pl_verify (at_pipeline t1)))" "\<not> vr_passed r"
    and run2: "task_run evp yy t1 ops2 t"
  shows "at_state t \<noteq> ''complete''"
proof
  assume c: "at_state t = ''complete''"
  have fr: "fresh_task t0" and w: "whole_seed (at_seed t0)" using added_fresh added_whole assms by blast+
  obtain rs1 where r1: "at_seed t1 = at_seed t0" "at_bytes_done t1 = at_bytes_done t0 + gain (at_seed t0) rs1"
      "pipe_run evp (chunks (at_seed t0)) (at_pipeline t0) (pipe_ops ops1) (at_pipeline t1) rs1"
    using task_run_pools[OF run1] .
  obtain rs2 where r2: "at_bytes_done t = at_bytes_done t1 + gain (at_seed t0) rs2"
      "pipe_run evp (chunks (at_seed t0)) (at_pipeline t1) (pipe_ops ops2) (at_pipeline t) rs2"
    using task_run_pools[OF run2] unfolding r1(1) by metis
  have run: "pipe_run evp (chunks (at_seed t0)) (at_pipeline t0) (pipe_ops ops1 @ pipe_ops ops2) (at_pipeline t) (rs1 @ rs2)"
    by (rule pipe_run_append[OF r2(2) r1(3)])
  have all: "passed_set (rs1 @ rs2) = {..<length (chunks (at_seed t0))}"
    using complete_bytes[OF task_run_append[OF run2 run1] fr w c] r1 r2 fr
    by (intro all_counted[OF w run_results(1)[OF fr run]]) (simp add: fresh_task_def)
  let ?q = "vf_result_queue (pl_verify (at_pipeline t))"
  have good: "good_results (at_seed t0) ((rs1 @ rs2) @ ?q)"
    by (rule run_results(1)[OF fr pipe_step[OF run, of P_drain]]) (simp add: drain_results_def)
  have "r \<in> set (rs2 @ ?q)" using queue_persists[OF r2(2)] r(1) by auto
  then have in_all: "r \<in> set ((rs1 @ rs2) @ ?q)" by auto
  then have "unat (vr_chunk_idx r) \<in> passed_set (rs1 @ rs2)" using good all unfolding good_results_def by blast
  then obtain r' where r': "r' \<in> set ((rs1 @ rs2) @ ?q)" "vr_passed r'" "vr_chunk_idx r' = vr_chunk_idx r"
    unfolding passed_set_def word_unat_eq_iff[of "vr_chunk_idx _"] by fastforce
  have "r' = r" by (rule inj_onD[of vr_chunk_idx "set ((rs1 @ rs2) @ ?q)"])
      (use good in_all r' in \<open>auto simp only: good_results_def distinct_map\<close>)
  then show False using r' r(2) by simp
qed

text \<open>C26. A task whose tracker was given up stays in the waiting state for ever: no later heartbeat,
  announcement, connection or verified chunk takes it out of it.\<close>

theorem waiting_is_final:
  assumes "task_run evp yy t0 ops t" "at_state t0 = ''waiting''"
  shows "at_state t = ''waiting''"
  using assms
proof (induction rule: task_run.induct)
  case (task_step ops t op t')
  obtain h tm k where "op = (h, tm, k)" by (cases op)
  then show ?case using task_step exec_task_pools[of evp yy h tm k t t'] by (auto simp: pools_step_def state_step_def)
qed

section \<open>Completion\<close>

lemma run_states:
  assumes "task_run evp yy t0 ops t" "at_state t0 = ''downloading''"
  shows "at_state t \<in> {''downloading'', ''waiting'', ''complete''}"
  using assms
proof (induction rule: task_run.induct)
  case (task_step ops t op t')
  obtain h tm k where "op = (h, tm, k)" by (cases op)
  then have "state_step t t'" using task_step.hyps(2) exec_task_pools[of evp yy h tm k t t'] by (simp add: pools_step_def)
  then show ?case using task_step by (auto simp: state_step_def)
qed simp

lemma all_passed_enough:
  assumes "whole_seed seed" "good_results seed rs" "passed_set rs = {..<length (chunks seed)}"
  shows "file_size (header seed) \<le> gain seed rs"
  unfolding word_le_nat_alt gain_unat[OF assms(1,2)] whole_seed_sum[OF assms(1)] assms(3) by simp

text \<open>C2. A download from honest peers ends. Take a task added on a fresh output file whose chunks are
  mapped to separate memory, and let every piece that arrived be a part of the right content. Once each
  sub-block has arrived and the pools have come to rest, the next heartbeat reports the task complete
  (unless its tracker had been given up), and the mapped file holds the content of every chunk.\<close>

theorem download_completes:
  assumes add: "added h seed_path save_path tm t0" "fresh_file h save_path"
    and seed: "tiled 0 (unat (file_size (header (at_seed t0)))) (chunks (at_seed t0))"
    and su: "honest_setup evp (chunks (at_seed t0)) content bs (pl_assemblers (at_pipeline t0))"
    and run: "task_run evp yy t0 ops t" and hon: "all_honest content (pl_assemblers (at_pipeline t0)) (pipe_ops ops)"
    and rest: "idle (at_pipeline t)" and sent: "\<forall>i < length (chunks (at_seed t0)). fully_sent (pl_assemblers (at_pipeline t0)) (pipe_ops ops) i"
    and st: "at_state t \<noteq> ''waiting''"
  shows "at_state (snd (task_tick h' tm' t)) = ''complete''
    \<and> (\<forall>i < length (chunks (at_seed t0)). read_mem (pl_mem (at_pipeline t)) (bs i) (length (content i)) = content i)"
proof -
  have fr: "fresh_task t0" and w: "whole_seed (at_seed t0)" using added_fresh added_whole add seed by blast+
  obtain n cores asms m where p0: "0 < n" "at_pipeline t0 = start_pipeline n cores asms m" using fr by (auto simp: fresh_task_def)
  then have asms: "pl_assemblers (at_pipeline t0) = asms" by (simp add: start_pipeline_def)
  obtain rs where rs: "at_seed t = at_seed t0" "at_bytes_done t = at_bytes_done t0 + gain (at_seed t0) rs"
      "pipe_run evp (chunks (at_seed t0)) (at_pipeline t0) (pipe_ops ops) (at_pipeline t) rs"
    using task_run_pools[OF run] .
  let ?q = "vf_result_queue (pl_verify (at_pipeline t))"
  note hd = honest_download[OF su[unfolded asms] p0(1) rs(3)[unfolded p0(2)] hon[unfolded asms]]
  have passed: "\<forall>r \<in> set ?q \<union> set rs. vr_passed r
      \<and> read_mem (pl_mem (at_pipeline t)) (bs (unat (vr_chunk_idx r))) (length (content (unat (vr_chunk_idx r)))) = content (unat (vr_chunk_idx r))"
    using hd unfolding Let_def by (elim conjE)
  have cover: "\<exists>r \<in> set ?q \<union> set rs. unat (vr_chunk_idx r) = i" if "i < length (chunks (at_seed t0))" for i
    using hd rest sent[unfolded asms] that by blast
  have good: "good_results (at_seed t0) (rs @ ?q)"
    by (rule run_results(1)[OF fr pipe_step[OF rs(3), of P_drain]]) (simp add: drain_results_def)
  have "{..<length (chunks (at_seed t0))} \<subseteq> passed_set (rs @ ?q)"
    using cover passed by (fastforce simp: passed_set_def)
  then have "file_size (header (at_seed t0)) \<le> gain (at_seed t0) (rs @ ?q)"
    using passed_subset[OF good] all_passed_enough[OF w good] by blast
  then have "at_state (snd (task_tick h' tm' t)) = ''complete''"
    using run_states[OF run] st fr rs(1,2) by (auto simp: task_tick_fields next_state_def fresh_task_def)
  moreover have "read_mem (pl_mem (at_pipeline t)) (bs i) (length (content i)) = content i" if "i < length (chunks (at_seed t0))" for i
    using cover[OF that] passed by blast
  ultimately show ?thesis by blast
qed

section \<open>A concrete download\<close>

lemma cmd_add_stores:
  assumes seed: "read_tseed (pf_order (h_platform h)) (h_sha1 h) (h_file h seed_path) = Inr seed"
    and out: "open_output h save_path seed = (True, w, content)" and bind: "h_bind_ok h"
    and ia: "init_assemblers (h_mmap h) (chunks seed) w = (Some asms, w')"
    and bf: "(if fresh_file h save_path then (replicate (unat (chunk_count (header seed))) False, 0) else resume_chunks h seed content) = (bf, bytes)"
    and new: "map_of (tm_tasks tm) (gen_task_id (h_random h)) = None"
  obtains t where "added h seed_path save_path tm t" "at_seed t = seed" "at_bytes_done t = bytes" "at_tracker_dead t = False"
    "at_pipeline t = start_pipeline (io_threads (h_cores h)) (h_cores h) asms (h_memory h)"
    "pm_initial_bitfield (at_peer_mgr t) = bf" "fst (snd (cmd_add h seed_path save_path tm)) = (h_file h)(save_path := content)"
proof -
  let ?speed = "detect_link_speed_mbps (h_ifaddrs h) (h_speed_file h)"
  let ?pm = "task_peer_manager h tm seed ?speed bf" and ?tid = "gen_task_id (h_random h)"
  let ?t = "(new_task h ?tid seed save_path seed_path (start_pipeline (io_threads (h_cores h)) (h_cores h) asms (h_memory h))
         (?pm\<lparr>pm_sched := download_scheduler (h_piece_shuffle h) seed ?speed (bytes > 0) bf (pm_sched ?pm)\<rparr>))
         \<lparr>at_writer := Some w', at_bytes_done := bytes\<rparr>"
  have fe: "(case h_file h save_path of None \<Rightarrow> False | Some c \<Rightarrow> c \<noteq> []) = (\<not> fresh_file h save_path)"
    by (auto simp: fresh_file_def split: option.splits)
  have bf': "(if \<not> fresh_file h save_path then resume_chunks h seed content
             else (replicate (unat (chunk_count (header seed))) False, 0)) = (bf, bytes)" using bf by (simp split: if_splits)
  have "snd (snd (cmd_add h seed_path save_path tm)) = snd (store_task h ?t (task_json ?tid []) tm)"
    by (simp add: cmd_add_def seed out ia bind Let_def fe bf' split: prod.split)
  then have add: "added h seed_path save_path tm (snd (announce_task_now h tm ?t))"
    using new by (simp add: added_def Let_def store_task_map new_task_def)
  have files: "fst (snd (cmd_add h seed_path save_path tm)) = (h_file h)(save_path := content)"
    by (simp add: cmd_add_def seed out ia bind Let_def fe bf' split: prod.split)
  have pm: "at_peer_mgr (snd (announce_task_now h tm t)) = at_peer_mgr t" for t by (simp add: announce_task_now_def Let_def)
  show ?thesis
    by (rule that[OF add _ _ _ _ _ files]) (simp_all add: pm new_task_def task_peer_manager_def)
qed

text \<open>Steps of the pools alone, and the state after the heartbeat that follows.\<close>

fun task_part :: "pipe_op \<Rightarrow> task_op" where
  "task_part (P_dispatch task) = Tk_piece task"
| "task_part (P_io w) = Tk_io w"
| "task_part (P_verify w pick) = Tk_verify w pick"
| "task_part P_drain = Tk_tick"

lemma pools_run:
  assumes "run_pipe evp (chunks (at_seed t)) ops (at_pipeline t, []) = Some (p, [])" "P_drain \<notin> set ops"
  shows "task_run evp yy t (map (\<lambda>op. (h, tm, task_part op)) ops) (t\<lparr>at_pipeline := p\<rparr>)"
proof -
  have "run_pipe evp (chunks (at_seed t)) ops (at_pipeline t1, rs) = Some (p, rs') \<Longrightarrow> at_seed t1 = at_seed t \<Longrightarrow> P_drain \<notin> set ops
      \<Longrightarrow> task_run evp yy t0 done t1 \<Longrightarrow> task_run evp yy t0 (done @ map (\<lambda>op. (h, tm, task_part op)) ops) (t1\<lparr>at_pipeline := p\<rparr>)" for t0 t1 rs rs' "done"
  proof (induction ops arbitrary: t1 rs "done")
    case (Cons op ops)
    then obtain p1 rs1 where x: "exec_pipe evp (chunks (at_seed t)) op (at_pipeline t1) = Some (p1, rs1)"
        "run_pipe evp (chunks (at_seed t)) ops (p1, rs @ rs1) = Some (p, rs')"
      by (auto split: option.splits)
    have "exec_task evp yy (h, tm, task_part op) t1 = Some (t1\<lparr>at_pipeline := p1\<rparr>)"
      using Cons.prems(2,3) x(1) by (cases op) (simp_all add: on_pools_def del: exec_pipe.simps)
    then have "task_run evp yy t0 (done @ [(h, tm, task_part op)]) (t1\<lparr>at_pipeline := p1\<rparr>)" by (rule task_step[OF Cons.prems(4)])
    then show ?case using Cons.IH[of "t1\<lparr>at_pipeline := p1\<rparr>" "rs @ rs1" "done @ [(h, tm, task_part op)]"] x Cons.prems by simp
  next
    case Nil
    then have eq: "t1\<lparr>at_pipeline := p\<rparr> = t1" by (cases t1) simp
    show ?case unfolding eq using Nil by simp
  qed
  from this[of t "[]" "[]" t "[]"] show ?thesis using assms by (simp add: task_start)
qed

definition example_chunks :: "ChunkEntry list" where
  "example_chunks = [\<lparr>ce_offset = 0, ce_length = 3, ce_sha256 = replicate 32 7\<rparr>]"

definition example_header :: TSeedHeader where
  "example_header = seed_header (\<lambda>_. replicate 32 5) [1, 2, 3] ''f'' ''u'' example_chunks 1 2 3"

definition example_host :: host where
  "example_host = \<lparr>h_platform = \<lparr>pf_order = Little, pf_inet = (\<lambda>_. 0), pf_sendfile = False, pf_sort = (\<lambda>_ xs. xs),
       pf_desc = (\<lambda>_ xs. xs), pf_shuffle = (\<lambda>xs. xs)\<rparr>,
     h_sha1 = (\<lambda>_. []), h_sha256 = (\<lambda>_. replicate 32 7),
     h_file = (\<lambda>p. if p = ''s'' then Some (seed_file example_header ''f'' ''u'' example_chunks) else None),
     h_map_ok = True, h_open_rdonly = (\<lambda>_. 5),
     h_writer_fd = 6, h_fallocate_ok = True, h_ftruncate_ok = True, h_mmap = (\<lambda>_ _. Some 100),
     h_copy_file_range = (\<lambda>_ _ n. uint n), h_memory = (\<lambda>_. 0), h_cores = 4, h_ifaddrs = None, h_speed_file = (\<lambda>_. None),
     h_bind_ok = True, h_listen_ip = None, h_resolves = (\<lambda>_. True), h_piece_shuffle = (\<lambda>xs. xs), h_random = (\<lambda>_. 0),
     h_iso_now = ''now'', h_now = 1000000\<rparr>"

definition example_assemblers :: "ChunkAssembler list" where
  "example_assemblers = [the (assembler_init (Some 100) 3 SUB_BLOCK_SIZE)]"

definition example_start :: pipeline where
  "example_start = start_pipeline 2 4 example_assemblers (\<lambda>_. 0)"

definition example_pools :: "bytes \<Rightarrow> pipe_op list" where
  "example_pools data = P_dispatch \<lparr>pt_chunk_idx = 0, pt_begin = 0, pt_peer_slot = 4, pt_data = data\<rparr> # replicate 7 (P_io 0)
     @ [P_verify 1 0, P_verify 1 0, P_verify 1 0]"

lemma example_header_fields:
  "wf_header example_header" "magic example_header = MAGIC" "version example_header = 1" "chunk_count example_header = 1"
  "file_size example_header = 3" "file_name_len example_header = 1" "announce_len example_header = 1"
  by (simp_all add: example_header_def seed_header_def wf_header_def example_chunks_def total_file_size_def)

definition example_seed :: TSeedFile where
  "example_seed = \<lparr>header = example_header, file_name = ''f'', announce_url = ''u'', chunks = example_chunks, info_hash = []\<rparr>"

lemma example_read:
  "read_tseed (pf_order (h_platform example_host)) (h_sha1 example_host) (h_file example_host ''s'') = Inr example_seed"
  using read_seed_file[of example_header example_chunks "''f''" "''u''" Little "\<lambda>_. []" "[]"] example_header_fields
  by (simp add: example_host_def example_seed_def compute_info_hash_def example_chunks_def wf_entry_def)

lemma example_output:
  "open_output example_host ''f'' example_seed = (True, fst (snd (open_output example_host ''f'' example_seed)), Some (replicate 3 0))"
  by (simp add: open_output_def segment_open_def example_host_def example_seed_def example_header_fields Let_def)

lemma example_mapped:
  "\<exists>w'. init_assemblers (h_mmap example_host) (chunks example_seed) (fst (snd (open_output example_host ''f'' example_seed)))
     = (Some example_assemblers, w')"
  by (simp add: open_output_def segment_open_def example_host_def example_seed_def example_header_fields Let_def example_chunks_def
      new_segment_writer_def get_chunk_base_def find_segment_def map_segment_def MAX_CHUNK_SIZE_def UINT32_MAX_def
      example_assemblers_def assembler_init_def SUB_BLOCK_SIZE_def)

lemma example_added:
  obtains t where "added example_host ''s'' ''f'' (new_task_manager 6881 ''t'' 8080) t" "at_seed t = example_seed" "at_bytes_done t = 0"
    "at_tracker_dead t = False" "at_pipeline t = example_start" "at_state t = ''downloading''"
proof -
  obtain w' where m: "init_assemblers (h_mmap example_host) (chunks example_seed) (fst (snd (open_output example_host ''f'' example_seed)))
     = (Some example_assemblers, w')" using example_mapped by blast
  have fr: "fresh_file example_host ''f''" and bind: "h_bind_ok example_host" by (simp_all add: fresh_file_def example_host_def)
  have new: "map_of (tm_tasks (new_task_manager 6881 ''t'' 8080)) (gen_task_id (h_random example_host)) = None"
    by (simp add: new_task_manager_def)
  obtain t where t: "added example_host ''s'' ''f'' (new_task_manager 6881 ''t'' 8080) t" "at_seed t = example_seed" "at_bytes_done t = 0"
    "at_tracker_dead t = False"
    "at_pipeline t = start_pipeline (io_threads (h_cores example_host)) (h_cores example_host) example_assemblers (h_memory example_host)"
    using cmd_add_stores[OF example_read example_output bind m _ new] fr by (metis (full_types))
  show ?thesis
  proof (rule that[OF t(1-4)])
    show "at_pipeline t = example_start" using t(5) by (simp add: example_start_def example_host_def io_threads_def)
    show "at_state t = ''downloading''" using added_fresh(1)[OF t(1) fr] by (simp add: fresh_task_def)
  qed
qed

lemma example_tiled: "tiled 0 (unat (file_size (header example_seed))) (chunks example_seed)"
  by (simp add: example_seed_def example_header_fields example_chunks_def)

lemma example_fresh: "fresh_file example_host ''f''"
  by (simp add: fresh_file_def example_host_def)

definition example_end :: "bytes \<Rightarrow> bytes \<Rightarrow> (pipeline \<times> VerifyResult list) option" where
  "example_end digest data = run_pipe (\<lambda>_. Some digest) example_chunks (example_pools data) (example_start, [])"

definition example_queue :: "bytes \<Rightarrow> bytes \<Rightarrow> (u32 \<times> bool) list option" where
  "example_queue digest data =
     map_option (\<lambda>(p, rs). map (\<lambda>r. (vr_chunk_idx r, vr_passed r)) (rs @ vf_result_queue (pl_verify p))) (example_end digest data)"

lemma example_good: "example_queue (replicate 32 7) [1, 2, 3] = Some [(0, True)]"
  by code_simp

lemma example_bad: "example_queue (replicate 32 8) [1, 2, 3] = Some [(0, False)]"
  by code_simp

lemma example_rest: "map_option (\<lambda>(p, rs). length rs) (example_end (replicate 32 7) [1, 2, 3]) = Some 0"
  by code_simp

lemma example_rest_bad: "map_option (\<lambda>(p, rs). length rs) (example_end (replicate 32 8) [1, 2, 3]) = Some 0"
  by code_simp

abbreviation example_steps :: "(host \<times> TaskManager \<times> task_op) list" where
  "example_steps \<equiv> map (\<lambda>op. (example_host, new_task_manager 6881 ''t'' 8080, task_part op)) (example_pools [1, 2, 3])"

abbreviation example_tick :: "host \<times> TaskManager \<times> task_op" where
  "example_tick \<equiv> (example_host, new_task_manager 6881 ''t'' 8080, Tk_tick)"

lemma example_pipe_ops: "pipe_ops example_steps = example_pools [1, 2, 3]"
  by (simp add: pipe_ops_def example_pools_def)

lemma example_download:
  assumes q: "example_queue digest [1, 2, 3] = Some [(0, passed)]"
    and rest: "map_option (\<lambda>(p, rs). length rs) (example_end digest [1, 2, 3]) = Some 0"
  obtains t0 t r where "added example_host ''s'' ''f'' (new_task_manager 6881 ''t'' 8080) t0" "at_seed t0 = example_seed"
    "at_pipeline t0 = example_start" "at_state t0 = ''downloading''"
    "task_run (\<lambda>_. Some digest) (\<lambda>_. None) t0 example_steps t"
    "vf_result_queue (pl_verify (at_pipeline t)) = [r]" "vr_chunk_idx r = 0" "vr_passed r = passed"
    "at_seed t = example_seed" "at_bytes_done t = 0" "at_state t = ''downloading''" "at_tracker_dead t = False"
    "example_end digest [1, 2, 3] = Some (at_pipeline t, [])"
proof -
  obtain t0 where t0: "added example_host ''s'' ''f'' (new_task_manager 6881 ''t'' 8080) t0" "at_seed t0 = example_seed" "at_bytes_done t0 = 0"
    "at_tracker_dead t0 = False" "at_pipeline t0 = example_start" "at_state t0 = ''downloading''" using example_added .
  obtain p where e: "example_end digest [1, 2, 3] = Some (p, [])" using rest by auto
  have r: "map (\<lambda>r. (vr_chunk_idx r, vr_passed r)) (vf_result_queue (pl_verify p)) = [(0, passed)]"
    using q by (simp add: example_queue_def e)
  then obtain r where r': "vf_result_queue (pl_verify p) = [r]" "vr_chunk_idx r = 0" "vr_passed r = passed" by auto
  have run: "task_run (\<lambda>_. Some digest) (\<lambda>_. None) t0 example_steps (t0\<lparr>at_pipeline := p\<rparr>)"
    by (rule pools_run) (use e t0 in \<open>auto simp: example_end_def example_pools_def example_seed_def\<close>)
  show ?thesis
    by (rule that[OF t0(1,2,5,6) run, of r]) (simp_all add: t0 r' e)
qed

theorem complete_means_verified_witness:
  "\<exists>t0 t. added example_host ''s'' ''f'' (new_task_manager 6881 ''t'' 8080) t0
     \<and> task_run (\<lambda>_. Some (replicate 32 7)) (\<lambda>_. None) t0 (example_steps @ [example_tick]) t \<and> at_state t = ''complete''
     \<and> verified_in (\<lambda>_. Some (replicate 32 7)) (chunks (at_seed t0)) (at_pipeline t0) (pipe_ops (example_steps @ [example_tick])) 0"
proof -
  obtain t0 t r where x: "added example_host ''s'' ''f'' (new_task_manager 6881 ''t'' 8080) t0" "at_seed t0 = example_seed"
    "task_run (\<lambda>_. Some (replicate 32 7)) (\<lambda>_. None) t0 example_steps t"
    "vf_result_queue (pl_verify (at_pipeline t)) = [r]" "vr_chunk_idx r = 0" "vr_passed r = True"
    "at_seed t = example_seed" "at_bytes_done t = 0" "at_state t = ''downloading''"
    using example_download[OF example_good example_rest] by this
  let ?t = "snd (task_tick example_host (new_task_manager 6881 ''t'' 8080) t)"
  have run: "task_run (\<lambda>_. Some (replicate 32 7)) (\<lambda>_. None) t0 (example_steps @ [example_tick]) ?t"
    by (rule task_step[OF x(3)]) simp
  have st: "at_state ?t = ''complete''"
    using x by (simp add: task_tick_fields next_state_def gain_def counted_def example_seed_def example_header_fields example_chunks_def)
  have "verified_in (\<lambda>_. Some (replicate 32 7)) (chunks (at_seed t0)) (at_pipeline t0) (pipe_ops (example_steps @ [example_tick])) 0"
    using complete_means_verified[OF x(1) example_fresh _ run st] example_tiled x(2) by (simp add: example_seed_def example_chunks_def)
  then show ?thesis using x(1) run st by blast
qed

theorem failed_chunk_blocks_witness:
  "\<exists>t0 t1 r. added example_host ''s'' ''f'' (new_task_manager 6881 ''t'' 8080) t0
     \<and> task_run (\<lambda>_. Some (replicate 32 8)) (\<lambda>_. None) t0 example_steps t1
     \<and> r \<in> set (vf_result_queue (pl_verify (at_pipeline t1))) \<and> \<not> vr_passed r
     \<and> at_state (snd (task_tick example_host (new_task_manager 6881 ''t'' 8080) t1)) \<noteq> ''complete''"
proof -
  obtain t0 t r where x: "added example_host ''s'' ''f'' (new_task_manager 6881 ''t'' 8080) t0" "at_seed t0 = example_seed"
    "task_run (\<lambda>_. Some (replicate 32 8)) (\<lambda>_. None) t0 example_steps t"
    "vf_result_queue (pl_verify (at_pipeline t)) = [r]" "vr_passed r = False"
    using example_download[OF example_bad example_rest_bad] by this
  let ?t = "snd (task_tick example_host (new_task_manager 6881 ''t'' 8080) t)"
  have run: "task_run (\<lambda>_. Some (replicate 32 8)) (\<lambda>_. None) t ([] @ [example_tick]) ?t"
    by (rule task_step[OF task_start]) simp
  have "at_state ?t \<noteq> ''complete''"
    by (rule failed_chunk_blocks[OF x(1) example_fresh _ x(3) _ _ run, of r]) (use example_tiled x in simp_all)
  then show ?thesis using x by (intro exI[of _ t0] exI[of _ t] exI[of _ r] conjI) simp_all
qed

theorem waiting_is_final_witness:
  "\<exists>t0 t. at_state t0 = ''waiting'' \<and> task_run (\<lambda>_. None) (\<lambda>_. None) t0 [example_tick] t \<and> at_state t = ''waiting''"
proof -
  obtain t0 where "added example_host ''s'' ''f'' (new_task_manager 6881 ''t'' 8080) t0" using example_added by this
  let ?s = "t0\<lparr>at_state := ''waiting''\<rparr>"
  let ?t = "snd (task_tick example_host (new_task_manager 6881 ''t'' 8080) ?s)"
  have run: "task_run (\<lambda>_. None) (\<lambda>_. None) ?s ([] @ [example_tick]) ?t"
    by (rule task_step[OF task_start[of _ _ ?s]]) simp
  have "at_state ?s = ''waiting'' \<and> task_run (\<lambda>_. None) (\<lambda>_. None) ?s [example_tick] ?t \<and> at_state ?t = ''waiting''"
    using waiting_is_final[OF run] run by simp
  then show ?thesis by blast
qed

lemma example_honest:
  "honest_setup (\<lambda>_. Some (replicate 32 7)) example_chunks (\<lambda>_. [1, 2, 3]) (\<lambda>_. 100) example_assemblers"
  by (simp add: honest_setup_def example_chunks_def example_assemblers_def apart_def assembler_init_def SUB_BLOCK_SIZE_def Let_def)

lemma example_pieces:
  "all_honest (\<lambda>_. [1, 2, 3]) example_assemblers (example_pools [1, 2, 3])"
  "\<forall>i < length example_chunks. fully_sent example_assemblers (example_pools [1, 2, 3]) i"
  by (auto simp: all_honest_def example_pools_def honest_task_def example_assemblers_def genuine_piece_def fully_sent_def example_chunks_def
      assembler_init_def SUB_BLOCK_SIZE_def Let_def slot_of_def)

definition worker_codes :: "pipeline \<Rightarrow> bool" where
  "worker_codes p \<longleftrightarrow> list_all (\<lambda>q. q = []) (io_queues (pl_io p)) \<and> list_all (\<lambda>w. case w of Io_test \<Rightarrow> True | Io_poll \<Rightarrow> True | _ \<Rightarrow> False) (io_workers (pl_io p))
     \<and> length (vf_task_queue (pl_verify p)) = 0 \<and> list_all (\<lambda>w. case w of Vf_test \<Rightarrow> True | Vf_poll \<Rightarrow> True | _ \<Rightarrow> False) (vf_workers (pl_verify p))"

lemma worker_codes_idle: "worker_codes p \<Longrightarrow> idle p"
  by (auto simp: worker_codes_def idle_def list_all_iff split: io_worker.splits verify_worker.splits)
    (metis io_worker.exhaust, metis verify_worker.exhaust)

lemma example_idle: "map_option (\<lambda>(p, rs). worker_codes p) (example_end (replicate 32 7) [1, 2, 3]) = Some True"
  by code_simp

theorem download_completes_witness:
  "\<exists>t0 t. added example_host ''s'' ''f'' (new_task_manager 6881 ''t'' 8080) t0
     \<and> task_run (\<lambda>_. Some (replicate 32 7)) (\<lambda>_. None) t0 example_steps t
     \<and> at_state (snd (task_tick example_host (new_task_manager 6881 ''t'' 8080) t)) = ''complete''
     \<and> read_mem (pl_mem (at_pipeline t)) 100 3 = [1, 2, 3]"
proof -
  obtain t0 t where x: "added example_host ''s'' ''f'' (new_task_manager 6881 ''t'' 8080) t0" "at_seed t0 = example_seed"
    "at_pipeline t0 = example_start" "task_run (\<lambda>_. Some (replicate 32 7)) (\<lambda>_. None) t0 example_steps t" "at_state t = ''downloading''"
    "example_end (replicate 32 7) [1, 2, 3] = Some (at_pipeline t, [])"
    using example_download[OF example_good example_rest] by this
  have a: "pl_assemblers (at_pipeline t0) = example_assemblers" "chunks (at_seed t0) = example_chunks"
    by (simp_all add: x example_start_def start_pipeline_def example_seed_def)
  have tl: "tiled 0 (unat (file_size (header (at_seed t0)))) (chunks (at_seed t0))" using example_tiled x(2) by simp
  have i: "idle (at_pipeline t)" using example_idle x(6) worker_codes_idle by simp
  have "at_state (snd (task_tick example_host (new_task_manager 6881 ''t'' 8080) t)) = ''complete''
     \<and> (\<forall>i < length (chunks (at_seed t0)). read_mem (pl_mem (at_pipeline t)) 100 (length [1 :: u8, 2, 3]) = [1, 2, 3])"
    by (rule download_completes[OF x(1) example_fresh tl _ x(4) _ i])
      (use example_honest example_pieces x(5) in \<open>simp_all add: a example_pipe_ops\<close>)
  then show ?thesis using x(1,4) a by (auto simp: example_chunks_def numeral_3_eq_3)
qed

end
