(* ===== verification/Reuse.thy ===== *)
theory Reuse
  imports Downloads
begin

text \<open>
  What a task may keep of a file that is already there: the resumption of \<open>cmd_add\<close> and the incremental
  update of \<open>cmd_update\<close>. In both, a chunk counts as held from the start only if the bytes at its place in
  the output file have its digest, and the bytes counted and the scheduler's chunk states agree with the
  bitfield offered to peers.
\<close>

section \<open>Scanned and indexed chunks\<close>

lemma index_chunks_mem: "c \<in> set (index_chunks cs key) \<longleftrightarrow> c \<in> set cs \<and> ce_sha256 c = key"
proof -
  have "c \<in> set (fold (\<lambda>c index. index(ce_sha256 c := index (ce_sha256 c) @ [c])) cs index key)
      \<longleftrightarrow> c \<in> set (index key) \<or> c \<in> set cs \<and> ce_sha256 c = key" for index
    by (induction cs arbitrary: index) (auto simp: fun_upd_def)
  then show ?thesis by (simp add: index_chunks_def)
qed

lemma tiled_range: "tiled start stop cs \<Longrightarrow> c \<in> set cs \<Longrightarrow> start \<le> unat (ce_offset c) \<and> unat (ce_offset c) + unat (ce_length c) \<le> stop"
proof (induction cs arbitrary: start)
  case (Cons x cs)
  then have "tiled (start + unat (ce_length x)) stop cs" by simp
  moreover from this have "start + unat (ce_length x) \<le> stop" by (metis tiled_lengths le_add1)
  ultimately show ?case using Cons by fastforce
qed simp

lemma scan_path_facts:
  assumes "c \<in> set (scan_path h content cfg)" "length (the content) < 2 ^ 64"
  shows "\<exists>data. content = Some data \<and> ce_sha256 c = h_sha256 h (chunk_bytes data c)
    \<and> unat (ce_offset c) + unat (ce_length c) \<le> length data"
proof -
  obtain data where d: "content = Some data" "c \<in> set (fastcdc_scan_buffer (h_sha256 h) data cfg)"
    using assms(1) by (auto simp: scan_path_def fastcdc_scan_file_def split: if_splits option.splits)
  then have "length data < 2 ^ 64" using assms(2) by simp
  note scan = scan_buffer_lemmas(1,2)[OF this]
  have "c \<in> set (scan_loop (h_sha256 h) (start_state data cfg) 0 0 0)" using d(2) by (simp only: scan_buffer_loop)
  then show ?thesis using d(1) scan(1)[of cfg "h_sha256 h" 0] scan(2)[of "h_sha256 h" cfg 0]
      tiled_range[of 0 "length data" "scan_loop (h_sha256 h) (start_state data cfg) 0 0 0" c] by auto
qed

section \<open>The state a download starts in\<close>

lemma states_mark_fold:
  "length (chunk_states s) = length bf \<Longrightarrow> set is \<subseteq> {..<length bf} \<Longrightarrow>
   chunk_states (fold (mark_one bf) is s) = map (\<lambda>i. if i \<in> set is \<and> bf ! i then COMPLETE else chunk_states s ! i) [0..<length bf]"
proof (induction "is" arbitrary: s)
  case Nil
  then show ?case by (simp add: map_nth[symmetric] del: map_nth) (metis map_nth)
next
  case (Cons i "is")
  have st: "chunk_states (mark_one bf i s) = (if bf ! i then (chunk_states s)[i := COMPLETE] else chunk_states s)"
    by (auto simp: mark_one_def Let_def list_update_same_conv) (metis list_update_id)
  have "length (chunk_states (mark_one bf i s)) = length bf" using Cons.prems(1) by (simp add: st)
  then show ?case using Cons.IH[of "mark_one bf i s"] Cons.prems by (auto simp: st nth_list_update)
qed

lemma states_set_sizes: "chunk_states (set_chunk_sizes sizes s) = chunk_states s"
proof -
  have "chunk_states (assign_sizes zs i s) = chunk_states s" for zs i s
    by (induction zs i s rule: assign_sizes.induct) (simp_all add: Let_def)
  then show ?thesis by (simp add: set_chunk_sizes_def Let_def)
qed

lemma download_states:
  assumes "length bf = unat (chunk_count (header seed))"
  shows "chunk_states (download_scheduler shuf seed speed some_done bf new_scheduler)
     = map (\<lambda>b. if b \<and> some_done then COMPLETE else MISSING) bf"
proof -
  let ?s = "randomize_piece_order shuf (set_chunk_sizes (map ce_length (chunks seed)) (init_scheduler (length bf) speed new_scheduler))"
  have st: "chunk_states ?s = replicate (length bf) MISSING"
    by (simp add: randomize_piece_order_def states_set_sizes init_scheduler_def)
  have "chunk_states (fold (mark_one bf) [0..<length bf] ?s) = map (\<lambda>i. if bf ! i then COMPLETE else MISSING) [0..<length bf]"
    using states_mark_fold[of ?s bf "[0..<length bf]"] st by (simp add: atLeast0LessThan)
  also have "\<dots> = map (\<lambda>b. if b then COMPLETE else MISSING) bf" by (rule nth_equalityI) simp_all
  finally have "chunk_states (mark_all_complete bf ?s) = map (\<lambda>b. if b then COMPLETE else MISSING) bf"
    using st by (simp add: mark_all_complete_def Let_def)
  then show ?thesis using st assms
    by (auto simp: download_scheduler_def Let_def set_cancel_issuer_def set_not_interested_issuer_def map_replicate_const)
qed

section \<open>Resuming\<close>

definition resumable :: "(bytes \<Rightarrow> ChunkEntry list) \<Rightarrow> ChunkEntry \<Rightarrow> bool" where
  "resumable index want \<longleftrightarrow> (\<exists>have \<in> set (index (ce_sha256 want)). ce_offset have = ce_offset want \<and> ce_length have = ce_length want)"

lemma resume_fold:
  "fold (resume_step index) cs (bf, bytes) =
     (bf @ map (resumable index) cs, bytes + sum_list (map (\<lambda>c. ucast (ce_length c)) (filter (resumable index) cs)))"
  by (induction cs arbitrary: bf bytes) (simp_all add: resume_step_def resumable_def[symmetric] add.assoc)

lemma resumable_sound:
  assumes "resumable (index_chunks (scan_path h content cfg)) want" "length (the content) < 2 ^ 64"
  shows "h_sha256 h (chunk_bytes (the content) want) = ce_sha256 want"
proof -
  obtain c where c: "c \<in> set (scan_path h content cfg)" "ce_sha256 c = ce_sha256 want" "ce_offset c = ce_offset want" "ce_length c = ce_length want"
    using assms(1) by (auto simp: resumable_def index_chunks_mem)
  then show ?thesis using scan_path_facts[OF c(1) assms(2)] by (auto simp: chunk_bytes_def)
qed

text \<open>The bytes of the chunks a bitfield marks.\<close>

definition held_bytes :: "TSeedFile \<Rightarrow> bool list \<Rightarrow> nat" where
  "held_bytes seed bf = (\<Sum>i | i < length bf \<and> bf ! i. chunk_len seed i)"

definition marked_sum :: "ChunkEntry list \<Rightarrow> bool list \<Rightarrow> u64" where
  "marked_sum cs bf = sum_list (map2 (\<lambda>c b. if b then ucast (ce_length c) else 0) cs bf)"

lemma marked_sum_filter: "sum_list (map (\<lambda>c. ucast (ce_length c)) (filter P cs)) = marked_sum cs (map P cs)"
  by (induction cs) (simp_all add: marked_sum_def)

lemma marked_sum_snoc: "length cs = length bf \<Longrightarrow> marked_sum (cs @ [c]) (bf @ [b]) = marked_sum cs bf + (if b then ucast (ce_length c) else 0)"
  by (simp add: marked_sum_def)

lemma marked_bytes:
  assumes w: "whole_seed seed" and l: "length bf = length (chunks seed)"
  shows "unat (marked_sum (chunks seed) bf) = held_bytes seed bf"
    and "held_bytes seed bf = 0 \<longleftrightarrow> True \<notin> set bf"
proof -
  let ?ws = "map2 (\<lambda>c b. if b then ucast (ce_length c) else 0 :: u64) (chunks seed) bf"
  note len = widen_u32
  have "sum_list (map unat ?ws) = (\<Sum>i<length bf. if bf ! i then chunk_len seed i else 0)"
    by (subst sum_list_sum_nth) (auto simp: l atLeast0LessThan chunk_len_def len intro!: sum.cong)
  also have "\<dots> = held_bytes seed bf"
    unfolding held_bytes_def by (subst sum.If_cases) (auto intro: sum.cong simp: Int_def)
  finally have eq: "sum_list (map unat ?ws) = held_bytes seed bf" .
  have "held_bytes seed bf \<le> unat (file_size (header seed))"
    unfolding whole_seed_sum[OF w] held_bytes_def by (rule sum_mono2) (auto simp: l)
  then have "held_bytes seed bf < 2 ^ 64" using unsigned_less[of "file_size (header seed)", where ?'a = nat] by simp
  then show "unat (marked_sum (chunks seed) bf) = held_bytes seed bf"
    using unat_sum_list[of ?ws] eq by (simp add: marked_sum_def)
  have "0 < chunk_len seed i" if "i < length bf" for i
    using tiled_positive[of 0 _ "chunks seed" i] w l that by (auto simp: whole_seed_def chunk_len_def)
  then show "held_bytes seed bf = 0 \<longleftrightarrow> True \<notin> set bf"
    unfolding held_bytes_def by (fastforce simp: in_set_conv_nth)
qed


section \<open>Copying ranges\<close>

lemma write_at_facts:
  assumes "off + length data \<le> length content"
  shows "length (write_at off data content) = length content" "take off (write_at off data content) = take off content"
    "take (length data) (drop off (write_at off data content)) = data"
  using assms by (simp_all add: write_at_def)

lemma take_mono_eq: "take n xs = take n ys \<Longrightarrow> m \<le> n \<Longrightarrow> take m xs = take m ys"
  by (metis min.absorb1 take_take)

lemma chunk_bytes_prefix:
  assumes "take n xs = take n ys" "unat (ce_offset c) + unat (ce_length c) \<le> n"
  shows "chunk_bytes xs c = chunk_bytes ys c"
proof -
  have "chunk_bytes zs c = drop (unat (ce_offset c)) (take (unat (ce_offset c) + unat (ce_length c)) zs)" for zs
    by (simp add: chunk_bytes_def drop_take)
  then show ?thesis using take_mono_eq[OF assms] by simp
qed

text \<open>\<open>copy_file_range\<close> copies at most what it was asked for.\<close>

definition copy_bounded :: "(u64 \<Rightarrow> u64 \<Rightarrow> u64 \<Rightarrow> int) \<Rightarrow> bool" where
  "copy_bounded cfr \<longleftrightarrow> (\<forall>a b n. cfr a b n \<le> int (unat n))"

text \<open>What an attempt to copy a chunk may do: the output keeps its length and all bytes before the chunk,
  and on success has the chunk's digest in its place.\<close>

definition copied :: "host \<Rightarrow> string \<Rightarrow> ChunkEntry \<Rightarrow> bool \<Rightarrow> bytes \<Rightarrow> files \<Rightarrow> files \<Rightarrow> bool" where
  "copied h dst want ok new fs fs' \<longleftrightarrow> (\<exists>new'. fs' = fs(dst \<mapsto> new') \<and> length new' = length new
     \<and> take (unat (ce_offset want)) new' = take (unat (ce_offset want)) new
     \<and> (ok \<longrightarrow> h_sha256 h (chunk_bytes new' want) = ce_sha256 want))"

lemma clone_copied:
  assumes "fs src = Some old" "fs dst = Some new" "copy_bounded cfr"
    and "unat (ce_offset cand) + unat (ce_length cand) \<le> length old" "h_sha256 h (chunk_bytes old cand) = ce_sha256 want"
    and "ce_length cand = ce_length want" "unat (ce_offset want) + unat (ce_length want) \<le> length new"
    and "clone_range cfr src (ce_offset cand) dst (ce_offset want) (ucast (ce_length want)) fs = (ok, fs')"
  shows "copied h dst want ok new fs fs'"
proof -
  note len = widen_u32
  let ?n = "cfr (ce_offset cand) (ce_offset want) (ucast (ce_length want))"
  let ?data = "take (nat ?n) (drop (unat (ce_offset cand)) old)"
  have n: "?n \<le> int (unat (ce_length want))" using assms(3) by (metis copy_bounded_def len)
  have fs': "fs' = fs(dst \<mapsto> write_at (unat (ce_offset want)) ?data new)" "ok = (?n = int (unat (ce_length want)))"
    using assms(1,2,8) by (auto simp: clone_range_def Let_def len)
  have "nat ?n \<le> unat (ce_length want)" using n by linarith
  then have l: "length ?data \<le> unat (ce_length want)" unfolding length_take by (rule min.coboundedI2)
  have "unat (ce_offset want) + length ?data \<le> length new" using l assms(7) by linarith
  note w = write_at_facts[OF this]
  have "h_sha256 h (chunk_bytes (write_at (unat (ce_offset want)) ?data new) want) = ce_sha256 want" if ok
  proof -
    have "?data = chunk_bytes old cand" "length ?data = unat (ce_length want)"
      using that assms(4,6) by (simp_all add: fs'(2) chunk_bytes_def)
    then show ?thesis using w(3) assms(5) by (simp add: chunk_bytes_def)
  qed
  then show ?thesis unfolding copied_def using fs'(1) w(1,2) by blast
qed

lemma copied_trans:
  assumes "copied h dst want False new fs fs1" "copied h dst want ok (the (fs1 dst)) fs1 fs2"
  shows "copied h dst want ok new fs fs2"
  using assms by (auto simp: copied_def)

lemma try_copied:
  assumes "try_candidates cfr src dst want cands fs = (ok, rest, fs')" "src \<noteq> dst" "fs src = Some old" "fs dst = Some new" "copy_bounded cfr"
    and "\<forall>c \<in> set cands. unat (ce_offset c) + unat (ce_length c) \<le> length old \<and> h_sha256 h (chunk_bytes old c) = ce_sha256 want"
    and "unat (ce_offset want) + unat (ce_length want) \<le> length new"
  shows "copied h dst want ok new fs fs' \<and> set rest \<subseteq> set cands"
  using assms
proof (induction cands arbitrary: fs new ok rest)
  case Nil
  then have "fs = fs(dst \<mapsto> new)" by (simp add: fun_upd_idem)
  then show ?case using Nil unfolding copied_def by auto
next
  case (Cons cand cands)
  show ?case
  proof (cases "ce_length cand = ce_length want")
    case False
    then obtain rest' where "try_candidates cfr src dst want cands fs = (ok, rest', fs')" "rest = cand # rest'"
      using Cons.prems(1) by (auto split: prod.splits)
    then show ?thesis using Cons.IH[of fs ok rest' new] Cons.prems by auto
  next
    case True
    obtain ok1 fs1 where c: "clone_range cfr src (ce_offset cand) dst (ce_offset want) (ucast (ce_length want)) fs = (ok1, fs1)" by fastforce
    have cp: "copied h dst want ok1 new fs fs1" using clone_copied[OF Cons.prems(3,4,5) _ _ True _ c] Cons.prems(6,7) by simp
    show ?thesis
    proof (cases ok1)
      case True
      then show ?thesis using Cons.prems(1) c cp \<open>ce_length cand = ce_length want\<close> by auto
    next
      case False
      then obtain rest' where r: "try_candidates cfr src dst want cands fs1 = (ok, rest', fs')" "rest = cand # rest'"
        using Cons.prems(1) c True by (auto split: prod.splits)
      obtain new1 where n1: "fs1 = fs(dst \<mapsto> new1)" "length new1 = length new" using cp by (auto simp: copied_def)
      have "copied h dst want ok new1 fs1 fs' \<and> set rest' \<subseteq> set cands"
        by (rule Cons.IH[OF r(1)]) (use Cons.prems n1 in auto)
      then show ?thesis using copied_trans[of h dst want new fs fs1 ok fs'] cp False n1 r(2) by auto
    qed
  qed
qed

section \<open>Updating\<close>

lemma tiled_append: "tiled s e (xs @ ys) \<longleftrightarrow> (\<exists>m. tiled s m xs \<and> tiled m e ys)"
  by (induction xs arbitrary: s) auto

lemma tiled_before: "tiled s e (xs @ c # ys) \<Longrightarrow> x \<in> set xs \<Longrightarrow> unat (ce_offset x) + unat (ce_length x) \<le> unat (ce_offset c)"
  using tiled_range by (auto simp: tiled_append)

definition clone_inv :: "host \<Rightarrow> string \<Rightarrow> string \<Rightarrow> bytes \<Rightarrow> nat \<Rightarrow> files \<Rightarrow> ChunkEntry list \<Rightarrow> clone_state \<Rightarrow> bool" where
  "clone_inv h src dst old n fs0 cs st \<longleftrightarrow> length (cl_bitfield st) = length cs
     \<and> cl_matched_bytes st = marked_sum cs (cl_bitfield st) \<and> cl_matched st = of_nat (length (filter id (cl_bitfield st)))
     \<and> (\<forall>key. \<forall>c \<in> set (cl_index st key). unat (ce_offset c) + unat (ce_length c) \<le> length old \<and> h_sha256 h (chunk_bytes old c) = key)
     \<and> (\<exists>new. cl_files st = fs0(dst \<mapsto> new) \<and> length new = n
          \<and> (\<forall>i < length cs. cl_bitfield st ! i \<longrightarrow> h_sha256 h (chunk_bytes new (cs ! i)) = ce_sha256 (cs ! i)))"

lemma clone_step_inv:
  assumes inv: "clone_inv h src dst old n fs0 cs st" and tl: "tiled 0 n (cs @ want # rest)"
    and "src \<noteq> dst" "fs0 src = Some old" "copy_bounded cfr"
  shows "clone_inv h src dst old n fs0 (cs @ [want]) (clone_step cfr old_open src dst want st)"
proof (cases old_open)
  case False
  then show ?thesis using inv by (auto simp: clone_inv_def clone_step_def marked_sum_snoc nth_append)
next
  case True
  obtain ok left fs where t: "try_candidates cfr src dst want (cl_index st (ce_sha256 want)) (cl_files st) = (ok, left, fs)"
    by (metis prod_cases3)
  obtain new where new: "cl_files st = fs0(dst \<mapsto> new)" "length new = n"
      "\<forall>i < length cs. cl_bitfield st ! i \<longrightarrow> h_sha256 h (chunk_bytes new (cs ! i)) = ce_sha256 (cs ! i)"
    using inv by (auto simp: clone_inv_def)
  have "unat (ce_offset want) + unat (ce_length want) \<le> length new" using tiled_range[OF tl, of want] new(2) by simp
  then have cp: "copied h dst want ok new (cl_files st) fs \<and> set left \<subseteq> set (cl_index st (ce_sha256 want))"
    by (intro try_copied[OF t assms(3) _ _ assms(5)]) (use new inv assms(3,4) in \<open>auto simp: clone_inv_def\<close>)
  then obtain new' where n': "fs = fs0(dst \<mapsto> new')" "length new' = n" "take (unat (ce_offset want)) new' = take (unat (ce_offset want)) new"
      "ok \<longrightarrow> h_sha256 h (chunk_bytes new' want) = ce_sha256 want"
    using new by (auto simp: copied_def)
  have "chunk_bytes new' (cs ! i) = chunk_bytes new (cs ! i)" if "i < length cs" for i
    by (rule chunk_bytes_prefix[OF n'(3)]) (use tiled_before[OF tl] that in simp)
  then have held: "\<forall>i < length (cs @ [want]). (cl_bitfield st @ [ok]) ! i \<longrightarrow> h_sha256 h (chunk_bytes new' ((cs @ [want]) ! i)) = ce_sha256 ((cs @ [want]) ! i)"
    using new(3) n'(4) inv by (auto simp: nth_append clone_inv_def less_Suc_eq)
  have st': "clone_step cfr old_open src dst want st = st\<lparr>cl_index := (cl_index st)(ce_sha256 want := left), cl_bitfield := cl_bitfield st @ [ok],
      cl_matched := (if ok then cl_matched st + 1 else cl_matched st),
      cl_matched_bytes := (if ok then cl_matched_bytes st + ucast (ce_length want) else cl_matched_bytes st), cl_files := fs\<rparr>"
    using True t by (simp add: clone_step_def)
  have ex: "\<exists>new. fs = fs0(dst \<mapsto> new) \<and> length new = n
      \<and> (\<forall>i < length (cs @ [want]). (cl_bitfield st @ [ok]) ! i \<longrightarrow> h_sha256 h (chunk_bytes new ((cs @ [want]) ! i)) = ce_sha256 ((cs @ [want]) ! i))"
    using n' held by blast
  have "length (cl_bitfield st @ [ok]) = length (cs @ [want])" using inv by (simp add: clone_inv_def)
  moreover have "\<forall>key. \<forall>c \<in> set (((cl_index st)(ce_sha256 want := left)) key).
      unat (ce_offset c) + unat (ce_length c) \<le> length old \<and> h_sha256 h (chunk_bytes old c) = key"
    using inv cp by (auto simp: clone_inv_def)
  ultimately show ?thesis using inv ex by (simp add: clone_inv_def st' marked_sum_snoc)
qed

lemma clone_fold_inv:
  assumes "clone_inv h src dst old n fs0 cs st" "tiled 0 n (cs @ ws)" "src \<noteq> dst" "fs0 src = Some old" "copy_bounded cfr"
  shows "clone_inv h src dst old n fs0 (cs @ ws) (fold (clone_step cfr old_open src dst) ws st)"
  using assms(1,2)
proof (induction ws arbitrary: cs st)
  case (Cons w ws)
  show ?case using Cons.IH[OF clone_step_inv[OF Cons.prems assms(3-5), of old_open]] Cons.prems(2) by simp
qed simp

lemma clone_chunks_inv:
  assumes "fs src = Some old" "fs dst = Some new" "length old < 2 ^ 64" "tiled 0 (length new) ws" "src \<noteq> dst" "copy_bounded cfr"
    and "set old_chunks \<subseteq> set (scan_path h (Some old) cfg)"
  shows "clone_inv h src dst old (length new) fs ws (clone_chunks cfr old_open src dst old_chunks ws fs)"
proof -
  have "clone_inv h src dst old (length new) fs []
      \<lparr>cl_index = index_chunks old_chunks, cl_bitfield = [], cl_matched = 0, cl_matched_bytes = 0, cl_files = fs\<rparr>"
    using assms(2,3,7) scan_path_facts[of _ h "Some old" cfg]
    by (fastforce simp: clone_inv_def marked_sum_def index_chunks_mem fun_upd_idem)
  from clone_fold_inv[OF this _ assms(5,1,6)] show ?thesis using assms(4) by (simp add: clone_chunks_def)
qed

definition updated :: "host \<Rightarrow> string \<Rightarrow> string \<Rightarrow> string \<Rightarrow> string \<Rightarrow> TaskManager \<Rightarrow> ActiveTask \<Rightarrow> bool" where
  "updated h new_seed new_file old_seed old_file tm t \<longleftrightarrow> (let tid = gen_task_id (h_random h) in
     map_of (tm_tasks tm) tid = None \<and> map_of (tm_tasks (snd (snd (cmd_update h new_seed new_file old_seed old_file tm)))) tid = Some t)"

lemma updated_task:
  assumes "updated h new_seed new_file old_seed old_file tm t"
  obtains seed w content st pm where
    "read_tseed (pf_order (h_platform h)) (h_sha1 h) (h_file h new_seed) = Inr seed"
    "open_output h new_file seed = (True, w, content)"
    "st = clone_chunks (h_copy_file_range h) (old_file_chunks h old_seed old_file \<noteq> None \<and> h_open_rdonly h old_file \<ge> 0)
        old_file new_file (case old_file_chunks h old_seed old_file of None \<Rightarrow> [] | Some cs \<Rightarrow> cs) (chunks seed) ((h_file h)(new_file := content))"
    "fst (snd (cmd_update h new_seed new_file old_seed old_file tm)) = cl_files st"
    "pm = task_peer_manager h tm seed (detect_link_speed_mbps (h_ifaddrs h) (h_speed_file h)) (cl_bitfield st)"
    "at_seed t = seed" "at_bytes_done t = cl_matched_bytes st"
    "at_peer_mgr t = pm\<lparr>pm_sched := download_scheduler (h_piece_shuffle h) seed (detect_link_speed_mbps (h_ifaddrs h) (h_speed_file h))
                 (cl_matched st > 0) (cl_bitfield st) (pm_sched pm)\<rparr>"
proof -
  let ?tid = "gen_task_id (h_random h)" and ?run = "cmd_update h new_seed new_file old_seed old_file tm"
  have none: "map_of (tm_tasks tm) ?tid = None" and some: "map_of (tm_tasks (snd (snd ?run))) ?tid = Some t"
    using assms by (simp_all add: updated_def Let_def)
  obtain seed where seed: "read_tseed (pf_order (h_platform h)) (h_sha1 h) (h_file h new_seed) = Inr seed"
    using none some by (cases "read_tseed (pf_order (h_platform h)) (h_sha1 h) (h_file h new_seed)") (simp_all add: cmd_update_def)
  obtain ok w content where out: "open_output h new_file seed = (ok, w, content)" by (cases "open_output h new_file seed")
  have ok using none some by (rule_tac ccontr) (simp add: cmd_update_def seed out)
  with out have out': "open_output h new_file seed = (True, w, content)" by simp
  obtain asms' w' where ia: "init_assemblers (h_mmap h) (chunks seed) w = (asms', w')" by (cases "init_assemblers (h_mmap h) (chunks seed) w")
  obtain asms where asms: "asms' = Some asms" using none some
    by (cases asms') (simp_all add: cmd_update_def seed out' ia)
  have bind: "h_bind_ok h" using none some
    by (rule_tac ccontr) (simp add: cmd_update_def seed out' ia asms Let_def split: prod.splits)
  define st where "st = clone_chunks (h_copy_file_range h) (old_file_chunks h old_seed old_file \<noteq> None \<and> h_open_rdonly h old_file \<ge> 0)
        old_file new_file (case old_file_chunks h old_seed old_file of None \<Rightarrow> [] | Some cs \<Rightarrow> cs) (chunks seed) ((h_file h)(new_file := content))"
  let ?speed = "detect_link_speed_mbps (h_ifaddrs h) (h_speed_file h)"
  let ?pm = "task_peer_manager h tm seed ?speed (cl_bitfield st)"
  let ?t = "(new_task h ?tid seed new_file new_seed (start_pipeline (io_threads (h_cores h)) (h_cores h) asms (h_memory h))
         (?pm\<lparr>pm_sched := download_scheduler (h_piece_shuffle h) seed ?speed (cl_matched st > 0) (cl_bitfield st) (pm_sched ?pm)\<rparr>))
         \<lparr>at_writer := Some w', at_bytes_done := cl_matched_bytes st\<rparr>"
  have fs: "fst (snd ?run) = cl_files st"
    by (simp add: cmd_update_def seed out' ia asms bind Let_def st_def split: prod.split)
  have "snd (snd ?run) = snd (store_task h ?t (task_json ?tid ('','' @ quoted ''chunk_count'' @ '':'' @ show_nat (unat (chunk_count (header seed)))
      @ '','' @ quoted ''matched'' @ '':'' @ show_nat (unat (cl_matched st)))) tm)"
    by (simp add: cmd_update_def seed out' ia asms bind Let_def st_def split: prod.split)
  then have "t = snd (announce_task_now h tm ?t)" using some by (simp only: store_task_map) (simp add: new_task_def)
  then have "at_seed t = seed" "at_bytes_done t = cl_matched_bytes st"
      "at_peer_mgr t = ?pm\<lparr>pm_sched := download_scheduler (h_piece_shuffle h) seed ?speed (cl_matched st > 0) (cl_bitfield st) (pm_sched ?pm)\<rparr>"
    by (simp_all add: new_task_def announce_task_now_def Let_def)
  then show ?thesis using that[OF seed out' st_def fs refl] by blast
qed

lemma open_output_length:
  assumes "open_output h path seed = (True, w, content)" "\<forall>data. h_file h path = Some data \<longrightarrow> length data < 2 ^ 64"
  shows "\<exists>data. content = Some data \<and> length data = unat (file_size (header seed))"
  using assms
  by (auto simp: open_output_def segment_open_def Let_def unsigned_of_nat take_bit_nat_eq_self dest: sym split: if_splits option.splits)

text \<open>C4. An incremental update is sound. When the old file is not the output file, a chunk of the new
  version is treated as held only if the bytes at its place in the output file have its digest, also
  when copies fail half way; the bytes counted and the scheduler's complete chunks are exactly these;
  and the old file is left as it was.\<close>

theorem update_sound:
  fixes h new_seed new_file old_seed old_file tm t
  defines "bf \<equiv> pm_initial_bitfield (at_peer_mgr t)" and "cs \<equiv> chunks (at_seed t)"
    and "files \<equiv> fst (snd (cmd_update h new_seed new_file old_seed old_file tm))"
  assumes up: "updated h new_seed new_file old_seed old_file tm t" and ne: "old_file \<noteq> new_file"
    and old: "h_file h old_file = Some old" "length old < 2 ^ 64"
    and new: "\<forall>data. h_file h new_file = Some data \<longrightarrow> length data < 2 ^ 64"
    and cfr: "copy_bounded (h_copy_file_range h)" and seed: "tiled 0 (unat (file_size (header (at_seed t)))) cs"
  shows "length bf = length cs \<and> unat (at_bytes_done t) = held_bytes (at_seed t) bf
    \<and> (\<forall>i < length cs. bf ! i \<longrightarrow> h_sha256 h (chunk_bytes (the (files new_file)) (cs ! i)) = ce_sha256 (cs ! i))
    \<and> (\<forall>i < length cs. chunk_states (pm_sched (at_peer_mgr t)) ! i = (if bf ! i then COMPLETE else MISSING))
    \<and> files old_file = Some old"
proof -
  obtain sd w content st pm where x:
    "read_tseed (pf_order (h_platform h)) (h_sha1 h) (h_file h new_seed) = Inr sd"
    "open_output h new_file sd = (True, w, content)"
    "st = clone_chunks (h_copy_file_range h) (old_file_chunks h old_seed old_file \<noteq> None \<and> h_open_rdonly h old_file \<ge> 0)
        old_file new_file (case old_file_chunks h old_seed old_file of None \<Rightarrow> [] | Some cs \<Rightarrow> cs) (chunks sd) ((h_file h)(new_file := content))"
    "fst (snd (cmd_update h new_seed new_file old_seed old_file tm)) = cl_files st"
    "pm = task_peer_manager h tm sd (detect_link_speed_mbps (h_ifaddrs h) (h_speed_file h)) (cl_bitfield st)"
    "at_seed t = sd" "at_bytes_done t = cl_matched_bytes st"
    "at_peer_mgr t = pm\<lparr>pm_sched := download_scheduler (h_piece_shuffle h) sd (detect_link_speed_mbps (h_ifaddrs h) (h_speed_file h))
                 (cl_matched st > 0) (cl_bitfield st) (pm_sched pm)\<rparr>"
    using updated_task[OF up] .
  have n: "length cs = unat (chunk_count (header sd))" using read_tseed_chunks[OF x(1)] x(6) by (simp add: cs_def)
  have w: "whole_seed (at_seed t)" using seed n x(6) by (simp add: whole_seed_def cs_def)
  obtain data where data: "content = Some data" "length data = unat (file_size (header sd))" using open_output_length[OF x(2) new] by blast
  obtain cfg where scan: "set (case old_file_chunks h old_seed old_file of None \<Rightarrow> [] | Some cs \<Rightarrow> cs) \<subseteq> set (scan_path h (Some old) cfg)"
    using old(1) by (fastforce simp: old_file_chunks_def split: if_splits sum.splits)
  have inv: "clone_inv h old_file new_file old (length data) ((h_file h)(new_file := content)) cs st"
    unfolding x(3) cs_def x(6) by (rule clone_chunks_inv[OF _ _ old(2) _ ne cfr scan]) (use old data ne seed x(6) in \<open>simp_all add: cs_def\<close>)
  have bf: "bf = cl_bitfield st" by (simp add: bf_def x(5,8) task_peer_manager_def)
  have l: "length bf = length cs" and b: "at_bytes_done t = marked_sum (chunks (at_seed t)) bf"
      and m: "cl_matched st = of_nat (length (filter id bf))"
    using inv bf x(7) by (simp_all add: clone_inv_def cs_def)
  have "length (filter id bf) < 2 ^ 32"
    using length_filter_le[of id bf] l n unat_u32_less[of "chunk_count (header sd)"] by linarith
  then have "0 < cl_matched st \<longleftrightarrow> True \<in> set bf"
    by (simp add: m word_less_nat_alt unsigned_of_nat take_bit_nat_eq_self filter_empty_conv) (metis (full_types))
  moreover have "chunk_states (pm_sched (at_peer_mgr t)) = map (\<lambda>b. if b \<and> 0 < cl_matched st then COMPLETE else MISSING) bf"
    using download_states[of bf sd] l n by (simp add: x(8) bf[symmetric] x(5) task_peer_manager_def new_peer_manager_def)
  ultimately have "\<forall>i < length cs. chunk_states (pm_sched (at_peer_mgr t)) ! i = (if bf ! i then COMPLETE else MISSING)"
    using l by (auto simp: in_set_conv_nth)
  moreover have "unat (at_bytes_done t) = held_bytes (at_seed t) bf" unfolding b by (rule marked_bytes[OF w]) (simp add: l cs_def)
  ultimately show ?thesis using inv l ne old(1) by (auto simp: clone_inv_def files_def x(4) bf)
qed

section \<open>Concrete cases\<close>

definition reuse_header :: TSeedHeader where
  "reuse_header = seed_header (\<lambda>_. replicate 32 5) [1, 2, 3] ''f'' ''u'' example_chunks 100 4096 3"

definition reuse_seed :: TSeedFile where
  "reuse_seed = \<lparr>header = reuse_header, file_name = ''f'', announce_url = ''u'', chunks = example_chunks, info_hash = []\<rparr>"

definition reuse_host :: host where
  "reuse_host = example_host\<lparr>h_file := (\<lambda>p. if p = ''s'' then Some (seed_file reuse_header ''f'' ''u'' example_chunks)
     else if p = ''f'' then Some [1, 2, 3] else None)\<rparr>"

lemma reuse_header_fields:
  "wf_header reuse_header" "magic reuse_header = MAGIC" "version reuse_header = 1" "chunk_count reuse_header = 1"
  "file_size reuse_header = 3" "file_name_len reuse_header = 1" "announce_len reuse_header = 1"
  "min_chunk_size reuse_header = 100" "avg_chunk_size reuse_header = 4096" "max_chunk_size reuse_header = 3"
  by (simp_all add: reuse_header_def seed_header_def wf_header_def example_chunks_def total_file_size_def)

lemma reuse_read:
  "read_tseed (pf_order (h_platform reuse_host)) (h_sha1 reuse_host) (h_file reuse_host ''s'') = Inr reuse_seed"
  using read_seed_file[of reuse_header example_chunks "''f''" "''u''" Little "\<lambda>_. []" "[]"] reuse_header_fields
  by (simp add: reuse_host_def example_host_def reuse_seed_def compute_info_hash_def example_chunks_def wf_entry_def)

lemma reuse_scan: "scan_path reuse_host (Some [1, 2, 3]) (seed_config reuse_seed) = example_chunks"
proof -
  have "fastcdc_scan_buffer (\<lambda>_. replicate 32 7) [1, 2, 3] \<lparr>min_size = 100, avg_size = 4096, max_size = 3\<rparr> = example_chunks"
    by (simp add: scan_buffer_loop scan_loop.simps boundary_matched_def start_state_def init_scan_state_def Let_def)
      (simp add: chunk_entry_def example_chunks_def)
  then show ?thesis by (simp add: scan_path_def fastcdc_scan_file_def reuse_host_def example_host_def seed_config_def reuse_seed_def reuse_header_fields)
qed

lemma reuse_resumed: "resume_chunks reuse_host reuse_seed (Some [1, 2, 3]) = ([True], 3)"
  unfolding resume_chunks_def reuse_scan
  by (simp add: resume_step_def index_chunks_mem reuse_seed_def example_chunks_def)

lemma reuse_mapped:
  "\<exists>w w' asms. open_output reuse_host ''f'' reuse_seed = (True, w, Some [1, 2, 3]) \<and> init_assemblers (h_mmap reuse_host) (chunks reuse_seed) w = (Some asms, w')"
  "\<exists>w w' asms. open_output reuse_host ''n'' reuse_seed = (True, w, Some (replicate 3 0)) \<and> init_assemblers (h_mmap reuse_host) (chunks reuse_seed) w = (Some asms, w')"
  by (simp_all add: open_output_def segment_open_def reuse_host_def example_host_def reuse_seed_def reuse_header_fields Let_def example_chunks_def
      new_segment_writer_def get_chunk_base_def find_segment_def map_segment_def MAX_CHUNK_SIZE_def UINT32_MAX_def
      assembler_init_def SUB_BLOCK_SIZE_def)

lemma reuse_tiled: "tiled 0 (unat (file_size (header reuse_seed))) (chunks reuse_seed)"
  by (simp add: reuse_seed_def reuse_header_fields example_chunks_def)


lemma reuse_cloned:
  "cl_bitfield (clone_chunks (h_copy_file_range reuse_host) True ''f'' ''n'' example_chunks example_chunks
     ((h_file reuse_host)(''n'' := Some (replicate 3 0)))) = [True]"
  by (simp add: clone_chunks_def clone_step_def index_chunks_def example_chunks_def clone_range_def Let_def reuse_host_def example_host_def)

lemma cmd_update_stores:
  assumes seed: "read_tseed (pf_order (h_platform h)) (h_sha1 h) (h_file h new_seed) = Inr seed"
    and out: "open_output h new_file seed = (True, w, content)" and bind: "h_bind_ok h"
    and ia: "init_assemblers (h_mmap h) (chunks seed) w = (Some asms, w')"
    and new: "map_of (tm_tasks tm) (gen_task_id (h_random h)) = None"
  obtains t where "updated h new_seed new_file old_seed old_file tm t"
proof -
  have "map_of (tm_tasks (snd (snd (cmd_update h new_seed new_file old_seed old_file tm)))) (gen_task_id (h_random h)) \<noteq> None"
    by (simp add: cmd_update_def seed out ia bind Let_def store_task_def map_of_task_put new_task_def split: prod.split)
  then show ?thesis using that new by (auto simp: updated_def Let_def)
qed

theorem update_sound_witness:
  "\<exists>t. updated reuse_host ''s'' ''n'' ''s'' ''f'' (new_task_manager 6881 ''t'' 8080) t \<and> pm_initial_bitfield (at_peer_mgr t) = [True]
     \<and> chunk_states (pm_sched (at_peer_mgr t)) ! 0 = COMPLETE
     \<and> fst (snd (cmd_update reuse_host ''s'' ''n'' ''s'' ''f'' (new_task_manager 6881 ''t'' 8080))) ''f'' = Some [1, 2, 3]"
proof -
  obtain w w' asms where m: "open_output reuse_host ''n'' reuse_seed = (True, w, Some (replicate 3 0))"
      "init_assemblers (h_mmap reuse_host) (chunks reuse_seed) w = (Some asms, w')" using reuse_mapped(2) by blast
  have bind: "h_bind_ok reuse_host" by (simp add: reuse_host_def example_host_def)
  have new: "map_of (tm_tasks (new_task_manager 6881 ''t'' 8080)) (gen_task_id (h_random reuse_host)) = None" by (simp add: new_task_manager_def)
  obtain t where up: "updated reuse_host ''s'' ''n'' ''s'' ''f'' (new_task_manager 6881 ''t'' 8080) t"
    using cmd_update_stores[OF reuse_read m(1) bind m(2) new] by blast
  obtain sd w1 content st pm where x:
    "read_tseed (pf_order (h_platform reuse_host)) (h_sha1 reuse_host) (h_file reuse_host ''s'') = Inr sd"
    "open_output reuse_host ''n'' sd = (True, w1, content)"
    "st = clone_chunks (h_copy_file_range reuse_host) (old_file_chunks reuse_host ''s'' ''f'' \<noteq> None \<and> h_open_rdonly reuse_host ''f'' \<ge> 0)
        ''f'' ''n'' (case old_file_chunks reuse_host ''s'' ''f'' of None \<Rightarrow> [] | Some cs \<Rightarrow> cs) (chunks sd) ((h_file reuse_host)(''n'' := content))"
    "pm = task_peer_manager reuse_host (new_task_manager 6881 ''t'' 8080) sd (detect_link_speed_mbps (h_ifaddrs reuse_host) (h_speed_file reuse_host)) (cl_bitfield st)"
    "at_seed t = sd"
    "at_peer_mgr t = pm\<lparr>pm_sched := download_scheduler (h_piece_shuffle reuse_host) sd (detect_link_speed_mbps (h_ifaddrs reuse_host) (h_speed_file reuse_host))
                 (cl_matched st > 0) (cl_bitfield st) (pm_sched pm)\<rparr>"
    using updated_task[OF up] by this
  have sd: "sd = reuse_seed" "content = Some (replicate 3 0)" using x(1,2) reuse_read m(1) by auto
  have f: "h_file reuse_host ''f'' = Some [1, 2, 3]" "h_file reuse_host ''n'' = None" "0 \<le> h_open_rdonly reuse_host ''f''" by (simp_all add: reuse_host_def example_host_def)
  have "old_file_chunks reuse_host ''s'' ''f'' = Some example_chunks"
    using reuse_read reuse_scan f(1) by (simp add: old_file_chunks_def)
  then have "cl_bitfield st = [True]" using x(3) sd f(3) reuse_cloned by (simp add: reuse_seed_def)
  then have bf: "pm_initial_bitfield (at_peer_mgr t) = [True]" by (simp add: x(4,6) task_peer_manager_def)
  have cfr: "copy_bounded (h_copy_file_range reuse_host)" by (simp add: copy_bounded_def reuse_host_def example_host_def)
  show ?thesis using update_sound[OF up _ f(1) _ _ cfr] f(2) bf up reuse_tiled x(5) sd
    by (intro exI[of _ t]) (simp add: reuse_seed_def example_chunks_def)
qed

text \<open>In place the guarantee is lost. Here the file \<open>f\<close> held the three bytes of a chunk when it was scanned; as
  output of four bytes it has been truncated before it is copied onto itself, and the chunk is marked
  although its bytes are gone.\<close>

lemma update_in_place_loses:
  "let st = clone_chunks (\<lambda>_ _ n. uint n) True ''f'' ''f'' example_chunks example_chunks [''f'' \<mapsto> [0, 0, 0, 0]]
   in cl_bitfield st = [True] \<and> cl_files st ''f'' = Some [0, 0, 0, 0]"
  by (simp add: clone_chunks_def clone_step_def index_chunks_def example_chunks_def clone_range_def Let_def write_at_def)

end
