(* ===== verification/Choking.thy ===== *)
theory Choking
  imports Peer_Manager
begin

unbundle bit_operations_syntax

text \<open>
  The choking round of a peer manager: how many peers are unchoked, which, and what they are told.
\<close>

definition std_sort_desc :: "desc_sorter \<Rightarrow> bool" where
  "std_sort_desc srt \<longleftrightarrow> (\<forall>key xs. mset (srt key xs) = mset xs \<and> sorted_wrt (\<lambda>x y. key y \<le> key x) (srt key xs))"

definition unchoked :: "PeerSession list \<Rightarrow> nat" where
  "unchoked ss = length (filter (\<lambda>s. \<not> ps_choking_peer s) ss)"

section \<open>The unchoking loops\<close>

lemma unchoked_update: "unchoked (ss[i := set_choked False (ss ! i)]) \<le> unchoked ss + 1"
proof (induction ss arbitrary: i)
  case (Cons s ss)
  then show ?case by (cases i) (auto simp: unchoked_def set_choked_def)
qed (simp add: unchoked_def)

lemma unchoked_interested: "unchoked (unchoke_interested k is ss) \<le> unchoked ss + unat k"
proof (induction k "is" ss rule: unchoke_interested.induct)
  case (2 k i "is" ss)
  then show ?case using unchoked_update[of ss i] unat_minus_one[of k] unat_gt_0[of k] by (auto simp: Let_def)
qed simp

lemma unchoked_slow: "unchoked (unchoke_slow k is ss) \<le> unchoked ss + unat k"
proof (induction k "is" ss rule: unchoke_slow.induct)
  case (2 k i "is" ss)
  then show ?case using unchoked_update[of ss i] unat_minus_one[of k] unat_gt_0[of k] by (auto simp: Let_def)
qed simp

lemma unchoked_fold: "unchoked (fold (\<lambda>i ss. ss[i := set_choked False (ss ! i)]) is ss) \<le> unchoked ss + length is"
proof (induction "is" arbitrary: ss)
  case (Cons i "is")
  show ?case using order_trans[OF Cons.IH add_right_mono[OF unchoked_update[of ss i]]] by simp
qed simp

lemma unchoked_optimistic: "unchoked (unchoke_optimistic k is ss) \<le> unchoked ss + unat k"
proof -
  have "unat (min k (of_nat (length is))) \<le> unat k" unfolding word_le_nat_alt[symmetric] by (rule min.cobounded1)
  then show ?thesis
    using unchoked_fold[of "take (unat (min k (of_nat (length is)))) is" ss] unfolding unchoke_optimistic_def by simp
qed

text \<open>Nothing but the choke flag changes, and it only goes down.\<close>

definition unchoking :: "PeerSession list \<Rightarrow> PeerSession list \<Rightarrow> bool" where
  "unchoking ss ss' \<longleftrightarrow> list_all2 (\<lambda>a b. (b = a \<or> b = set_choked False a)) ss ss'"

lemma unchoking_refl [simp]: "unchoking ss ss"
  by (simp add: unchoking_def list_all2_refl)

lemma unchoking_trans: "unchoking a b \<Longrightarrow> unchoking b c \<Longrightarrow> unchoking a c"
  unfolding unchoking_def by (erule list_all2_trans[rotated -1]) (auto simp: set_choked_def)

lemma unchoking_update: "unchoking ss (ss[i := set_choked False (ss ! i)])"
  by (cases "i < length ss") (auto simp: unchoking_def list_all2_conv_all_nth nth_list_update list_update_beyond)

lemma unchoking_interested: "unchoking ss (unchoke_interested k is ss)"
proof (induction k "is" ss rule: unchoke_interested.induct)
  case (2 k i "is" ss)
  then show ?case by (auto intro: unchoking_trans[OF unchoking_update])
qed simp

lemma unchoking_slow: "unchoking ss (unchoke_slow k is ss)"
proof (induction k "is" ss rule: unchoke_slow.induct)
  case (2 k i "is" ss)
  then show ?case by (auto intro: unchoking_trans[OF unchoking_update])
qed simp

lemma unchoking_optimistic: "unchoking ss (unchoke_optimistic k is ss)"
proof -
  have "unchoking ss (fold (\<lambda>i ss. ss[i := set_choked False (ss ! i)]) js ss)" for js
  proof (induction js arbitrary: ss)
    case (Cons j js)
    show ?case using unchoking_trans[OF unchoking_update Cons] by simp
  qed simp
  then show ?thesis by (simp add: unchoke_optimistic_def)
qed

lemma unchoking_nth:
  assumes "unchoking ss ss'" "i < length ss"
  shows "ss' ! i = ss ! i \<or> ss' ! i = set_choked False (ss ! i)"
  using assms list_all2_nthD by (fastforce simp: unchoking_def)

lemma unchoking_length: "unchoking ss ss' \<Longrightarrow> length ss' = length ss"
  by (simp add: unchoking_def list_all2_lengthD)

lemma interested_unchoked:
  assumes "\<forall>i \<in> set is. i < length ss" "j \<in> set (take (unat k) (filter (\<lambda>i. ps_peer_interested (ss ! i)) is))"
  shows "\<not> ps_choking_peer (unchoke_interested k is ss ! j)"
  using assms
proof (induction k "is" ss rule: unchoke_interested.induct)
  case (2 k i "is" ss)
  let ?ss = "ss[i := set_choked False (ss ! i)]"
  have k: "k \<noteq> 0" using 2(4) by auto
  have same: "ps_peer_interested (?ss ! x) = ps_peer_interested (ss ! x)" for x
    using 2(3) by (cases "x = i") (simp_all add: set_choked_def)
  show ?case
  proof (cases "ps_peer_interested (ss ! i)")
    case True
    have "unat k = Suc (unat (k - 1))" using k by (simp add: unat_minus_one unat_gt_0)
    then have j: "j = i \<or> j \<in> set (take (unat (k - 1)) (filter (\<lambda>i. ps_peer_interested (ss ! i)) is))"
      using 2(4) True by simp
    have "\<not> ps_choking_peer (unchoke_interested (k - 1) is ?ss ! i)"
      using unchoking_nth[OF unchoking_interested, of i ?ss "k - 1" "is"] 2(3) by (auto simp: set_choked_def)
    then show ?thesis using j 2(1)[OF k True] 2(3) k True by (auto simp: same)
  next
    case False
    then show ?thesis using 2(2)[OF k] 2(3,4) k by auto
  qed
qed simp

section \<open>The round\<close>

lemma upload_slots_bounds: "4 \<le> unat (upload_slots v ss)" "unat (upload_slots v ss) \<le> 20"
proof -
  define x where "x = (let m = sum_list (map ps_upload_rate_kbps ss) div 1000 in if v > m then v - m else 0 :: u32)"
  define d where "d = x div 10"
  have s: "upload_slots v ss = min (4 + d * 2) 20" by (simp add: upload_slots_def d_def x_def Let_def)
  have "unat d \<le> 429496729" using unat_u32_less[of x] by (simp add: d_def unat_div)
  then have "unat (4 + d * 2) = 4 + unat d * 2" by (simp add: unat_word_ariths)
  then show "4 \<le> unat (upload_slots v ss)" "unat (upload_slots v ss) \<le> 20"
    unfolding s min_def by (auto simp: word_le_nat_alt)
qed

lemma slot_shares:
  assumes "unat (slots :: u32) \<le> 20"
  shows "unat (slots * 50 div 100) = unat slots div 2" "unat (slots * 25 div 100) = unat slots div 4"
    "unat (slots - slots * 50 div 100 - slots * 25 div 100) = unat slots - unat slots div 2 - unat slots div 4"
proof -
  have m: "unat (slots * 50) = unat slots * 50" "unat (slots * 25) = unat slots * 25"
    using assms by (simp_all add: unat_word_ariths)
  show a: "unat (slots * 50 div 100) = unat slots div 2" "unat (slots * 25 div 100) = unat slots div 4"
    using m by (simp_all add: unat_div)
  have "slots * 50 div 100 \<le> slots" using a by (simp add: word_le_nat_alt)
  then have b: "unat (slots - slots * 50 div 100) = unat slots - unat slots div 2" using a by (simp add: unat_sub)
  have "slots * 25 div 100 \<le> slots - slots * 50 div 100" using a b by (simp add: word_le_nat_alt)
  then show "unat (slots - slots * 50 div 100 - slots * 25 div 100) = unat slots - unat slots div 2 - unat slots div 4"
    using a b by (simp add: unat_sub)
qed

lemma tit_for_tat_set:
  assumes "std_sort_desc srt" "unchoking (unchoke_interested k (srt (\<lambda>i. ps_download_rate_kbps (ss ! i)) [0..<length ss]) ss) ss'"
    and "i < length ss" "ps_peer_interested (ss ! i)" "ps_choking_peer (ss' ! i)"
  shows "\<exists>J \<subseteq> {..<length ss}. card J = unat k \<and> (\<forall>j \<in> J. ps_peer_interested (ss ! j) \<and> \<not> ps_choking_peer (ss' ! j)
     \<and> ps_download_rate_kbps (ss ! i) \<le> ps_download_rate_kbps (ss ! j))"
proof -
  let ?key = "\<lambda>i. ps_download_rate_kbps (ss ! i)"
  define js where "js = srt ?key [0..<length ss]"
  define P where "P = filter (\<lambda>i. ps_peer_interested (ss ! i)) js"
  let ?J = "set (take (unat k) P)"
  have m: "mset js = mset [0..<length ss]" and srt: "sorted_wrt (\<lambda>x y. ?key y \<le> ?key x) js"
    using assms(1) by (auto simp: js_def std_sort_desc_def)
  have js: "set js = {..<length ss}" "distinct js"
    using mset_eq_setD[OF m] mset_eq_imp_distinct_iff[OF m] by (simp_all add: atLeast0LessThan)
  have P: "set P \<subseteq> {..<length ss}" "\<forall>j \<in> set P. ps_peer_interested (ss ! j)" "distinct P" using js by (auto simp: P_def)
  have J: "?J \<subseteq> set P" by (rule set_take_subset)
  have u: "\<not> ps_choking_peer (ss' ! j)" if "j \<in> ?J" for j
  proof -
    have "j < length ss" using that J P(1) by blast
    moreover have "\<not> ps_choking_peer (unchoke_interested k js ss ! j)"
      using interested_unchoked[of js ss j k] that js(1) by (simp add: P_def)
    moreover have "length (unchoke_interested k js ss) = length ss" by (rule unchoking_length[OF unchoking_interested])
    ultimately show ?thesis
      using unchoking_nth[OF assms(2)[folded js_def], of j] by (auto simp: set_choked_def)
  qed
  then have "i \<notin> ?J" using assms(5) by blast
  moreover have "i \<in> set P" using assms(3,4) js(1) by (simp add: P_def)
  ultimately have i: "i \<in> set (drop (unat k) P)" by (metis Un_iff append_take_drop_id set_append)
  then have "unat k < length P" by (cases "unat k < length P") auto
  then have "card ?J = unat k" using P(3) by (simp add: distinct_card)
  moreover have "sorted_wrt (\<lambda>x y. ?key y \<le> ?key x) (take (unat k) P @ drop (unat k) P)"
    using srt by (simp add: P_def sorted_wrt_filter)
  then have "?key i \<le> ?key j" if "j \<in> ?J" for j using that i by (auto simp only: sorted_wrt_append)
  moreover have "?J \<subseteq> {..<length ss}" "\<forall>j \<in> ?J. ps_peer_interested (ss ! j)"
    using J P by blast+
  ultimately show ?thesis using u by (intro exI[of _ ?J]) auto
qed

lemma unchoking_fields:
  assumes "unchoking ss ss'" "i < length ss"
  shows "ps_peer_interested (ss' ! i) = ps_peer_interested (ss ! i)" "ps_download_rate_kbps (ss' ! i) = ps_download_rate_kbps (ss ! i)"
    "ps_upload_rate_kbps (ss' ! i) = ps_upload_rate_kbps (ss ! i)" "ps_writer (ss' ! i) = ps_writer (ss ! i)"
  using unchoking_nth[OF assms] by (auto simp: set_choked_def)

lemma unchoking_uploads: "unchoking ss ss' \<Longrightarrow> map ps_upload_rate_kbps ss' = map ps_upload_rate_kbps ss"
  by (rule nth_equalityI) (auto simp: unchoking_length unchoking_fields)

text \<open>The three loops on the rated sessions \<open>ss\<close>.\<close>

definition unchoke_all :: "desc_sorter \<Rightarrow> (nat list \<Rightarrow> nat list) \<Rightarrow> u32 \<Rightarrow> PeerSession list \<Rightarrow> PeerSession list" where
  "unchoke_all srt shuf slots ss =
     (let srtd = srt (\<lambda>i. ps_download_rate_kbps (ss ! i)) [0..<length ss]
      in unchoke_slow (slots - slots * 50 div 100 - slots * 25 div 100) (shuf srtd)
           (unchoke_optimistic (slots * 25 div 100) (shuf srtd) (unchoke_interested (slots * 50 div 100) srtd ss)))"

definition rated :: "nat \<Rightarrow> PeerSession list \<Rightarrow> PeerSession list" where
  "rated now ss = map (\<lambda>s. update_upload_rate now (update_download_rate now (set_choked True s))) ss"

lemma tick_choke_sessions:
  "pm_sessions pm \<noteq> [] \<Longrightarrow> pm_sessions (tick_choke e srt shuf now pm) = map (\<lambda>s. send_message (choke_message e s) s)
     (unchoke_all srt shuf (upload_slots (pm_local_speed_mbps pm) (rated now (pm_sessions pm))) (rated now (pm_sessions pm)))"
  by (simp add: tick_choke_def unchoke_all_def rated_def Let_def)

lemma unchoke_all_unchoking: "unchoking ss (unchoke_all srt shuf slots ss)"
  unfolding unchoke_all_def Let_def
  by (rule unchoking_trans[OF unchoking_trans[OF unchoking_interested unchoking_optimistic] unchoking_slow])

lemma unchoke_all_count:
  assumes "unat slots \<le> 20" "unchoked ss = 0"
  shows "unchoked (unchoke_all srt shuf slots ss) \<le> unat slots"
proof -
  define srtd where "srtd = srt (\<lambda>i. ps_download_rate_kbps (ss ! i)) [0..<length ss]"
  let ?s2 = "unchoke_interested (slots * 50 div 100) srtd ss"
  let ?s3 = "unchoke_optimistic (slots * 25 div 100) (shuf srtd) ?s2"
  have "unchoked ?s2 \<le> unat slots div 2" using unchoked_interested[of "slots * 50 div 100" srtd ss] assms slot_shares by simp
  then have "unchoked ?s3 \<le> unat slots div 2 + unat slots div 4"
    using unchoked_optimistic[of "slots * 25 div 100" "shuf srtd" ?s2] assms slot_shares by simp
  then show ?thesis
    using unchoked_slow[of "slots - slots * 50 div 100 - slots * 25 div 100" "shuf srtd" ?s3] slot_shares(3)[OF assms(1)]
    unfolding unchoke_all_def Let_def srtd_def[symmetric] by linarith
qed

text \<open>C33. The choking round is tit for tat. At most 20 peers are unchoked; every peer is told its state;
  and an interested peer left choked is outranked: as many interested peers as half the upload slots,
  each sending to us at least as fast, are unchoked.\<close>

theorem choke_round:
  assumes "std_sort_desc srt" "i < length (pm_sessions pm)" "ss' = pm_sessions (tick_choke e srt shuf now pm)"
  shows "unchoked ss' \<le> 20
     \<and> outbox (ss' ! i) = outbox (pm_sessions pm ! i) @ [build_message e (if ps_choking_peer (ss' ! i) then CHOKE else UNCHOKE) []]
     \<and> (ps_peer_interested (ss' ! i) \<and> ps_choking_peer (ss' ! i) \<longrightarrow>
          (\<exists>J \<subseteq> {..<length ss'}. card J = unat (upload_slots (pm_local_speed_mbps pm) ss') div 2
             \<and> (\<forall>j \<in> J. ps_peer_interested (ss' ! j) \<and> \<not> ps_choking_peer (ss' ! j)
                  \<and> ps_download_rate_kbps (ss' ! i) \<le> ps_download_rate_kbps (ss' ! j))))"
proof -
  let ?ss = "pm_sessions pm" and ?r = "rated now (pm_sessions pm)"
  define slots where "slots = upload_slots (pm_local_speed_mbps pm) ?r"
  define u where "u = unchoke_all srt shuf slots ?r"
  note b = upload_slots_bounds(2)[of "pm_local_speed_mbps pm" ?r, folded slots_def]
  have ss': "ss' = map (\<lambda>s. send_message (choke_message e s) s) u"
    using assms(2) unfolding assms(3) u_def slots_def by (intro tick_choke_sessions) auto
  have un: "unchoking ?r u" unfolding u_def by (rule unchoke_all_unchoking)
  have len: "length u = length ?ss" "length ss' = length ?ss" using unchoking_length[OF un] by (simp_all add: ss' rated_def)
  note f = unchoking_fields[OF un]
  have s: "ps_choking_peer (ss' ! j) = ps_choking_peer (u ! j)" "ps_peer_interested (ss' ! j) = ps_peer_interested (?r ! j)"
      "ps_download_rate_kbps (ss' ! j) = ps_download_rate_kbps (?r ! j)" if "j < length ?ss" for j
    using that f[of j] len by (simp_all add: ss' send_message_def rated_def)
  have "map ps_upload_rate_kbps ss' = map ps_upload_rate_kbps ?r"
    using unchoking_uploads[OF un] by (simp add: ss' send_message_def comp_def)
  then have sl: "upload_slots (pm_local_speed_mbps pm) ss' = slots" by (simp add: upload_slots_def slots_def)
  have "unchoked ?r = 0"
    by (simp add: unchoked_def rated_def set_choked_def update_upload_rate_def update_download_rate_def Let_def filter_empty_conv)
  from unchoke_all_count[OF b this, of srt shuf] have "unchoked u \<le> 20" using b unfolding u_def by linarith
  then have "unchoked ss' \<le> 20" by (simp add: unchoked_def ss' filter_map comp_def send_message_def)
  moreover have "outbox (ss' ! i) = outbox (?ss ! i) @ [build_message e (if ps_choking_peer (ss' ! i) then CHOKE else UNCHOKE) []]"
    using assms(2) len f(4)[of i] s(1)[OF assms(2)]
    by (simp add: ss' outbox_def rated_def choke_message_def set_choked_def update_upload_rate_def update_download_rate_def Let_def
        del: outbox_send) (simp add: send_message_def writer_defs split: list.split)
  moreover have "\<exists>J \<subseteq> {..<length ss'}. card J = unat slots div 2 \<and> (\<forall>j \<in> J. ps_peer_interested (ss' ! j)
      \<and> \<not> ps_choking_peer (ss' ! j) \<and> ps_download_rate_kbps (ss' ! i) \<le> ps_download_rate_kbps (ss' ! j))"
    if "ps_peer_interested (ss' ! i)" "ps_choking_peer (ss' ! i)"
  proof -
    have "unchoking (unchoke_interested (slots * 50 div 100) (srt (\<lambda>i. ps_download_rate_kbps (?r ! i)) [0..<length ?r]) ?r) u"
      unfolding u_def unchoke_all_def Let_def by (rule unchoking_trans[OF unchoking_optimistic unchoking_slow])
    from tit_for_tat_set[OF assms(1) this, of i] that s[OF assms(2)] assms(2) slot_shares(1)[OF b]
    obtain J where J: "J \<subseteq> {..<length ?ss}" "card J = unat slots div 2" "\<forall>j \<in> J. ps_peer_interested (?r ! j)
        \<and> \<not> ps_choking_peer (u ! j) \<and> ps_download_rate_kbps (?r ! i) \<le> ps_download_rate_kbps (?r ! j)"
      by (auto simp: rated_def)
    then show ?thesis using s assms(2) len(2) by (intro exI[of _ J]) (auto simp: subset_iff)
  qed
  ultimately show ?thesis by (simp add: sl)
qed

definition choke_example :: PeerManager where
  "choke_example = (new_peer_manager (\<lambda>_. 0) None [] new_scheduler True [] 1000 6881)\<lparr>
     pm_sessions := [(new_session [] 0 0 False 0)\<lparr>ps_peer_interested := True\<rparr>]\<rparr>"

lemma desc_sorter_example: "std_sort_desc (\<lambda>key xs. rev (sort_key key xs))"
proof -
  have "sorted_wrt (\<lambda>x y. key y \<le> key x) (rev (sort_key key xs))" for key :: "nat \<Rightarrow> u32" and xs
    using sorted_sort_key[of key xs] by (simp add: sorted_wrt_rev sorted_map)
  then show ?thesis by (simp add: std_sort_desc_def)
qed

theorem choke_round_witness:
  "unchoked (pm_sessions (tick_choke Little (\<lambda>key xs. rev (sort_key key xs)) rev 1000000 choke_example)) \<le> 20"
  using choke_round[OF desc_sorter_example, of 0 choke_example _ Little rev 1000000, OF _ refl]
  by (simp add: choke_example_def new_peer_manager_def)

end
