(* ===== verification/Daemon.thy ===== *)
theory Daemon
  imports Reuse Choking
begin

text \<open>
  The daemon around the task manager: the command server (\<open>src/src/daemon/ipc_server.cpp\<close>) and the
  arguments and heartbeat of \<open>main.cpp\<close>. A request is one JSON line; the server looks for keys in its text.
  How a double is printed and the text of an exception are arguments.
\<close>

section \<open>The command server\<close>

definition ipc_key :: "string \<Rightarrow> string" where
  "ipc_key key = dquote # key @ [dquote, CHR '':'', dquote]"

definition ipc_extract :: "string \<Rightarrow> string \<Rightarrow> string" where
  "ipc_extract request key =
     (case find_after (ipc_key key) request of
        None \<Rightarrow> []
      | Some r \<Rightarrow> if dquote \<in> set r then takeWhile (\<lambda>ch. ch \<noteq> dquote) r else [])"

definition field :: "string \<Rightarrow> string \<Rightarrow> string" where
  "field key v = quoted key @ '':'' @ quoted v"

definition raw_field :: "string \<Rightarrow> string \<Rightarrow> string" where
  "raw_field key v = quoted key @ '':'' @ v"

definition task_list_json :: "(rat \<Rightarrow> string) \<Rightarrow> TaskInfo \<Rightarrow> string" where
  "task_list_json show_double t = ''{'' @ join_comma
     [field ''task_id'' (ti_task_id t), field ''state'' (ti_state t), raw_field ''progress'' (show_double (ti_progress t)),
      raw_field ''bytes_done'' (show_nat (unat (ti_bytes_done t))), raw_field ''speed_mib_s'' (show_double (ti_speed_mib_s t)),
      field ''file_path'' (ti_file_path t), field ''seed_path'' (ti_seed_path t),
      field ''started_at'' (ti_started_at t), field ''finished_at'' (ti_finished_at t)] @ ''}''"

definition task_status_json :: "(rat \<Rightarrow> string) \<Rightarrow> TaskInfo \<Rightarrow> string" where
  "task_status_json show_double t = ''{'' @ field ''status'' ''ok'' @ '','' @ quoted ''data'' @ '':{'' @ join_comma
     [field ''task_id'' (ti_task_id t), field ''state'' (ti_state t), raw_field ''progress'' (show_double (ti_progress t)),
      raw_field ''speed_mib_s'' (show_double (ti_speed_mib_s t)), raw_field ''bytes_done'' (show_nat (unat (ti_bytes_done t))),
      field ''file_path'' (ti_file_path t), field ''seed_path'' (ti_seed_path t),
      field ''started_at'' (ti_started_at t), field ''finished_at'' (ti_finished_at t)] @ ''}}''"

definition list_json :: "(rat \<Rightarrow> string) \<Rightarrow> TaskInfo list \<Rightarrow> string" where
  "list_json show_double tasks = ''{'' @ field ''status'' ''ok'' @ '','' @ quoted ''data'' @ '':{'' @ quoted ''tasks'' @ '':[''
     @ join_comma (map (task_list_json show_double) tasks) @ '']}}''"

text \<open>A command that throws is answered with the text of the exception.\<close>

definition answer :: "(exn \<Rightarrow> string) \<Rightarrow> exn + string \<Rightarrow> string" where
  "answer what r = (case r of Inl e \<Rightarrow> error_json (what e) | Inr response \<Rightarrow> response)"

definition ipc_handle ::
    "host \<Rightarrow> (exn \<Rightarrow> string) \<Rightarrow> (rat \<Rightarrow> string) \<Rightarrow> string \<Rightarrow> TaskManager \<Rightarrow> string \<times> files \<times> TaskManager" where
  "ipc_handle h what show_double request tm =
     (let arg = ipc_extract request; cmd = arg ''cmd'' in
      if cmd = ''seed'' then
        (case cmd_seed h (arg ''seed_path'') (arg ''file_path'') tm of (r, tm') \<Rightarrow> (answer what r, h_file h, tm'))
      else if cmd = ''add'' then
        (if arg ''seed_path'' = [] then (error_json ''missing seed_path'', h_file h, tm)
         else case cmd_add h (arg ''seed_path'') (if arg ''save_path'' = [] then ''downloaded_file'' else arg ''save_path'') tm of
                (r, fs, tm') \<Rightarrow> (answer what r, fs, tm'))
      else if cmd = ''list'' then (list_json show_double (cmd_list tm), h_file h, tm)
      else if cmd = ''remove'' then (case cmd_remove (arg ''task_id'') tm of (r, tm') \<Rightarrow> (r, h_file h, tm'))
      else if cmd = ''update'' then
        (if arg ''new_seed'' \<noteq> [] then
           (case cmd_update h (arg ''new_seed'') (arg ''new_file'') (arg ''old_seed'') (arg ''old_file'') tm of
              (r, fs, tm') \<Rightarrow> (answer what r, fs, tm'))
         else if arg ''task_id'' \<noteq> [] then
           (case find (\<lambda>t. ti_task_id t = arg ''task_id'') (cmd_list tm) of
              Some t \<Rightarrow> (task_status_json show_double t, h_file h, tm)
            | None \<Rightarrow> (error_json ''task not found'', h_file h, tm))
         else (error_json ''update requires task_id or new_seed'', h_file h, tm))
      else if cmd = ''peers'' then
        (if arg ''task_id'' = [] then (error_json ''missing task_id'', h_file h, tm)
         else (cmd_peers (arg ''task_id'') tm, h_file h, tm))
      else (error_json ''unknown command'', h_file h, tm))"

text \<open>One read of at most 65536 bytes is a request; nothing is answered when it fails or is empty.\<close>

definition ipc_handle_client ::
    "host \<Rightarrow> (exn \<Rightarrow> string) \<Rightarrow> (rat \<Rightarrow> string) \<Rightarrow> string option \<Rightarrow> TaskManager \<Rightarrow> string option \<times> files \<times> TaskManager" where
  "ipc_handle_client h what show_double received tm =
     (case received of
        None \<Rightarrow> (None, h_file h, tm)
      | Some [] \<Rightarrow> (None, h_file h, tm)
      | Some bytes \<Rightarrow>
          (case ipc_handle h what show_double (take 65536 bytes) tm of (response, fs, tm') \<Rightarrow> (Some (response @ [newline]), fs, tm')))"

section \<open>The daemon process\<close>

definition stoi :: "string \<Rightarrow> int option" where
  "stoi s = (case strtol s of
       None \<Rightarrow> None
     | Some v \<Rightarrow> if - (2 ^ 31) \<le> v \<and> v < 2 ^ 31 then Some v else None)"

record daemon_args =
  da_ipc_port :: u16
  da_tracker_port :: u16
  da_p2p_port :: u16
  da_tracker_host :: string

definition default_args :: daemon_args where
  "default_args = \<lparr>da_ipc_port = 16888, da_tracker_port = 8080, da_p2p_port = 16889, da_tracker_host = []\<rparr>"

text \<open>\<open>None\<close>: \<open>std::stoi\<close> throws and nothing catches it.\<close>

fun parse_daemon_args :: "string list \<Rightarrow> daemon_args \<Rightarrow> daemon_args option" where
  "parse_daemon_args (arg # v # rest) a =
     (if arg = ''--ipc-port'' then Option.bind (stoi v) (\<lambda>n. parse_daemon_args rest (a\<lparr>da_ipc_port := of_int n\<rparr>))
      else if arg = ''--tracker-host'' then parse_daemon_args rest (a\<lparr>da_tracker_host := v\<rparr>)
      else if arg = ''--tracker-port'' then Option.bind (stoi v) (\<lambda>n. parse_daemon_args rest (a\<lparr>da_tracker_port := of_int n\<rparr>))
      else if arg = ''--p2p-port'' then Option.bind (stoi v) (\<lambda>n. parse_daemon_args rest (a\<lparr>da_p2p_port := of_int n\<rparr>))
      else parse_daemon_args (v # rest) a)"
| "parse_daemon_args _ a = Some a"

record daemon_state =
  dm_running :: bool
  dm_armed :: bool
  dm_tick_count :: u64
  dm_task_mgr :: TaskManager
  dm_has_tracker_acceptor :: bool

definition start_daemon :: "daemon_args \<Rightarrow> daemon_state" where
  "start_daemon a = \<lparr>dm_running = True, dm_armed = True, dm_tick_count = 0,
     dm_task_mgr = new_task_manager (da_p2p_port a) (da_tracker_host a) (da_tracker_port a),
     dm_has_tracker_acceptor = (da_tracker_host a = [])\<rparr>"

text \<open>The body of the heartbeat; \<open>False\<close> when something in it throws. The timer runs only when it is armed.\<close>

definition heartbeat_body :: "host \<Rightarrow> u64 \<Rightarrow> TaskManager \<Rightarrow> bool \<times> TaskManager" where
  "heartbeat_body h n tm =
     (case tick_tasks h tm of
        (False, tm1) \<Rightarrow> (False, tm1)
      | (True, tm1) \<Rightarrow>
          let tm2 = (if n mod 100 = 0 then tick_choke_all h tm1 else tm1);
              tm3 = (if n mod 60 = 0 then tm2\<lparr>tm_tracker := cleanup_stale (h_now h) 90 (tm_tracker tm2)\<rparr> else tm2)
          in case (if n mod 300 = 0 then tick_tracker_announce h tm3 else (True, tm3)) of
               (False, tm4) \<Rightarrow> (False, tm4)
             | (True, tm4) \<Rightarrow> (True, if n mod 600 = 0 then tick_pex_all h tm4 else tm4))"

definition heartbeat :: "host \<Rightarrow> bool \<Rightarrow> daemon_state \<Rightarrow> daemon_state" where
  "heartbeat h cancelled dm =
     (if \<not> dm_armed dm then dm
      else if cancelled \<or> \<not> dm_running dm then dm\<lparr>dm_armed := False\<rparr>
      else let n = dm_tick_count dm + 1
           in case heartbeat_body h n (dm_task_mgr dm) of
                (True, tm) \<Rightarrow> dm\<lparr>dm_tick_count := n, dm_task_mgr := tm\<rparr>
              | (False, tm) \<Rightarrow> dm\<lparr>dm_tick_count := n, dm_task_mgr := tm, dm_running := False, dm_armed := False\<rparr>)"

section \<open>Runs of the daemon\<close>

text \<open>What can happen to the daemon: a request arrives, a timer fires, something happens to one task (a piece,
  a worker's step, the end of an announcement, anything on its connections), or it is told to stop.\<close>

datatype daemon_op =
    Dm_request "string option"
  | Dm_heartbeat bool
  | Dm_stats bool
  | Dm_task string task_op
  | Dm_signal

definition on_task :: "string \<Rightarrow> (ActiveTask \<Rightarrow> ActiveTask option) \<Rightarrow> TaskManager \<Rightarrow> TaskManager option" where
  "on_task tid f tm =
     (case map_of (tm_tasks tm) tid of
        None \<Rightarrow> None
      | Some t \<Rightarrow> map_option (\<lambda>t'. tm\<lparr>tm_tasks := map (\<lambda>(k, v). if k = tid then (k, t') else (k, v)) (tm_tasks tm)\<rparr>) (f t))"

fun exec_daemon ::
    "(bytes \<Rightarrow> bytes option) \<Rightarrow> (string \<Rightarrow> json option) \<Rightarrow> (exn \<Rightarrow> string) \<Rightarrow> (rat \<Rightarrow> string) \<Rightarrow> host \<times> daemon_op
     \<Rightarrow> daemon_state \<Rightarrow> daemon_state option" where
  "exec_daemon evp yy what show_double (h, Dm_request received) dm =
     (case ipc_handle_client h what show_double received (dm_task_mgr dm) of (_, _, tm) \<Rightarrow> Some (dm\<lparr>dm_task_mgr := tm\<rparr>))"
| "exec_daemon evp yy what show_double (h, Dm_heartbeat cancelled) dm = Some (heartbeat h cancelled dm)"
| "exec_daemon evp yy what show_double (h, Dm_stats cancelled) dm =
     Some (dm\<lparr>dm_task_mgr := snd (do_stats_tick h cancelled (dm_task_mgr dm))\<rparr>)"
| "exec_daemon evp yy what show_double (h, Dm_task tid op) dm =
     map_option (\<lambda>tm. dm\<lparr>dm_task_mgr := tm\<rparr>) (on_task tid (exec_task evp yy (h, dm_task_mgr dm, op)) (dm_task_mgr dm))"
| "exec_daemon evp yy what show_double (h, Dm_signal) dm = Some (dm\<lparr>dm_running := False\<rparr>)"

inductive daemon_run for evp yy what show_double dm0 where
  daemon_start: "daemon_run evp yy what show_double dm0 [] dm0"
| daemon_step: "daemon_run evp yy what show_double dm0 ops dm \<Longrightarrow> exec_daemon evp yy what show_double op dm = Some dm'
    \<Longrightarrow> daemon_run evp yy what show_double dm0 (ops @ [op]) dm'"

section \<open>Invariant\<close>

definition task_kind_ok :: "ActiveTask \<Rightarrow> bool" where
  "task_kind_ok t \<longleftrightarrow> (if at_is_seed t then at_state t = ''seeding'' else at_state t \<in> {''downloading'', ''waiting'', ''complete''})"

definition tasks_ok :: "(string \<times> ActiveTask) list \<Rightarrow> bool" where
  "tasks_ok ts \<longleftrightarrow> sorted_wrt (<) (map fst ts)
     \<and> (\<forall>(tid, t) \<in> set ts. at_task_id t = tid \<and> length tid = 8 \<and> task_kind_ok t
          \<and> length (chunks (at_seed t)) = unat (chunk_count (header (at_seed t))))"

text \<open>What no operation on a stored task changes.\<close>

definition same_task :: "ActiveTask \<Rightarrow> ActiveTask \<Rightarrow> bool" where
  "same_task t t' \<longleftrightarrow> at_task_id t' = at_task_id t \<and> at_is_seed t' = at_is_seed t \<and> at_seed t' = at_seed t \<and> state_step t t'"

lemma same_task_ok:
  "same_task t t' \<Longrightarrow> at_task_id t = tid \<and> length tid = 8 \<and> task_kind_ok t \<and> length (chunks (at_seed t)) = unat (chunk_count (header (at_seed t)))
   \<Longrightarrow> at_task_id t' = tid \<and> length tid = 8 \<and> task_kind_ok t' \<and> length (chunks (at_seed t')) = unat (chunk_count (header (at_seed t')))"
  by (auto simp: same_task_def task_kind_ok_def state_step_def)

lemma same_task_refl [simp]: "same_task t t"
  by (simp add: same_task_def state_step_def)

lemma tick_parts_identity:
  "at_task_id (take_results h t) = at_task_id t" "at_is_seed (take_results h t) = at_is_seed t"
  "at_task_id (check_complete h t) = at_task_id t" "at_is_seed (check_complete h t) = at_is_seed t"
  "at_task_id (mark_waiting t) = at_task_id t" "at_is_seed (mark_waiting t) = at_is_seed t"
  "at_task_id (snd (announce_task_now h tm t)) = at_task_id t" "at_is_seed (snd (announce_task_now h tm t)) = at_is_seed t"
  "at_task_id (snd (startup_announce h tm t)) = at_task_id t" "at_is_seed (snd (startup_announce h tm t)) = at_is_seed t"
  "at_task_id (update_speed t) = at_task_id t" "at_is_seed (update_speed t) = at_is_seed t"
  by (simp_all add: take_results_def check_complete_def mark_waiting_def announce_task_now_def startup_announce_def update_speed_def
      drain_results_def Let_def split: prod.split)

lemma task_tick_same: "same_task t (snd (task_tick h tm t))"
  by (simp add: same_task_def state_step_def task_tick_fields next_state_def)
    (simp add: task_tick_last Let_def tick_parts_identity)

lemma announce_same: "same_task t (snd (announce_task_now h tm t))"
  by (simp add: same_task_def state_step_def tick_parts_identity)

lemma exec_task_same:
  assumes "exec_task evp yy (h, tm, op) t = Some t'"
  shows "same_task t t'"
proof -
  have "at_seed t' = at_seed t" "state_step t t'" using exec_task_pools[OF assms] by (simp_all add: pools_step_def)
  moreover have "at_task_id (fold (on_tracker_event h) evs t) = at_task_id t \<and> at_is_seed (fold (on_tracker_event h) evs t) = at_is_seed t" for evs t
  proof (induction evs arbitrary: t)
    case (Cons ev evs)
    have "at_task_id (on_tracker_event h ev t) = at_task_id t \<and> at_is_seed (on_tracker_event h ev t) = at_is_seed t" by (cases ev) simp_all
    then show ?case using Cons by simp
  qed simp
  then have "at_task_id t' = at_task_id t \<and> at_is_seed t' = at_is_seed t"
    using assms task_tick_same[of t h tm]
    by (cases op) (auto simp: on_pools_def on_attempt_def tick_parts_identity same_task_def split: option.splits)
  ultimately show ?thesis by (simp add: same_task_def)
qed

definition evolved :: "(string \<times> ActiveTask) list \<Rightarrow> (string \<times> ActiveTask) list \<Rightarrow> bool" where
  "evolved = list_all2 (\<lambda>e e'. fst e' = fst e \<and> same_task (snd e) (snd e'))"

lemma evolved_refl: "evolved ts ts"
  by (simp add: evolved_def list_all2_refl)

lemma evolved_map: "(\<And>t. same_task t (f t)) \<Longrightarrow> evolved ts (map (\<lambda>(tid, t). (tid, f t)) ts)"
  by (auto simp: evolved_def list_all2_conv_all_nth split: prod.split)

lemma evolved_ok:
  assumes "evolved ts ts'" "tasks_ok ts"
  shows "tasks_ok ts'"
proof -
  have "map fst ts' = map fst ts" using assms(1)
    by (auto simp: evolved_def list_all2_conv_all_nth intro!: nth_equalityI)
  moreover have "at_task_id t' = tid \<and> length tid = 8 \<and> task_kind_ok t' \<and> length (chunks (at_seed t')) = unat (chunk_count (header (at_seed t')))"
    if m: "(tid, t') \<in> set ts'" for tid t'
  proof -
    obtain i where i: "i < length ts'" "ts' ! i = (tid, t')" using m by (auto simp: in_set_conv_nth)
    then have "same_task (snd (ts ! i)) t'" "fst (ts ! i) = tid" "ts ! i \<in> set ts"
      using assms(1) by (auto simp: evolved_def list_all2_conv_all_nth)
    then show ?thesis using assms(2) same_task_ok[of "snd (ts ! i)" t' tid] by (auto simp: tasks_ok_def)
  qed
  ultimately show ?thesis using assms(2) by (auto simp: tasks_ok_def)
qed

lemma each_task_evolved:
  assumes "\<And>t. same_task t (snd (f t))"
  shows "evolved ts (snd (each_task f ts))"
proof (induction ts)
  case (Cons e ts)
  obtain tid t where e: "e = (tid, t)" by fastforce
  obtain b t' where f: "f t = (b, t')" by fastforce
  have "same_task t t'" using assms[of t] f by simp
  then show ?case using Cons evolved_refl[of ts] by (cases b) (auto simp: e f evolved_def split: prod.split)
qed (simp add: evolved_def)

lemma peer_mgr_same: "same_task t (t\<lparr>at_peer_mgr := pm\<rparr>)"
  by (simp add: same_task_def state_step_def)

lemma each_peer_mgr_evolved: "evolved (tm_tasks tm) (tm_tasks (each_peer_mgr f tm))"
  by (simp add: each_peer_mgr_def evolved_map peer_mgr_same)

lemma tick_evolved: "evolved (tm_tasks tm) (tm_tasks (snd (tick_tasks h tm)))"
  using each_task_evolved[of "task_tick h tm" "tm_tasks tm"] task_tick_same by (auto simp: tick_tasks_def split: prod.split)

lemma announce_evolved: "evolved (tm_tasks tm) (tm_tasks (snd (tick_tracker_announce h tm)))"
  using each_task_evolved[of "announce_task_now h tm" "tm_tasks tm"] announce_same by (auto simp: tick_tracker_announce_def split: prod.split)

lemma heartbeat_body_ok:
  assumes "tasks_ok (tm_tasks tm)"
  shows "tasks_ok (tm_tasks (snd (heartbeat_body h n tm)))"
proof -
  obtain ok tm1 where t: "tick_tasks h tm = (ok, tm1)" by fastforce
  then have ok1: "tasks_ok (tm_tasks tm1)" using evolved_ok[OF tick_evolved assms, of h] by simp
  let ?tm2 = "if n mod 100 = 0 then tick_choke_all h tm1 else tm1"
  let ?tm3 = "if n mod 60 = 0 then ?tm2\<lparr>tm_tracker := cleanup_stale (h_now h) 90 (tm_tracker ?tm2)\<rparr> else ?tm2"
  have ok3: "tasks_ok (tm_tasks ?tm3)"
    using evolved_ok[OF each_peer_mgr_evolved ok1] ok1 by (simp add: tick_choke_all_def)
  obtain ok' tm4 where t4: "(if n mod 300 = 0 then tick_tracker_announce h ?tm3 else (True, ?tm3)) = (ok', tm4)" by fastforce
  then have ok4: "tasks_ok (tm_tasks tm4)" using evolved_ok[OF announce_evolved ok3, of h] ok3 by (auto split: if_splits)
  show ?thesis using t t4 ok1 ok4 evolved_ok[OF each_peer_mgr_evolved ok4]
    by (cases ok; cases ok') (simp_all add: heartbeat_body_def Let_def tick_pex_all_def)
qed

lemma set_task_put: "set (task_put k v es) \<subseteq> insert (k, v) (set es)"
  by (induction k v es rule: task_put.induct) auto

lemma keys_task_put: "fst ` set (task_put k v es) = insert k (fst ` set es)"
  by (induction k v es rule: task_put.induct) auto

lemma sorted_task_put: "sorted_wrt (<) (map fst es) \<Longrightarrow> sorted_wrt (<) (map fst (task_put (k :: string) v es))"
proof (induction k v es rule: task_put.induct)
  case (2 k v k' v' es)
  have "\<forall>x \<in> fst ` set (task_put k v es). k' < x" if "k \<noteq> k'" "\<not> k < k'"
    using 2(2) that unfolding keys_task_put by auto
  then show ?case using 2 by (auto dest: order.strict_trans)
qed simp

definition good_task :: "ActiveTask \<Rightarrow> bool" where
  "good_task t \<longleftrightarrow> length (at_task_id t) = 8 \<and> task_kind_ok t \<and> length (chunks (at_seed t)) = unat (chunk_count (header (at_seed t)))"

lemma store_task_ok:
  assumes "good_task t" "tasks_ok (tm_tasks tm)"
  shows "tasks_ok (tm_tasks (snd (store_task h t resp tm)))"
proof -
  let ?t = "snd (announce_task_now h tm t)"
  have "tm_tasks (snd (store_task h t resp tm)) = task_put (at_task_id t) ?t (tm_tasks tm)"
    by (simp add: store_task_def Let_def split: prod.split)
  moreover have "at_task_id ?t = at_task_id t \<and> length (at_task_id t) = 8 \<and> task_kind_ok ?t
      \<and> length (chunks (at_seed ?t)) = unat (chunk_count (header (at_seed ?t)))"
    using same_task_ok[OF announce_same[of t h tm], of "at_task_id t"] assms(1) by (auto simp: good_task_def)
  ultimately show ?thesis using assms(2) sorted_task_put[of "tm_tasks tm" "at_task_id t" ?t] set_task_put[of "at_task_id t" ?t "tm_tasks tm"]
    by (fastforce simp: tasks_ok_def)
qed

lemma gen_task_id_length [simp]: "length (gen_task_id rng) = 8"
  by (simp add: gen_task_id_def)

lemma cmd_seed_ok:
  assumes "tasks_ok (tm_tasks tm)"
  shows "tasks_ok (tm_tasks (snd (cmd_seed h seed_path file_path tm)))"
proof (cases "read_tseed (pf_order (h_platform h)) (h_sha1 h) (h_file h seed_path)")
  case (Inr seed)
  then show ?thesis using assms read_tseed_chunks[OF Inr]
    by (auto simp: cmd_seed_def Let_def good_task_def new_task_def task_kind_ok_def intro!: store_task_ok)
qed (simp add: cmd_seed_def assms)

lemma cmd_add_ok:
  assumes "tasks_ok (tm_tasks tm)"
  shows "tasks_ok (tm_tasks (snd (snd (cmd_add h seed_path save_path tm))))"
proof (cases "read_tseed (pf_order (h_platform h)) (h_sha1 h) (h_file h seed_path)")
  case (Inr seed)
  have "good_task ((new_task h (gen_task_id (h_random h)) seed a b pl pm)\<lparr>at_writer := w, at_bytes_done := n\<rparr>)" for a b pl pm w n
    using read_tseed_chunks[OF Inr] by (simp add: good_task_def new_task_def task_kind_ok_def)
  note st = store_task_ok[OF this assms]
  show ?thesis unfolding cmd_add_def Inr Let_def sum.case case_prod_unfold using assms st
    by (simp split: option.split)
qed (simp add: cmd_add_def assms)

lemma cmd_update_ok:
  assumes "tasks_ok (tm_tasks tm)"
  shows "tasks_ok (tm_tasks (snd (snd (cmd_update h new_seed new_file old_seed old_file tm))))"
proof (cases "read_tseed (pf_order (h_platform h)) (h_sha1 h) (h_file h new_seed)")
  case (Inr seed)
  have "good_task ((new_task h (gen_task_id (h_random h)) seed a b pl pm)\<lparr>at_writer := w, at_bytes_done := n\<rparr>)" for a b pl pm w n
    using read_tseed_chunks[OF Inr] by (simp add: good_task_def new_task_def task_kind_ok_def)
  note st = store_task_ok[OF this assms]
  show ?thesis unfolding cmd_update_def Inr Let_def sum.case case_prod_unfold using assms st
    by (simp split: option.split)
qed (simp add: cmd_update_def assms)

lemma cmd_remove_ok: "tasks_ok (tm_tasks tm) \<Longrightarrow> tasks_ok (tm_tasks (snd (cmd_remove tid tm)))"
  by (auto simp: cmd_remove_def tasks_ok_def sorted_wrt_map sorted_wrt_filter)

lemma ipc_handle_ok:
  assumes "tasks_ok (tm_tasks tm)"
  shows "tasks_ok (tm_tasks (snd (snd (ipc_handle h what show_double request tm))))"
  using assms cmd_seed_ok cmd_add_ok cmd_update_ok cmd_remove_ok
  unfolding ipc_handle_def Let_def case_prod_unfold by (simp split: option.split)

lemma on_task_ok:
  assumes "on_task tid f tm = Some tm'" "\<And>t t'. f t = Some t' \<Longrightarrow> same_task t t'" "tasks_ok (tm_tasks tm)"
  shows "tasks_ok (tm_tasks tm')"
proof -
  obtain t t' where t: "map_of (tm_tasks tm) tid = Some t" "f t = Some t'"
      "tm' = tm\<lparr>tm_tasks := map (\<lambda>(k, v). if k = tid then (k, t') else (k, v)) (tm_tasks tm)\<rparr>"
    using assms(1) by (auto simp: on_task_def split: option.splits)
  have "distinct (map fst (tm_tasks tm))" using assms(3) unfolding tasks_ok_def strict_sorted_iff by (elim conjE)
  then have "v = t" if "(tid, v) \<in> set (tm_tasks tm)" for v using that t(1) by (simp add: map_of_eq_Some_iff)
  then have "evolved (tm_tasks tm) (tm_tasks tm')" using assms(2)[OF t(2)]
    by (auto simp: t(3) evolved_def list_all2_conv_all_nth split: prod.split) (metis nth_mem)
  then show ?thesis using evolved_ok assms(3) by blast
qed

text \<open>C12. The daemon's invariant. Whatever requests arrive and however heartbeats, statistics, workers,
  tracker answers, connections and signals interleave, the tasks are kept under distinct ids of eight
  characters in order, each task knows its id, a task is seeding exactly when it is a seed and otherwise
  downloading, waiting or complete, and its seed has as many chunk entries as it counts.\<close>

theorem daemon_invariant:
  assumes "daemon_run evp yy what show_double (start_daemon args) ops dm"
  shows "tasks_ok (tm_tasks (dm_task_mgr dm))"
  using assms
proof (induction rule: daemon_run.induct)
  case daemon_start
  show ?case by (simp add: start_daemon_def new_task_manager_def tasks_ok_def)
next
  case (daemon_step ops dm op dm')
  obtain h k where op: "op = (h, k)" by fastforce
  show ?case
  proof (cases k)
    case (Dm_request received)
    then show ?thesis using daemon_step op ipc_handle_ok[OF daemon_step.IH]
      by (auto simp: ipc_handle_client_def case_prod_unfold split: option.splits list.splits)
  next
    case (Dm_heartbeat cancelled)
    then show ?thesis using daemon_step op heartbeat_body_ok[OF daemon_step.IH, of h "dm_tick_count dm + 1"]
      by (auto simp: heartbeat_def Let_def case_prod_unfold split: bool.split)
  next
    case (Dm_stats cancelled)
    then show ?thesis using daemon_step op evolved_ok[OF each_peer_mgr_evolved daemon_step.IH]
      by (auto simp: do_stats_tick_def Let_def)
  next
    case (Dm_task tid t)
    then obtain tm where x: "on_task tid (exec_task evp yy (h, dm_task_mgr dm, t)) (dm_task_mgr dm) = Some tm" "dm_task_mgr dm' = tm"
      using daemon_step.hyps(2) op by auto
    then show ?thesis using on_task_ok[OF x(1) _ daemon_step.IH] exec_task_same by blast
  qed (use daemon_step op in auto)
qed

lemma handled_whole:
  assumes "req \<noteq> []" "length req \<le> 65536"
  shows "ipc_handle_client h what show_double (Some req) tm =
     (case ipc_handle h what show_double req tm of (resp, fs, tm') \<Rightarrow> (Some (resp @ [newline]), fs, tm'))"
proof -
  have "take 65536 req = req" using assms(2) by simp
  then show ?thesis using assms(1) by (cases req) (simp_all add: ipc_handle_client_def)
qed

definition add_request :: string where
  "add_request = field ''cmd'' ''add'' @ field ''seed_path'' ''s'' @ field ''save_path'' ''f''"

lemma add_request_arguments:
  "ipc_extract add_request ''cmd'' = ''add''" "ipc_extract add_request ''seed_path'' = ''s''" "ipc_extract add_request ''save_path'' = ''f''"
  by (simp_all add: add_request_def ipc_extract_def ipc_key_def field_def quoted_def)

theorem daemon_invariant_witness:
  "\<exists>dm. daemon_run (\<lambda>_. None) (\<lambda>_. None) (\<lambda>_. []) (\<lambda>_. []) (start_daemon \<lparr>da_ipc_port = 1, da_tracker_port = 8080, da_p2p_port = 6881, da_tracker_host = ''t''\<rparr>)
       [(example_host, Dm_request (Some add_request)), (example_host, Dm_signal)] dm
     \<and> tm_tasks (dm_task_mgr dm) \<noteq> [] \<and> tasks_ok (tm_tasks (dm_task_mgr dm))"
proof -
  let ?dm = "start_daemon \<lparr>da_ipc_port = 1, da_tracker_port = 8080, da_p2p_port = 6881, da_tracker_host = ''t''\<rparr>"
  have tm: "dm_task_mgr ?dm = new_task_manager 6881 ''t'' 8080" by (simp add: start_daemon_def)
  define r where "r = cmd_add example_host ''s'' ''f'' (dm_task_mgr ?dm)"
  have "tm_tasks (snd (snd r)) \<noteq> []" using example_added unfolding added_def tm r_def by fastforce
  moreover have "add_request \<noteq> []" "length add_request \<le> 65536" by (simp_all add: add_request_def field_def quoted_def)
  then have e: "exec_daemon (\<lambda>_. None) (\<lambda>_. None) (\<lambda>_. []) (\<lambda>_. []) (example_host, Dm_request (Some add_request)) ?dm
      = Some (?dm\<lparr>dm_task_mgr := snd (snd r)\<rparr>)"
    by (simp add: handled_whole ipc_handle_def add_request_arguments Let_def r_def case_prod_unfold)
  have "daemon_run (\<lambda>_. None) (\<lambda>_. None) (\<lambda>_. []) (\<lambda>_. []) ?dm
       (([] @ [(example_host, Dm_request (Some add_request))]) @ [(example_host, Dm_signal)]) (?dm\<lparr>dm_task_mgr := snd (snd r), dm_running := False\<rparr>)"
    by (rule daemon_step[OF daemon_step[OF daemon_start e]]) simp
  then have run: "daemon_run (\<lambda>_. None) (\<lambda>_. None) (\<lambda>_. []) (\<lambda>_. []) ?dm
       [(example_host, Dm_request (Some add_request)), (example_host, Dm_signal)] (?dm\<lparr>dm_task_mgr := snd (snd r), dm_running := False\<rparr>)" by simp
  ultimately show ?thesis using daemon_invariant[OF run] run by fastforce
qed

section \<open>The heartbeat\<close>

text \<open>C28. A tracker name that does not resolve stops the daemon. When the first task is due for a start-up
  announcement and the resolver does not know its tracker, the exception ends the heartbeat: the other
  tasks are not ticked, the daemon stops running, and no later timer event changes anything, although the
  process stays and goes on answering requests.\<close>

theorem unresolvable_tracker_stops:
  fixes h dm t
  defines "t1 \<equiv> mark_waiting (check_complete h (take_results h t))" and "dm' \<equiv> heartbeat h False dm"
  assumes "dm_armed dm" "dm_running dm" "tm_tasks (dm_task_mgr dm) = (tid, t) # rest"
    and "\<not> at_is_seed t1" "at_state t1 = ''downloading''" "at_next_startup_announce t1 \<le> h_now h" "h_now h < at_startup_announce_deadline t1"
    and "\<not> h_resolves h (fst (tracker_endpoint (dm_task_mgr dm) (at_seed t)))"
  shows "\<not> dm_running dm' \<and> tl (tm_tasks (dm_task_mgr dm')) = rest \<and> (\<forall>h' cancelled. heartbeat h' cancelled dm' = dm')"
proof -
  have "at_seed t1 = at_seed t" by (simp add: t1_def tick_fields)
  then have "fst (startup_announce h (dm_task_mgr dm) t1) = False"
    using assms(6-10) by (simp add: startup_announce_def announce_task_now_def Let_def)
  then obtain t2 where "task_tick h (dm_task_mgr dm) t = (False, t2)"
    unfolding task_tick_def t1_def[symmetric] by (cases "startup_announce h (dm_task_mgr dm) t1") simp
  then have "heartbeat_body h n (dm_task_mgr dm) = (False, (dm_task_mgr dm)\<lparr>tm_tasks := (tid, t2) # rest\<rparr>)" for n
    using assms(5) by (simp add: heartbeat_body_def tick_tasks_def)
  then have "dm' = dm\<lparr>dm_tick_count := dm_tick_count dm + 1, dm_task_mgr := (dm_task_mgr dm)\<lparr>tm_tasks := (tid, t2) # rest\<rparr>,
      dm_running := False, dm_armed := False\<rparr>"
    using assms(3,4) by (simp add: dm'_def heartbeat_def Let_def)
  then show ?thesis by (simp add: heartbeat_def)
qed

definition stuck_host :: host where
  "stuck_host = example_host\<lparr>h_resolves := (\<lambda>_. False), h_now := 4000000\<rparr>"

definition stuck_manager :: TaskManager where
  "stuck_manager = new_task_manager 6881 ''t'' 8080"

definition stuck_task :: ActiveTask where
  "stuck_task = new_task example_host ''00000000'' example_seed ''f'' ''s'' example_start (task_peer_manager example_host stuck_manager example_seed 1000 [])"

lemma stuck_fields:
  "at_is_seed (mark_waiting (check_complete stuck_host (take_results stuck_host stuck_task))) = False"
  "at_state (mark_waiting (check_complete stuck_host (take_results stuck_host stuck_task))) = ''downloading''"
  "at_next_startup_announce (mark_waiting (check_complete stuck_host (take_results stuck_host stuck_task))) = 3000000"
  "at_startup_announce_deadline (mark_waiting (check_complete stuck_host (take_results stuck_host stuck_task))) = 61000000"
proof -
  have q: "vf_result_queue (pl_verify example_start) = []" by (simp add: example_start_def start_pipeline_def verify_start_def Let_def)
  have r: "at_bytes_done (take_results stuck_host stuck_task) = 0" "at_state (take_results stuck_host stuck_task) = ''downloading''"
      "at_seed (take_results stuck_host stuck_task) = example_seed" "at_tracker_dead (take_results stuck_host stuck_task) = False"
      "at_is_seed (take_results stuck_host stuck_task) = False"
    using q by (simp_all add: tick_fields tick_parts_identity stuck_task_def new_task_def gain_def)
  have "at_next_startup_announce (take_results stuck_host stuck_task) = 3000000"
      "at_startup_announce_deadline (take_results stuck_host stuck_task) = 61000000"
    by (simp_all add: take_results_def Let_def stuck_task_def new_task_def example_host_def split: prod.split)
  then show "at_is_seed (mark_waiting (check_complete stuck_host (take_results stuck_host stuck_task))) = False"
      "at_state (mark_waiting (check_complete stuck_host (take_results stuck_host stuck_task))) = ''downloading''"
      "at_next_startup_announce (mark_waiting (check_complete stuck_host (take_results stuck_host stuck_task))) = 3000000"
      "at_startup_announce_deadline (mark_waiting (check_complete stuck_host (take_results stuck_host stuck_task))) = 61000000"
    using r by (simp_all add: mark_waiting_def check_complete_def Let_def example_seed_def example_header_fields)
qed

theorem unresolvable_tracker_stops_witness:
  "let dm = (start_daemon default_args)\<lparr>dm_task_mgr := stuck_manager\<lparr>tm_tasks := [(''00000000'', stuck_task)]\<rparr>\<rparr>
   in dm_running dm \<and> \<not> dm_running (heartbeat stuck_host False dm)
      \<and> heartbeat example_host False (heartbeat stuck_host False dm) = heartbeat stuck_host False dm"
proof -
  let ?dm = "(start_daemon default_args)\<lparr>dm_task_mgr := stuck_manager\<lparr>tm_tasks := [(''00000000'', stuck_task)]\<rparr>\<rparr>"
  have "\<not> dm_running (heartbeat stuck_host False ?dm) \<and> tl (tm_tasks (dm_task_mgr (heartbeat stuck_host False ?dm))) = []
      \<and> (\<forall>h' cancelled. heartbeat h' cancelled (heartbeat stuck_host False ?dm) = heartbeat stuck_host False ?dm)"
    by (rule unresolvable_tracker_stops[where tid = "''00000000''" and t = stuck_task])
      (simp_all only: stuck_fields, simp_all add: start_daemon_def stuck_host_def)
  then show ?thesis by (simp add: Let_def start_daemon_def)
qed

end
