(* ===== verification/Command_Line.thy ===== *)
theory Command_Line
  imports Daemon
begin

text \<open>
  The command-line client: \<open>src/src/cli/tbt.cpp\<close> and \<open>cli_commands.cpp\<close>. \<open>make\<close> and \<open>info\<close> work on files; the
  other commands send one JSON line to the daemon, reached through \<open>net\<close>, which gives for a port the server
  that answers there, if any. The lemmas show that a command reaches the daemon as it was typed, and that a
  seed made by \<open>make\<close> is read back by every daemon as what it describes.
\<close>

section \<open>Talking to the daemon\<close>

type_synonym network = "u16 \<Rightarrow> (string \<Rightarrow> string) option"

definition send_ipc :: "bool \<Rightarrow> network \<Rightarrow> string \<Rightarrow> u16 \<Rightarrow> string" where
  "send_ipc socket_ok net json port =
     (if \<not> socket_ok then error_json ''socket failed''
      else case net port of
             None \<Rightarrow> error_json ''connect failed''
           | Some serve \<Rightarrow> take 65535 (serve (json @ [newline])))"

definition request :: "string \<Rightarrow> (string \<times> string) list \<Rightarrow> string" where
  "request cmd args = ''{'' @ field ''cmd'' cmd @ '','' @ quoted ''args'' @ '':{'' @ join_comma (map (\<lambda>(k, v). field k v) args) @ ''}}''"

definition update_request :: "string \<Rightarrow> string \<Rightarrow> string \<Rightarrow> string \<Rightarrow> string" where
  "update_request new_seed new_file old_seed old_file =
     request ''update'' [(''new_seed'', new_seed), (''new_file'', new_file), (''old_seed'', old_seed), (''old_file'', old_file)]"

definition cli_update :: "bool \<Rightarrow> network \<Rightarrow> string list \<Rightarrow> u16 \<Rightarrow> string" where
  "cli_update socket_ok net argv ipc_port =
     (if length argv < 6 then error_json ''usage: tbt update <new.tseed> <new_file> <old.tseed> <old_file>''
      else send_ipc socket_ok net (update_request (argv ! 2) (argv ! 3) (argv ! 4) (argv ! 5)) ipc_port)"

section \<open>Making and showing seeds\<close>

definition atoi :: "string \<Rightarrow> int" where
  "atoi s = (case strtol s of None \<Rightarrow> 0 | Some v \<Rightarrow> v)"

record make_options =
  mo_output_path :: string
  mo_announce_ip :: string
  mo_tracker_port :: u16

fun parse_make_options :: "string list \<Rightarrow> make_options \<Rightarrow> make_options" where
  "parse_make_options (a # v # rest) mo =
     (if a = ''-o'' then parse_make_options rest (mo\<lparr>mo_output_path := v\<rparr>)
      else if a = ''--tracker-port'' then parse_make_options rest (mo\<lparr>mo_tracker_port := of_int (atoi v)\<rparr>)
      else if a = ''--announce-ip'' then parse_make_options rest (mo\<lparr>mo_announce_ip := v\<rparr>)
      else parse_make_options (v # rest) mo)"
| "parse_make_options _ mo = mo"

definition make_announce_url :: "string \<Rightarrow> u16 \<Rightarrow> string" where
  "make_announce_url local_ip tracker_port = ''thinbt://'' @ local_ip @ '':'' @ show_nat (unat tracker_port) @ ''/announce''"

definition base_name :: "string \<Rightarrow> string" where
  "base_name path = rev (takeWhile (\<lambda>ch. ch \<noteq> CHR ''/'' \<and> ch \<noteq> CHR 0x5C) (rev path))"

definition make_info_hash :: "endian \<Rightarrow> (bytes \<Rightarrow> bytes) \<Rightarrow> bytes \<Rightarrow> ChunkEntry list \<Rightarrow> string" where
  "make_info_hash e sha file_digest cs =
     digest_hex (sha (take 32 file_digest
       @ concat (map (\<lambda>c. mem e 8 (hton64 e (ce_offset c)) @ mem e 4 (hton32 e (ce_length c)) @ take 32 (ce_sha256 c)) cs)))"

definition make_json :: "string \<Rightarrow> string \<Rightarrow> nat \<Rightarrow> nat \<Rightarrow> string" where
  "make_json seed_path hash n bytes_total = ''{'' @ field ''status'' ''ok'' @ '','' @ quoted ''data'' @ '':{'' @ join_comma
     [field ''seed_path'' seed_path, field ''info_hash'' hash, raw_field ''chunk_count'' (show_nat n), raw_field ''file_size'' (show_nat bytes_total)] @ ''}}''"

text \<open>\<open>left_over\<close> is what a failing write leaves in the output file, \<open>None\<close> when every write succeeds. The
  digest that is printed is taken of the file as it is after the seed has been written.\<close>

definition cli_make :: "host \<Rightarrow> bool \<Rightarrow> bytes option \<Rightarrow> (exn \<Rightarrow> string) \<Rightarrow> string list \<Rightarrow> string \<times> files" where
  "cli_make h created left_over what argv =
     (if length argv < 3
      then (error_json ''usage: tbt make <file> [-o output] [--tracker-port 8080] [--announce-ip auto]'', h_file h)
      else let file_path = argv ! 2;
               mo = parse_make_options (drop 3 argv) \<lparr>mo_output_path = [], mo_announce_ip = ''auto'', mo_tracker_port = 8080\<rparr>;
               output_path = (if mo_output_path mo = [] then file_path @ ''.tseed'' else mo_output_path mo);
               local_ip = (if mo_announce_ip mo = ''auto'' then get_local_ip (h_ifaddrs h) else mo_announce_ip mo);
               cs = scan_path h (h_file h file_path) default_config
           in if local_ip = [] then (error_json ''cannot detect local IP'', h_file h)
              else if cs = [] then (error_json ''file is empty or unreadable'', h_file h)
              else case write_tseed (pf_order (h_platform h)) (h_sha256 h) (h_file h file_path) created (left_over = None) (base_name file_path)
                          (make_announce_url local_ip (mo_tracker_port mo)) cs
                          (min_size default_config) (avg_size default_config) (max_size default_config) of
                     Inl err \<Rightarrow> (error_json (what (Seed_error err)), if err = WriteFailed then (h_file h)(output_path := left_over) else h_file h)
                   | Inr written_seed \<Rightarrow>
                       let fs = (h_file h)(output_path \<mapsto> written_seed)
                       in (make_json output_path
                             (make_info_hash (pf_order (h_platform h)) (h_sha1 h) (h_sha256 h (the (fs file_path))) cs)
                             (unat (of_nat (length cs) :: u32)) (unat (total_file_size cs)), fs))"

definition info_json :: "string \<Rightarrow> TSeedFile \<Rightarrow> string" where
  "info_json seed_path seed = ''{'' @ field ''status'' ''ok'' @ '','' @ quoted ''data'' @ '':{'' @ join_comma
     [field ''seed_path'' seed_path, field ''file_name'' (file_name seed), raw_field ''file_size'' (show_nat (unat (file_size (header seed)))),
      field ''info_hash'' (digest_hex (info_hash seed)), raw_field ''chunk_count'' (show_nat (unat (chunk_count (header seed)))),
      raw_field ''min_chunk_size'' (show_nat (unat (min_chunk_size (header seed)))), raw_field ''avg_chunk_size'' (show_nat (unat (avg_chunk_size (header seed)))),
      raw_field ''max_chunk_size'' (show_nat (unat (max_chunk_size (header seed)))), field ''announce_url'' (announce_url seed)] @ ''}}''"

definition cli_info :: "host \<Rightarrow> (exn \<Rightarrow> string) \<Rightarrow> string list \<Rightarrow> string" where
  "cli_info h what argv =
     (if length argv < 3 then error_json ''usage: tbt info <.tseed>''
      else case read_tseed (pf_order (h_platform h)) (h_sha1 h) (h_file h (argv ! 2)) of
             Inl err \<Rightarrow> error_json (what (Seed_error err))
           | Inr seed \<Rightarrow> info_json (argv ! 2) seed)"

section \<open>The client's main function\<close>

text \<open>The options before the command: the port and the index of the command, which stays 1 when there is none.\<close>

fun ipc_options :: "string list \<Rightarrow> nat \<Rightarrow> u16 \<Rightarrow> u16 \<times> nat" where
  "ipc_options (a # v # rest) i port = (if a = ''--ipc-port'' then ipc_options rest (i + 2) (of_int (atoi v)) else (port, i))"
| "ipc_options [a] i port = (port, i)"
| "ipc_options [] i port = (port, 1)"

datatype tbt_call = Tbt_usage | Tbt_make | Tbt_info | Tbt_update | Tbt_send string

definition tbt_dispatch :: "string list \<Rightarrow> tbt_call" where
  "tbt_dispatch sub =
     (let cmd = sub ! 1; n = length sub in
      if cmd = ''make'' then Tbt_make
      else if cmd = ''info'' \<and> n \<ge> 3 then Tbt_info
      else if cmd = ''add'' \<and> n \<ge> 3 then
        Tbt_send (request ''add'' [(''seed_path'', sub ! 2), (''save_path'', if n \<ge> 4 then sub ! 3 else ''downloaded_file'')])
      else if cmd = ''seed'' \<and> n \<ge> 4 then Tbt_send (request ''seed'' [(''seed_path'', sub ! 2), (''file_path'', sub ! 3)])
      else if cmd = ''list'' then Tbt_send (request ''list'' [])
      else if cmd = ''update'' \<and> n \<ge> 6 then Tbt_update
      else if cmd = ''update'' \<and> n \<ge> 3 then Tbt_send (request ''update'' [(''task_id'', sub ! 2)])
      else if cmd = ''peers'' \<and> n \<ge> 3 then Tbt_send (request ''peers'' [(''task_id'', sub ! 2)])
      else if cmd = ''remove'' \<and> n \<ge> 3 then Tbt_send (request ''remove'' [(''task_id'', sub ! 2)])
      else Tbt_usage)"

text \<open>The exit code and what is printed on standard output.\<close>

definition tbt_main ::
    "host \<Rightarrow> bool \<Rightarrow> bytes option \<Rightarrow> (exn \<Rightarrow> string) \<Rightarrow> bool \<Rightarrow> network \<Rightarrow> string list \<Rightarrow> nat \<times> string \<times> files" where
  "tbt_main h created left_over what socket_ok net argv =
     (let (ipc_port, first_cmd) = ipc_options (tl argv) 1 16888;
          sub = drop (first_cmd - 1) argv
      in if first_cmd \<ge> length argv then (1, [], h_file h)
         else case tbt_dispatch sub of
                Tbt_usage \<Rightarrow> (0, error_json ''usage'' @ [newline], h_file h)
              | Tbt_make \<Rightarrow> (case cli_make h created left_over what sub of (text, fs) \<Rightarrow> (0, text @ [newline], fs))
              | Tbt_info \<Rightarrow> (0, cli_info h what sub @ [newline], h_file h)
              | Tbt_update \<Rightarrow> (0, cli_update socket_ok net sub ipc_port @ [newline], h_file h)
              | Tbt_send json \<Rightarrow> (0, send_ipc socket_ok net json ipc_port @ [newline], h_file h))"

section \<open>A request arrives as it was sent\<close>

lemma key_skip_char: "c \<noteq> dquote \<Longrightarrow> find_after (ipc_key key) (c # s) = find_after (ipc_key key) s"
  by (simp add: ipc_key_def)

lemma until_quote: "dquote \<notin> set v \<Longrightarrow> takeWhile (\<lambda>ch. ch \<noteq> dquote) (v @ dquote # s) = v"
  by (induction v) auto

lemma first_quote:
  assumes "dquote \<notin> set a" "dquote \<notin> set b" "take n (b @ dquote # t) = a @ dquote # r"
  shows "a = b"
proof -
  have "b @ dquote # t = (a @ dquote # r) @ drop n (b @ dquote # t)"
    unfolding assms(3)[symmetric] by (simp only: append_take_drop_id)
  then have "b @ dquote # t = a @ dquote # (r @ drop n (b @ dquote # t))" by (simp only: append_assoc append_Cons)
  then show ?thesis using until_quote[OF assms(1)] until_quote[OF assms(2)] by metis
qed

text \<open>A quoted text is skipped by the search for another key, or for the same text when it is not a key.\<close>

lemma key_skip_quoted:
  assumes "dquote \<notin> set key" "key \<noteq> []" "hd key \<noteq> c" "c \<noteq> dquote" "dquote \<notin> set v" "v \<noteq> key \<or> c \<noteq> CHR '':''"
  shows "find_after (ipc_key key) (quoted v @ c # s) = find_after (ipc_key key) s"
proof -
  have "take (length (ipc_key key)) (quoted v @ c # s) \<noteq> ipc_key key"
  proof
    assume "take (length (ipc_key key)) (quoted v @ c # s) = ipc_key key"
    then have t: "take (Suc (Suc (Suc (length key)))) (v @ dquote # c # s) = key @ dquote # [CHR '':'', dquote]"
      by (simp add: ipc_key_def quoted_def)
    then have "key = v" by (rule first_quote[OF assms(1,5)])
    then show False using t assms(6) by simp
  qed
  then have "find_after (ipc_key key) (quoted v @ c # s) = find_after (ipc_key key) (v @ dquote # c # s)"
    by (simp add: quoted_def)
  also have "\<dots> = find_after (ipc_key key) (dquote # c # s)" using find_after_skip[OF assms(5)] by (simp add: ipc_key_def)
  also have "\<dots> = find_after (ipc_key key) (c # s)" using assms(2,3) by (cases key) (simp_all add: ipc_key_def)
  finally show ?thesis using key_skip_char[OF assms(4)] by simp
qed

lemma key_found: "find_after (ipc_key key) (field key v @ s) = Some (v @ dquote # s)"
  by (simp add: ipc_key_def field_def quoted_def)

lemma key_skip_field:
  assumes "dquote \<notin> set key" "key \<noteq> []" "hd key \<notin> {CHR '':'', c}" "c \<noteq> dquote" "c \<noteq> CHR '':''" "dquote \<notin> set k" "dquote \<notin> set v" "k \<noteq> key"
  shows "find_after (ipc_key key) (field k v @ c # s) = find_after (ipc_key key) s"
  using key_skip_quoted[of key "CHR '':''" k "quoted v @ c # s"] key_skip_quoted[of key c v s] assms
  by (simp add: field_def)

definition key_ok :: "string \<Rightarrow> bool" where
  "key_ok key \<longleftrightarrow> key \<noteq> [] \<and> dquote \<notin> set key \<and> hd key \<notin> set '':,{}''"

lemma extract_found: "find_after (ipc_key key) r = Some (v @ dquote # s) \<Longrightarrow> dquote \<notin> set v \<Longrightarrow> ipc_extract r key = v"
  by (simp add: ipc_extract_def until_quote del: find_after.simps)

lemma request_skips:
  assumes "key_ok key" "key \<noteq> ''cmd''" "key \<noteq> ''args''" "dquote \<notin> set cmd"
  shows "find_after (ipc_key key) (request cmd args @ s) = find_after (ipc_key key) (join_comma (map (\<lambda>(k, v). field k v) args) @ ''}}'' @ s)"
proof -
  have k: "dquote \<notin> set key" "key \<noteq> []" "hd key \<noteq> CHR '':''" "hd key \<noteq> CHR '',''" using assms(1) by (auto simp: key_ok_def)
  show ?thesis unfolding request_def
    using key_skip_field[of key "CHR '',''" "''cmd''" cmd] key_skip_quoted[of key "CHR '':''" "''args''"] k assms(2-4)
    by (simp add: key_skip_char del: find_after.simps)
qed

lemma args_found:
  assumes "key_ok key" "\<forall>(k, v) \<in> set args. k \<noteq> key \<and> dquote \<notin> set k \<and> dquote \<notin> set v"
  shows "find_after (ipc_key key) (join_comma (map (\<lambda>(k, v). field k v) (args @ (key, v) # rest)) @ s) = Some (v @ dquote # tl (join_comma (''x'' # map (\<lambda>(k, v). field k v) rest)) @ s)"
  using assms(2)
proof (induction args)
  case Nil
  have "join_comma (map (\<lambda>(k, v). field k v) ((key, v) # rest)) = field key v @ tl (join_comma (''x'' # map (\<lambda>(k, v). field k v) rest))"
    by (cases rest) auto
  then show ?case using key_found[of key v] by (simp del: find_after.simps)
next
  case (Cons a args)
  obtain k w where a: "a = (k, w)" by fastforce
  have "join_comma (map (\<lambda>(k, v). field k v) ((a # args) @ (key, v) # rest)) = field k w @ '','' @ join_comma (map (\<lambda>(k, v). field k v) (args @ (key, v) # rest))"
    by (cases args) (auto simp: a)
  then show ?case using Cons key_skip_field[of key "CHR '',''" k w] assms(1) a by (auto simp: key_ok_def simp del: find_after.simps)
qed

text \<open>The value of an argument, whichever position it has.\<close>

lemma request_argument:
  assumes "key_ok key" "key \<noteq> ''cmd''" "key \<noteq> ''args''" "dquote \<notin> set cmd" "dquote \<notin> set v"
    and "\<forall>(k, w) \<in> set before. k \<noteq> key \<and> dquote \<notin> set k \<and> dquote \<notin> set w"
  shows "ipc_extract (request cmd (before @ (key, v) # rest) @ s) key = v"
  by (rule extract_found[OF _ assms(5)])
    (simp only: request_skips[OF assms(1-4)] args_found[OF assms(1,6)])

lemma request_command: "dquote \<notin> set cmd \<Longrightarrow> ipc_extract (request cmd args @ s) ''cmd'' = cmd"
  by (rule extract_found) (simp_all add: request_def key_skip_char key_found del: find_after.simps)

text \<open>What a command line leads to: the request it sends, read by the daemon in one piece, has this answer and
  these effects.\<close>

definition tbt_request :: "string list \<Rightarrow> string option" where
  "tbt_request argv =
     (case tbt_dispatch argv of
        Tbt_send req \<Rightarrow> Some req
      | Tbt_update \<Rightarrow> Some (update_request (argv ! 2) (argv ! 3) (argv ! 4) (argv ! 5))
      | _ \<Rightarrow> None)"

definition delivers ::
    "host \<Rightarrow> (exn \<Rightarrow> string) \<Rightarrow> (rat \<Rightarrow> string) \<Rightarrow> TaskManager \<Rightarrow> string list \<Rightarrow> string \<times> files \<times> TaskManager \<Rightarrow> bool" where
  "delivers h what show_double tm argv result \<longleftrightarrow>
     (\<exists>req. tbt_request argv = Some req \<and>
        ipc_handle_client h what show_double (Some (req @ [newline])) tm = (case result of (resp, fs, tm') \<Rightarrow> (Some (resp @ [newline]), fs, tm')))"

text \<open>The keys of the client's requests.\<close>

lemma key_oks: "key_ok ''seed_path''" "key_ok ''save_path''" "key_ok ''file_path''" "key_ok ''task_id''"
  "key_ok ''new_seed''" "key_ok ''new_file''" "key_ok ''old_seed''" "key_ok ''old_file''"
  by (simp_all add: key_ok_def)

lemma request1:
  assumes "key_ok k" "k \<noteq> ''cmd''" "k \<noteq> ''args''" "dquote \<notin> set cmd" "dquote \<notin> set v"
  shows "ipc_extract (request cmd ((k, v) # rest) @ s) k = v"
  using request_argument[of k cmd v "[]" rest s] assms by simp

lemma request2:
  assumes "key_ok k" "k \<noteq> ''cmd''" "k \<noteq> ''args''" "dquote \<notin> set cmd" "dquote \<notin> set v"
    "k1 \<noteq> k" "dquote \<notin> set k1" "dquote \<notin> set v1"
  shows "ipc_extract (request cmd ((k1, v1) # (k, v) # rest) @ s) k = v"
  using request_argument[of k cmd v "[(k1, v1)]" rest s] assms by simp

lemma update_arguments:
  assumes "dquote \<notin> set a" "dquote \<notin> set b" "dquote \<notin> set c" "dquote \<notin> set d"
  shows "ipc_extract (update_request a b c d @ s) ''new_seed'' = a" "ipc_extract (update_request a b c d @ s) ''new_file'' = b"
    "ipc_extract (update_request a b c d @ s) ''old_seed'' = c" "ipc_extract (update_request a b c d @ s) ''old_file'' = d"
    "ipc_extract (update_request a b c d @ s) ''cmd'' = ''update''"
proof -
  let ?a = "(''new_seed'', a)" and ?b = "(''new_file'', b)" and ?c = "(''old_seed'', c)" and ?d = "(''old_file'', d)"
  show "ipc_extract (update_request a b c d @ s) ''new_seed'' = a" "ipc_extract (update_request a b c d @ s) ''new_file'' = b"
    using assms by (simp_all add: update_request_def request1 request2 key_oks)
  show "ipc_extract (update_request a b c d @ s) ''old_seed'' = c"
    using request_argument[OF key_oks(7), of "''update''" c "[?a, ?b]" "[?d]" s] assms by (simp add: update_request_def)
  show "ipc_extract (update_request a b c d @ s) ''old_file'' = d"
    using request_argument[OF key_oks(8), of "''update''" d "[?a, ?b, ?c]" "[]" s] assms by (simp add: update_request_def)
  show "ipc_extract (update_request a b c d @ s) ''cmd'' = ''update''" by (simp add: update_request_def request_command)
qed

lemma deliversI:
  assumes "length req < 65536" "tbt_request argv = Some req" "ipc_handle h what show_double (req @ [newline]) tm = result"
  shows "delivers h what show_double tm argv result"
  using assms handled_whole[of "req @ [newline]"] by (simp add: delivers_def)



section \<open>A made seed describes its file\<close>

lemma tiled_total:
  assumes "tiled start stop cs" "stop < 2 ^ 64" "unat m = start"
  shows "unat (foldl (\<lambda>total c. let chunk_end = ce_offset c + ucast (ce_length c) in if chunk_end > total then chunk_end else total) m cs) = stop"
  using assms
proof (induction cs arbitrary: start m)
  case (Cons c cs)
  have le: "start + unat (ce_length c) \<le> stop" using tiled_range[OF Cons.prems(1), of c] Cons.prems(1) by simp
  have "unat (ce_offset c + ucast (ce_length c)) = start + unat (ce_length c)"
    using Cons.prems(1,2) le by (simp add: unat_word_ariths widen_u32)
  moreover have "ce_offset c + ucast (ce_length c) > m"
    unfolding word_less_nat_alt using calculation Cons.prems by simp
  ultimately show ?case using Cons.IH[of "start + unat (ce_length c)"] Cons.prems by (simp add: Let_def)
qed simp

lemma tiled_count:
  assumes "tiled start stop cs" "\<forall>c \<in> set (butlast cs). m \<le> unat (ce_length c)"
  shows "start + (length cs - 1) * m \<le> stop"
  using assms
proof (induction cs arbitrary: start)
  case (Cons c cs)
  show ?case
  proof (cases cs)
    case Nil
    then show ?thesis using Cons.prems by simp
  next
    case (Cons d ds)
    then show ?thesis using Cons.IH[of "start + unat (ce_length c)"] Cons.prems by simp
  qed
qed simp

lemma scan_path_file:
  assumes "length data < 2 ^ 64"
  shows "scan_path h (Some data) cfg = scan_loop (h_sha256 h) (start_state data cfg) 0 0 0"
    "tiled 0 (length data) (scan_path h (Some data) cfg)"
    "concat (map (chunk_bytes data) (scan_path h (Some data) cfg)) = data"
    "c \<in> set (scan_path h (Some data) cfg) \<Longrightarrow> ce_sha256 c = h_sha256 h (chunk_bytes data c)"
proof -
  show scan: "scan_path h (Some data) cfg = scan_loop (h_sha256 h) (start_state data cfg) 0 0 0"
    by (simp add: scan_path_def fastcdc_scan_file_def scan_buffer_loop)
  show t: "tiled 0 (length data) (scan_path h (Some data) cfg)" unfolding scan using scan_buffer_lemmas(1)[OF assms, of cfg "h_sha256 h" 0] by simp
  then show "concat (map (chunk_bytes data) (scan_path h (Some data) cfg)) = data" by (simp add: tiled_concat)
  show "ce_sha256 c = h_sha256 h (chunk_bytes data c)" if "c \<in> set (scan_path h (Some data) cfg)"
    using that scan_buffer_lemmas(2)[OF assms, of "h_sha256 h" cfg 0] unfolding scan by simp
qed

text \<open>At least 16 KiB for every chunk but the last: a file below 2 to the 45 bytes has fewer chunks than the
  32-bit count of the seed can hold.\<close>

lemma scan_path_count:
  assumes "length data < 2 ^ 45"
  shows "length (scan_path h (Some data) default_config) < 2 ^ 32"
proof -
  have l: "length data < 2 ^ 64" using assms by simp
  have "\<forall>c \<in> set (butlast (scan_path h (Some data) default_config)). 16384 \<le> unat (ce_length c)"
    unfolding scan_path_file(1)[OF l] using scan_buffer_lemmas(4)[OF l, of "h_sha256 h" default_config 0] by (simp add: default_config_def)
  from tiled_count[OF scan_path_file(2)[OF l] this] show ?thesis using assms by simp
qed

definition make_argv :: "string \<Rightarrow> string \<Rightarrow> string \<Rightarrow> u16 \<Rightarrow> string \<Rightarrow> string list" where
  "make_argv prog path output_path port ip =
     [prog, ''make'', path, ''-o'', output_path, ''--tracker-port'', show_nat (unat port), ''--announce-ip'', ip]"

lemma atoi_show: "atoi (show_nat (unat (port :: u16))) = uint port"
proof -
  have "unat port < 2 ^ 16" using unsigned_less[of port, where ?'a = nat] by simp
  then show ?thesis using strtol_number[of "unat port" "[]"] by (simp add: atoi_def)
qed

lemma cli_make_ok:
  assumes "h_file h path = Some data" "data \<noteq> []" "length data < 2 ^ 45" "path \<noteq> output_path" "output_path \<noteq> []" "ip \<noteq> []" "ip \<noteq> ''auto''"
  defines "cs \<equiv> scan_path h (Some data) default_config"
  shows "cli_make h True None what (make_argv prog path output_path port ip) =
     (make_json output_path (make_info_hash (pf_order (h_platform h)) (h_sha1 h) (h_sha256 h data) cs) (length cs) (length data),
      (h_file h)(output_path \<mapsto> seed_file (seed_header (h_sha256 h) data (base_name path) (make_announce_url ip port) cs 16384 131072 1048576)
         (base_name path) (make_announce_url ip port) cs))"
proof -
  have l: "length data < 2 ^ 64" using assms(3) by simp
  have "cs \<noteq> []" using scan_path_file(3)[OF l, of h default_config] assms(2) unfolding cs_def by fastforce
  moreover have "unat (total_file_size cs) = length data"
    unfolding total_file_size_def cs_def using tiled_total[OF scan_path_file(2)[OF l, of h default_config] l, of 0] by simp
  moreover have "unat (of_nat (length cs) :: u32) = length cs" unfolding cs_def by (rule unat_of_nat_u32[OF scan_path_count[OF assms(3)]])
  ultimately show ?thesis using assms(1,4-7)
    by (simp add: cli_make_def make_argv_def atoi_show Let_def write_tseed_ok cs_def[symmetric])
      (simp add: default_config_def)
qed

text \<open>C6. A made seed describes its file. On a host whose digests have 32 bytes, \<open>make\<close> of a non-empty file
  below 2 to the 45 bytes writes a seed that any host reads back as one whose chunks tile the file, spell
  out its bytes in order and carry the digests of their bytes; the size in it is the size of the file, the
  info hash that is printed is the one every reader computes, and a daemon with no tracker of its own turns
  to the announced address and port.\<close>

theorem made_seed_describes_file:
  assumes "h_file h path = Some data" "data \<noteq> []" "length data < 2 ^ 45" "path \<noteq> output_path" "output_path \<noteq> []"
    and "\<forall>bs. length (h_sha256 h bs) = 32" "length path < 2 ^ 32" "length (make_announce_url ip port) < 2 ^ 32"
    and "ip \<noteq> []" "ip \<noteq> ''auto''" "\<forall>ch \<in> set ip. ch \<notin> {CHR '':'', CHR ''/'', CHR 0x00, CHR ''[''}" "1 \<le> port" "tm_tracker_host tm = []"
  shows "\<exists>seed. read_tseed e (h_sha1 h) (snd (cli_make h True None what (make_argv prog path output_path port ip)) output_path) = Inr seed
    \<and> whole_seed seed \<and> unat (file_size (header seed)) = length data \<and> concat (map (chunk_bytes data) (chunks seed)) = data
    \<and> (\<forall>c \<in> set (chunks seed). ce_sha256 c = h_sha256 h (chunk_bytes data c)) \<and> file_name seed = base_name path
    \<and> fst (cli_make h True None what (make_argv prog path output_path port ip))
        = make_json output_path (digest_hex (info_hash seed)) (length (chunks seed)) (length data)
    \<and> tracker_endpoint tm seed = (ip, port)"
proof -
  define cs where "cs = scan_path h (Some data) default_config"
  define hdr where "hdr = seed_header (h_sha256 h) data (base_name path) (make_announce_url ip port) cs 16384 131072 1048576"
  define seed where "seed = \<lparr>header = hdr, file_name = base_name path, announce_url = make_announce_url ip port, chunks = cs,
      info_hash = compute_info_hash e (h_sha1 h) hdr cs\<rparr>"
  have l: "length data < 2 ^ 64" using assms(3) by simp
  note scan = scan_path_file[OF l, where h = h and cfg = default_config, folded cs_def]
  have n: "length cs < 2 ^ 32" unfolding cs_def by (rule scan_path_count[OF assms(3)])
  have "length (base_name path) \<le> length path" unfolding base_name_def using length_takeWhile_le[of _ "rev path"] by simp
  then have b: "length (base_name path) < 2 ^ 32" using assms(7) by simp
  note fields = wf_seed_header_fields[OF n b assms(8), of "h_sha256 h" data 16384 131072 1048576, folded hdr_def]
  have wf: "wf_header hdr" "\<forall>c \<in> set cs. wf_entry c" using assms(6) scan(4) by (simp_all add: hdr_def wf_entry_def)
  have made: "cli_make h True None what (make_argv prog path output_path port ip) =
     (make_json output_path (make_info_hash (pf_order (h_platform h)) (h_sha1 h) (h_sha256 h data) cs) (length cs) (length data),
      (h_file h)(output_path \<mapsto> seed_file hdr (base_name path) (make_announce_url ip port) cs))"
    unfolding hdr_def cs_def by (rule cli_make_ok) (use assms in auto)
  have size: "unat (file_size hdr) = length data"
    using tiled_total[OF scan(2) l, of 0] by (simp add: hdr_def seed_header_def total_file_size_def)
  have "read_tseed e (h_sha1 h) (Some (seed_file hdr (base_name path) (make_announce_url ip port) cs)) = Inr seed"
    unfolding seed_def using read_seed_file[OF wf(1) fields(4-6) wf(2) fields(1-3), of e "h_sha1 h" "[]"] by simp
  moreover have "make_info_hash (pf_order (h_platform h)) (h_sha1 h) (h_sha256 h data) cs = digest_hex (info_hash seed)"
    using assms(6) wf(2) by (simp add: seed_def make_info_hash_def compute_info_hash_def hdr_def seed_header_def wf_entry_def cong: map_cong)
  moreover have "parse_tracker_url (make_announce_url ip port) = Some \<lparr>tu_host = ip, tu_port = port\<rparr>"
    unfolding make_announce_url_def by (rule tracker_url_plain) (use assms(9,11,12) in \<open>auto simp: is_digit_def\<close>)
  then have "tracker_endpoint tm seed = (ip, port)" using assms(9,13) by (simp add: tracker_endpoint_def seed_def)
  ultimately show ?thesis using made scan size fields(1) by (auto simp: seed_def whole_seed_def)
qed

definition make_host :: host where
  "make_host = example_host\<lparr>h_sha256 := (\<lambda>_. replicate 32 7), h_file := [''dir/a'' \<mapsto> [1, 2, 3]]\<rparr>"

theorem made_seed_describes_file_witness:
  "\<exists>seed. read_tseed Big (h_sha1 make_host) (snd (cli_make make_host True None (\<lambda>_. []) (make_argv ''tbt'' ''dir/a'' ''s'' 8080 ''10.0.0.1'')) ''s'') = Inr seed
    \<and> whole_seed seed \<and> unat (file_size (header seed)) = 3 \<and> concat (map (chunk_bytes [1, 2, 3]) (chunks seed)) = [1, 2, 3]
    \<and> file_name seed = ''a'' \<and> tracker_endpoint (new_task_manager 6881 [] 0) seed = (''10.0.0.1'', 8080)"
proof -
  have "length (make_announce_url ''10.0.0.1'' 8080) < 2 ^ 32" by (simp add: make_announce_url_def show_nat.simps)
  moreover have "base_name ''dir/a'' = ''a''" by (simp add: base_name_def)
  moreover have "tm_tracker_host (new_task_manager 6881 [] 0) = []" by (simp add: new_task_manager_def)
  ultimately show ?thesis
    using made_seed_describes_file[of make_host "''dir/a''" "[1, 2, 3]" "''s''" "''10.0.0.1''" 8080 "new_task_manager 6881 [] 0" Big "\<lambda>_. []" "''tbt''"]
    by (auto simp: make_host_def)
qed

end
