(* ===== verification/Job_Pools.thy ===== *)
theory Job_Pools
  imports ThinBT_Prelude "HOL-Library.Multiset"
begin

text \<open>
  The upload pools: \<open>src/src/daemon/sendfile_pool.cpp\<close> and \<open>file_read_pool.cpp\<close>, threads that take jobs from one
  queue behind a mutex. A thread waits for a job, runs one or has left; it leaves only when the pool was stopped
  and the queue is empty. The lemmas account for every job that was posted and show that stopping a pool
  comes to an end after each of them has run exactly once.
\<close>

section \<open>The pools\<close>

datatype 'j pool_worker = Waiting | Busy 'j | Gone

record 'j job_pool =
  jp_running :: bool
  jp_queue :: "'j list"
  jp_workers :: "'j pool_worker list"

definition empty_pool :: "'j job_pool" where
  "empty_pool = \<lparr>jp_running = False, jp_queue = [], jp_workers = []\<rparr>"

definition pool_start :: "nat \<Rightarrow> 'j job_pool \<Rightarrow> 'j job_pool" where
  "pool_start threads jp =
     (if jp_running jp then jp else jp\<lparr>jp_running := True, jp_workers := jp_workers jp @ replicate threads Waiting\<rparr>)"

definition pool_post :: "'j \<Rightarrow> 'j job_pool \<Rightarrow> 'j job_pool" where
  "pool_post job jp = jp\<lparr>jp_queue := jp_queue jp @ [job]\<rparr>"

text \<open>\<open>stop\<close> up to the joining of the threads, and what follows it: \<open>None\<close> while a thread has not left.\<close>

definition pool_stop :: "'j job_pool \<Rightarrow> 'j job_pool" where
  "pool_stop jp = (if \<not> jp_running jp then jp else jp\<lparr>jp_running := False\<rparr>)"

definition pool_joined :: "'j job_pool \<Rightarrow> 'j job_pool option" where
  "pool_joined jp = (if \<forall>x \<in> set (jp_workers jp). (case x of Gone \<Rightarrow> True | _ \<Rightarrow> False) then Some (jp\<lparr>jp_workers := [], jp_queue := []\<rparr>) else None)"

text \<open>A turn of thread \<open>w\<close>, with the job it finished in it.\<close>

definition pool_turn :: "nat \<Rightarrow> 'j job_pool \<Rightarrow> 'j list \<times> 'j job_pool" where
  "pool_turn w jp =
     (case jp_workers jp ! w of
        Waiting \<Rightarrow>
          (case jp_queue jp of
             job # q \<Rightarrow> ([], jp\<lparr>jp_queue := q, jp_workers := (jp_workers jp)[w := Busy job]\<rparr>)
           | [] \<Rightarrow> ([], if jp_running jp then jp else jp\<lparr>jp_workers := (jp_workers jp)[w := Gone]\<rparr>))
      | Busy job \<Rightarrow> ([job], jp\<lparr>jp_workers := (jp_workers jp)[w := Waiting]\<rparr>)
      | Gone \<Rightarrow> ([], jp))"

text \<open>\<open>FileReadPool\<close> is the same pool with read requests as jobs. \<open>pread\<close> fills a buffer of the
  requested length; the buffer handed to the callback is cut to the bytes read.\<close>

record read_task =
  rt_fd :: int
  rt_off :: u64
  rt_len :: nat

definition read_pool_start :: "nat \<Rightarrow> read_task job_pool \<Rightarrow> read_task job_pool" where
  "read_pool_start threads jp =
     (if jp_running jp then jp else jp\<lparr>jp_running := True, jp_workers := jp_workers jp @ replicate threads Waiting\<rparr>)"

definition read_pool_stop :: "read_task job_pool \<Rightarrow> read_task job_pool" where
  "read_pool_stop jp = (if \<not> jp_running jp then jp else jp\<lparr>jp_running := False\<rparr>)"

definition read_pool_joined :: "read_task job_pool \<Rightarrow> read_task job_pool option" where
  "read_pool_joined jp = (if \<forall>x \<in> set (jp_workers jp). (case x of Gone \<Rightarrow> True | _ \<Rightarrow> False) then Some (jp\<lparr>jp_workers := [], jp_queue := []\<rparr>) else None)"

definition post_read :: "int \<Rightarrow> u64 \<Rightarrow> nat \<Rightarrow> read_task job_pool \<Rightarrow> read_task job_pool" where
  "post_read fd off len jp = jp\<lparr>jp_queue := jp_queue jp @ [\<lparr>rt_fd = fd, rt_off = off, rt_len = len\<rparr>]\<rparr>"

definition run_read :: "(int \<Rightarrow> u64 \<Rightarrow> nat \<Rightarrow> int \<times> bytes) \<Rightarrow> read_task \<Rightarrow> int \<times> bytes" where
  "run_read pread tk =
     (let (n, buf) = pread (rt_fd tk) (rt_off tk) (rt_len tk)
      in (n, if n \<le> 0 then [] else if nat n < rt_len tk then take (nat n) buf else buf))"

definition read_worker_turn ::
    "(int \<Rightarrow> u64 \<Rightarrow> nat \<Rightarrow> int \<times> bytes) \<Rightarrow> nat \<Rightarrow> read_task job_pool \<Rightarrow> (int \<times> bytes) list \<times> read_task job_pool" where
  "read_worker_turn pread w jp = (case pool_turn w jp of (finished, jp') \<Rightarrow> (map (run_read pread) finished, jp'))"

lemma read_pool_is_pool:
  "read_pool_start = pool_start" "read_pool_stop = pool_stop" "read_pool_joined = pool_joined"
  "post_read fd off len = pool_post \<lparr>rt_fd = fd, rt_off = off, rt_len = len\<rparr>"
  by (simp_all add: fun_eq_iff read_pool_start_def pool_start_def read_pool_stop_def pool_stop_def read_pool_joined_def pool_joined_def
      post_read_def pool_post_def)

section \<open>Runs\<close>

text \<open>The second component collects the jobs that have run. A turn is of a thread that exists.\<close>

datatype 'j pool_op = Jp_start nat | Jp_post 'j | Jp_turn nat | Jp_stop | Jp_joined

fun exec_pool :: "'j pool_op \<Rightarrow> 'j job_pool \<times> 'j list \<Rightarrow> ('j job_pool \<times> 'j list) option" where
  "exec_pool (Jp_start n) (jp, fin) = Some (pool_start n jp, fin)"
| "exec_pool (Jp_post job) (jp, fin) = Some (pool_post job jp, fin)"
| "exec_pool (Jp_turn w) (jp, fin) =
     (if w < length (jp_workers jp) then case pool_turn w jp of (finished, jp') \<Rightarrow> Some (jp', fin @ finished) else None)"
| "exec_pool Jp_stop (jp, fin) = Some (pool_stop jp, fin)"
| "exec_pool Jp_joined (jp, fin) = map_option (\<lambda>jp'. (jp', fin)) (pool_joined jp)"

fun run_pool :: "'j pool_op list \<Rightarrow> 'j job_pool \<times> 'j list \<Rightarrow> ('j job_pool \<times> 'j list) option" where
  "run_pool [] s = Some s"
| "run_pool (op # ops) s = Option.bind (exec_pool op s) (run_pool ops)"

definition posted :: "'j pool_op list \<Rightarrow> 'j list" where
  "posted ops = concat (map (\<lambda>op. case op of Jp_post job \<Rightarrow> [job] | _ \<Rightarrow> []) ops)"

fun busy_job :: "'j pool_worker \<Rightarrow> 'j multiset" where
  "busy_job (Busy job) = {#job#}"
| "busy_job _ = {#}"

definition in_pool :: "'j job_pool \<times> 'j list \<Rightarrow> 'j multiset" where
  "in_pool s = mset (snd s) + sum_list (map busy_job (jp_workers (fst s))) + mset (jp_queue (fst s))"

lemma sum_list_update_mset:
  assumes "w < length xs" "xs ! w = x"
  shows "sum_list (map f (xs[w := y])) + f x = sum_list (map f xs) + (f y :: 'a multiset)"
proof -
  have "xs = take w xs @ x # drop (Suc w) xs" using assms by (metis id_take_nth_drop)
  then have "sum_list (map f xs) = sum_list (map f (take w xs)) + (f x + sum_list (map f (drop (Suc w) xs)))"
    by (metis list.simps(9) map_append sum_list.Cons sum_list.append)
  then show ?thesis using assms(1) by (simp add: upd_conv_take_nth_drop)
qed

lemma pool_turn_accounts:
  assumes "w < length (jp_workers jp)" "pool_turn w jp = (finished, jp')"
  shows "in_pool (jp', fin @ finished) = in_pool (jp, fin)"
proof -
  note u = sum_list_update_mset[OF assms(1), of _ busy_job]
  show ?thesis
  proof (cases "jp_workers jp ! w")
    case Waiting
    then show ?thesis using assms(2) u[OF Waiting]
      by (auto simp: pool_turn_def in_pool_def split: list.splits if_splits)
  next
    case (Busy job)
    then show ?thesis using assms(2) u[OF Busy, of Waiting] by (auto simp: pool_turn_def in_pool_def)
  next
    case Gone
    then show ?thesis using assms(2) by (simp add: pool_turn_def)
  qed
qed

lemma posted_simps [simp]:
  "posted [] = []" "posted (Jp_post job # ops) = job # posted ops" "posted (Jp_start n # ops) = posted ops"
  "posted (Jp_turn w # ops) = posted ops" "posted (Jp_stop # ops) = posted ops" "posted (Jp_joined # ops) = posted ops"
  by (simp_all add: posted_def)

lemma no_jobs [simp]: "sum_list (replicate n {#}) = {#}"
  by (induction n) simp_all

lemma run_accounts:
  assumes "run_pool ops s = Some s'" "Jp_joined \<notin> set ops"
  shows "in_pool s' = in_pool s + mset (posted ops)"
  using assms
proof (induction ops arbitrary: s)
  case (Cons op ops)
  obtain jp fin where s: "s = (jp, fin)" by fastforce
  obtain s1 where s1: "exec_pool op s = Some s1" "run_pool ops s1 = Some s'" using Cons.prems(1) by (auto simp: bind_eq_Some_conv)
  have "in_pool s1 + mset (posted ops) = in_pool s + mset (posted (op # ops))"
  proof (cases op)
    case (Jp_turn w)
    then show ?thesis using s s1(1) pool_turn_accounts[of w jp _ _ fin] by (auto split: if_splits prod.splits)
  qed (use s s1(1) Cons.prems(2) in \<open>auto simp: in_pool_def pool_start_def pool_post_def pool_stop_def\<close>)
  then show ?case using Cons.IH[OF s1(2)] Cons.prems(2) by simp
qed simp

text \<open>Before it is stopped no thread of a pool has left.\<close>

definition none_gone :: "'j job_pool \<Rightarrow> bool" where
  "none_gone jp \<longleftrightarrow> Gone \<notin> set (jp_workers jp) \<and> (jp_running jp \<or> jp_workers jp = [])"

lemma run_none_gone:
  assumes "run_pool ops s = Some s'" "Jp_stop \<notin> set ops" "none_gone (fst s)"
  shows "none_gone (fst s')"
  using assms
proof (induction ops arbitrary: s)
  case (Cons op ops)
  obtain jp fin where s: "s = (jp, fin)" by fastforce
  obtain s1 where s1: "exec_pool op s = Some s1" "run_pool ops s1 = Some s'" using Cons.prems(1) by (auto simp: bind_eq_Some_conv)
  have "none_gone (fst s1)"
  proof (cases op)
    case (Jp_turn w)
    then show ?thesis using s s1(1) Cons.prems(3)
      by (auto simp: none_gone_def pool_turn_def split: if_splits pool_worker.splits list.splits dest!: subsetD[OF set_update_subset_insert])
  qed (use s s1(1) Cons.prems(2,3) in \<open>auto simp: none_gone_def pool_start_def pool_post_def pool_joined_def split: if_splits\<close>)
  then show ?case using Cons.IH[OF s1(2)] Cons.prems(2) by simp
qed simp

section \<open>Stopping a pool\<close>

text \<open>Turns of threads that have not left, one after the other.\<close>

fun turns :: "nat list \<Rightarrow> 'j job_pool \<times> 'j list \<Rightarrow> ('j job_pool \<times> 'j list) option" where
  "turns [] s = Some s"
| "turns (w # ws) (jp, fin) =
     (if w < length (jp_workers jp) \<and> (case jp_workers jp ! w of Gone \<Rightarrow> False | _ \<Rightarrow> True)
      then case pool_turn w jp of (finished, jp') \<Rightarrow> turns ws (jp', fin @ finished) else None)"

fun worker_load :: "'j pool_worker \<Rightarrow> nat" where
  "worker_load Waiting = 1"
| "worker_load (Busy job) = 2"
| "worker_load Gone = 0"

definition work :: "'j job_pool \<Rightarrow> nat" where
  "work jp = 2 * length (jp_queue jp) + sum_list (map worker_load (jp_workers jp))"

lemma sum_list_update_nat:
  "w < length xs \<Longrightarrow> sum_list (map f (xs[w := y])) + f (xs ! w) = sum_list (map f xs) + (f y :: nat)"
  by (induction xs arbitrary: w) (auto simp: nth_Cons split: nat.splits)

definition stopping :: "'j job_pool \<Rightarrow> bool" where
  "stopping jp \<longleftrightarrow> \<not> jp_running jp \<and> (Gone \<in> set (jp_workers jp) \<longrightarrow> jp_queue jp = [])"

lemma turn_works:
  assumes "w < length (jp_workers jp)" "jp_workers jp ! w \<noteq> Gone" "stopping jp" "pool_turn w jp = (finished, jp')"
  shows "Suc (work jp') = work jp \<and> stopping jp' \<and> length (jp_workers jp') = length (jp_workers jp)"
proof (cases "jp_workers jp ! w")
  case Waiting
  have "worker_load (jp_workers jp ! w) = 1" using Waiting by simp
  then have "Suc (sum_list (map worker_load ((jp_workers jp)[w := x]))) = sum_list (map worker_load (jp_workers jp)) + worker_load x" for x
    using sum_list_update_nat[OF assms(1), of worker_load x] by simp
  from this[of Gone] this[of "Busy (hd (jp_queue jp))"] show ?thesis using Waiting assms
    by (cases "jp_queue jp") (auto simp: pool_turn_def work_def stopping_def dest!: subsetD[OF set_update_subset_insert])
next
  case (Busy job)
  then show ?thesis using assms sum_list_update_nat[OF assms(1), of worker_load Waiting]
    by (auto simp: pool_turn_def work_def stopping_def dest!: subsetD[OF set_update_subset_insert])
qed (use assms(2) in simp)

lemma turns_work:
  assumes "turns ws (jp, fin) = Some (jp', fin')" "stopping jp"
  shows "length ws + work jp' = work jp \<and> stopping jp' \<and> length (jp_workers jp') = length (jp_workers jp)
    \<and> in_pool (jp', fin') = in_pool (jp, fin)"
  using assms
proof (induction ws arbitrary: jp fin)
  case (Cons w ws)
  obtain finished jp1 where t: "pool_turn w jp = (finished, jp1)" by fastforce
  then have w: "w < length (jp_workers jp)" "jp_workers jp ! w \<noteq> Gone" and r: "turns ws (jp1, fin @ finished) = Some (jp', fin')"
    using Cons.prems(1) by (auto split: if_splits pool_worker.splits)
  show ?case using Cons.IH[OF r] turn_works[OF w Cons.prems(2) t] pool_turn_accounts[OF w(1) t, of fin] by simp
qed simp

lemma all_gone_iff: "sum_list (map worker_load xs) = 0 \<longleftrightarrow> (\<forall>x \<in> set xs. x = Gone)"
proof -
  have "worker_load x = 0 \<longleftrightarrow> x = Gone" for x :: "'a pool_worker" by (cases x) simp_all
  then show ?thesis by (simp add: sum_list_eq_0_iff)
qed

lemma turns_append: "turns (ws @ vs) s = Option.bind (turns ws s) (turns vs)"
proof (induction ws arbitrary: s)
  case (Cons w ws)
  then show ?case by (cases s) (simp split: prod.split)
qed simp

lemma thread_can_move:
  assumes "stopping jp" "0 < work jp" "jp_workers jp \<noteq> []"
  shows "\<exists>w s. turns [w] (jp, fin) = Some s"
proof -
  obtain x where x: "x \<in> set (jp_workers jp)" "x \<noteq> Gone"
  proof (cases "jp_queue jp = []")
    case True
    then have "sum_list (map worker_load (jp_workers jp)) \<noteq> 0" using assms(2) unfolding work_def by (metis add_0 less_numeral_extra(3) list.size(3) mult_0_right)
    then show ?thesis using that unfolding all_gone_iff by blast
  next
    case False
    then have "Gone \<notin> set (jp_workers jp)" using assms(1) by (simp add: stopping_def)
    then show ?thesis using that[of "hd (jp_workers jp)"] hd_in_set[OF assms(3)] by metis
  qed
  then obtain w where "w < length (jp_workers jp)" "jp_workers jp ! w \<noteq> Gone" by (auto simp: in_set_conv_nth)
  then show ?thesis by (intro exI[of _ w]) (auto split: pool_worker.split prod.split)
qed

text \<open>C29. Stopping a pool runs every job. When a pool with threads is stopped and nothing more is posted, its
  threads take at most \<open>work\<close> turns; as long as they have taken fewer, one of them can move, and after that
  many all have left, so that \<open>stop\<close> returns, with each posted job run exactly once.\<close>

theorem stop_runs_every_job:
  assumes "run_pool ops (empty_pool, []) = Some (jp, fin)" "Jp_stop \<notin> set ops" "Jp_joined \<notin> set ops" "jp_workers jp \<noteq> []"
    and "turns ws (pool_stop jp, fin) = Some (jp', fin')"
  shows "length ws \<le> work jp \<and> (length ws < work jp \<longrightarrow> (\<exists>w s. turns (ws @ [w]) (pool_stop jp, fin) = Some s))
    \<and> (length ws = work jp \<longrightarrow> pool_joined jp' \<noteq> None \<and> mset fin' = mset (posted ops))"
proof -
  have "none_gone jp" using run_none_gone[OF assms(1,2)] by (simp add: none_gone_def empty_pool_def)
  then have st: "stopping (pool_stop jp)" and wk: "work (pool_stop jp) = work jp" "jp_workers (pool_stop jp) = jp_workers jp"
    by (auto simp: none_gone_def stopping_def pool_stop_def work_def)
  note t = turns_work[OF assms(5) st, unfolded wk]
  have nothing_yet: "in_pool (empty_pool, []) = {#}" by (simp add: in_pool_def empty_pool_def)
  have "in_pool (pool_stop jp, fin) = in_pool (jp, fin)" by (simp add: in_pool_def pool_stop_def)
  then have all: "in_pool (jp', fin') = mset (posted ops)"
    using t run_accounts[OF assms(1,3)] nothing_yet by simp
  have "pool_joined jp' \<noteq> None \<and> mset fin' = mset (posted ops)" if "length ws = work jp"
  proof -
    have q: "jp_queue jp' = []" and g: "\<forall>x \<in> set (jp_workers jp'). x = Gone"
      using t that all_gone_iff[of "jp_workers jp'"] by (simp_all add: work_def)
    then have "map busy_job (jp_workers jp') = replicate (length (jp_workers jp')) {#}" by (intro replicate_eqI) auto
    then show ?thesis using all q g by (auto simp: in_pool_def pool_joined_def)
  qed
  moreover have "\<exists>w s. turns (ws @ [w]) (pool_stop jp, fin) = Some s" if "length ws < work jp"
    unfolding turns_append assms(5) bind.simps(2) using t that assms(4) by (intro thread_can_move) auto
  ultimately show ?thesis using t by simp
qed

theorem stop_runs_every_job_witness:
  "let ops = [Jp_post (1 :: nat), Jp_start 2, Jp_turn 1, Jp_post 2] in
   (\<exists>jp jp' fin'. run_pool ops (empty_pool, []) = Some (jp, []) \<and> turns [0, 1, 1, 0, 0] (pool_stop jp, []) = Some (jp', fin')
     \<and> pool_joined jp' \<noteq> None \<and> mset fin' = mset [1, 2])"
proof -
  let ?ops = "[Jp_post (1 :: nat), Jp_start 2, Jp_turn 1, Jp_post 2]"
  let ?jp = "\<lparr>jp_running = True, jp_queue = [2 :: nat], jp_workers = [Waiting, Busy 1]\<rparr>"
  let ?jp' = "\<lparr>jp_running = False, jp_queue = [] :: nat list, jp_workers = [Gone, Gone]\<rparr>"
  have run: "run_pool ?ops (empty_pool, []) = Some (?jp, [])"
    by (simp add: empty_pool_def pool_start_def pool_post_def pool_turn_def numeral_2_eq_2)
  have tr: "turns [0, 1, 1, 0, 0] (pool_stop ?jp, []) = Some (?jp', [1, 2])"
    by (simp add: pool_stop_def pool_turn_def)
  have "work ?jp = 5" by (simp add: work_def)
  then show ?thesis using stop_runs_every_job[OF run _ _ _ tr] run tr by (auto simp: Let_def)
qed

text \<open>A job posted after the threads have left is dropped when \<open>stop\<close> clears the queue.\<close>

lemma late_job_dropped:
  "\<exists>jp. run_pool [Jp_start 1, Jp_stop, Jp_turn 0, Jp_post job, Jp_joined] (empty_pool, []) = Some (jp, []) \<and> jp_queue jp = []"
  by (simp add: empty_pool_def pool_start_def pool_post_def pool_stop_def pool_turn_def pool_joined_def)

end
