(* ===== verification/Uploads.thy ===== *)
theory Uploads
  imports Reuse Job_Pools
begin

text \<open>
  From one daemon to another: a request of a downloader, written by a host of one byte order, is read by an
  uploader of another, served from its file through the read pool, and comes back as the piece that was asked
  for. The pieces are those from which a download completes, so the uploading half of the program meets what
  the downloading half relies on.
\<close>

section \<open>The way of a request\<close>

text \<open>What an uploader with file descriptor \<open>fd\<close> puts on the wire for the bytes of one message, with an idle
  writer and the ordinary read path.\<close>

definition upload :: "endian \<Rightarrow> (int \<Rightarrow> u64 \<Rightarrow> nat \<Rightarrow> int \<times> bytes) \<Rightarrow> int \<Rightarrow> bytes \<Rightarrow> PeerSession \<Rightarrow> bytes" where
  "upload e pread fd msg ps =
     (case dispatch_all e 0 0 (read_frames e msg) (ps, None) of
        None \<Rightarrow> []
      | Some (ps1, _) \<Rightarrow>
          concat (wire (ps_writer (fold (\<lambda>ev p. case ev of
              Ev_post_read off len idx bg \<Rightarrow>
                (case run_read pread \<lparr>rt_fd = fd, rt_off = off, rt_len = unat len\<rparr> of (n, buf) \<Rightarrow> on_read_done e idx bg n buf p)
            | _ \<Rightarrow> p) (ps_events ps1) ps1))))"

text \<open>The pieces a downloader takes from the bytes it receives.\<close>

definition pieces_of :: "endian \<Rightarrow> bytes \<Rightarrow> PeerSession \<Rightarrow> PieceTask list" where
  "pieces_of e bs ps =
     (case dispatch_all e 0 0 (read_frames e bs) (ps, None) of
        None \<Rightarrow> []
      | Some (ps1, _) \<Rightarrow> concat (map (\<lambda>ev. case ev of
            Ev_piece i bg data slot \<Rightarrow> [\<lparr>pt_chunk_idx = of_nat i, pt_begin = bg, pt_peer_slot = slot, pt_data = data\<rparr>]
          | _ \<Rightarrow> []) (ps_events ps1)))"

definition uploader :: "ChunkEntry list \<Rightarrow> PeerSession \<Rightarrow> bool" where
  "uploader cs ps \<longleftrightarrow> \<not> ps_choking_peer ps \<and> ps_has_file ps \<and> ps_chunk_offsets ps = Some (map ce_offset cs) \<and> \<not> ps_closed ps
     \<and> ps_cancelled_set ps = {} \<and> \<not> ps_use_sendfile ps \<and> ps_events ps = []
     \<and> ps_writer ps = \<lparr>write_queue = [], is_writing = False, wire = [], in_flight = 0\<rparr>"

text \<open>Reading a regular file: the bytes that are there are returned, in a buffer of the size asked for.\<close>

definition preads :: "(int \<Rightarrow> u64 \<Rightarrow> nat \<Rightarrow> int \<times> bytes) \<Rightarrow> int \<Rightarrow> bytes \<Rightarrow> bool" where
  "preads pread fd data \<longleftrightarrow> (\<forall>off n. unat off \<le> length data \<longrightarrow>
     (let got = take n (drop (unat off) data) in pread fd off n = (int (length got), got @ replicate (n - length got) 0)))"

lemma read_u32_at [simp]:
  "read_u32 e 0 (be_bytes 4 x @ r) = x"
  "read_u32 e 4 (be_bytes 4 y @ be_bytes 4 x @ r) = x"
  "read_u32 e 8 (be_bytes 4 z @ be_bytes 4 y @ be_bytes 4 x) = x"
  by (simp_all add: read_u32_def)

lemma read_one:
  "length payload \<le> 65536 \<Longrightarrow> read_frames e' (build_message e i payload) = [(msg_id_byte i, payload)]"
  using read_frames_built[of payload e' e i "[]"] by (simp add: read_frames.simps[of e' "[]"] parse_message_header_def)

lemma request_accepted:
  assumes "uploader cs ps" "unat i < length cs"
  shows "dispatch_all e 0 0 (read_frames e (build_request e' i bg len)) (ps, None)
     = Some (ps\<lparr>ps_events := [Ev_post_read (ce_offset (cs ! unat i) + ucast bg) len i bg]\<rparr>, None)"
  using assms(1,2)
  by (simp add: build_request_def read_one dispatch_message_def handle_request_msg_def uploader_def sess_event_def request_offset_def Let_def
      del: msg_id_byte.simps)

lemma run_read_cut:
  assumes "pread fd off n = (int (length d), d @ replicate (n - length d) 0)" "d \<noteq> []" "length d \<le> n"
  shows "run_read pread \<lparr>rt_fd = fd, rt_off = off, rt_len = n\<rparr> = (int (length d), d)"
  using assms by (simp add: run_read_def)

lemma read_done_sends:
  assumes "uploader cs ps" "d \<noteq> []" "p = ps\<lparr>ps_events := evs\<rparr>"
  shows "concat (wire (ps_writer (on_read_done e i bg (int (length d)) d p))) = build_piece e i bg d"
  using assms by (simp add: on_read_done_def send_message_def add_sent_bytes_def writer_defs uploader_def)

lemma upload_request:
  assumes "uploader cs ps" "preads pread fd data" "unat i < length cs" "unat (ce_offset (cs ! unat i)) + unat bg < length data"
    and "length data < 2 ^ 64" "0 < unat len"
  shows "upload e pread fd (build_request e' i bg len) ps = build_piece e i bg (take (unat len) (drop (unat (ce_offset (cs ! unat i)) + unat bg) data))"
proof -
  let ?off = "ce_offset (cs ! unat i) + ucast bg" and ?d = "take (unat len) (drop (unat (ce_offset (cs ! unat i)) + unat bg) data)"
  have off: "unat ?off = unat (ce_offset (cs ! unat i)) + unat bg" using assms(4,5) by (simp add: unat_word_ariths widen_u32)
  have "pread fd ?off (unat len) = (int (length ?d), ?d @ replicate (unat len - length ?d) 0)"
    using assms(2,4) off by (simp add: preads_def Let_def)
  moreover have d: "?d \<noteq> []" "length ?d \<le> unat len" using assms(4,6) by (simp_all add: not_le)
  ultimately have "run_read pread \<lparr>rt_fd = fd, rt_off = ?off, rt_len = unat len\<rparr> = (int (length ?d), ?d)" by (rule run_read_cut)
  then show ?thesis unfolding upload_def request_accepted[OF assms(1,3)]
    using read_done_sends[OF assms(1) d(1) refl, of e i bg] by simp
qed

lemma piece_received:
  assumes "ps_has_io_pool ps" "ps_events ps = []" "length data \<le> 65528"
  shows "pieces_of e (build_piece e' i bg data) ps = [\<lparr>pt_chunk_idx = i, pt_begin = bg, pt_peer_slot = ps_slot_id ps, pt_data = data\<rparr>]"
proof -
  have events: "ps_events (dec_pending x) = ps_events x" "ps_slot_id (note_latency now k x) = ps_slot_id x"
      "ps_events (note_latency now k x) = ps_events x" for x now k
    by (simp_all add: dec_pending_def note_latency_def split: option.split)
  have "read_frames e (build_piece e' i bg data) = [(msg_id_byte PIECE, be_bytes 4 i @ be_bytes 4 bg @ data)]"
    unfolding build_piece_message by (rule read_one) (use assms(3) in simp)
  then show ?thesis using assms(1,2)
    by (simp add: pieces_of_def dispatch_message_def handle_piece_msg_def Let_def events sess_event_def del: msg_id_byte.simps)
qed

section \<open>Uploads are genuine\<close>

lemma tiled_last: "tiled start stop cs \<Longrightarrow> cs \<noteq> [] \<Longrightarrow> unat (ce_offset (last cs)) + unat (ce_length (last cs)) = stop"
  by (induction cs arbitrary: start) auto

lemma served_piece:
  assumes "uploader cs up" "preads pread fd data" "ps_has_io_pool down" "ps_events down = []" "i < length cs" "i < 2 ^ 32"
    and "unat (ce_offset (cs ! i)) + unat bg < length data" "length data < 2 ^ 64"
  shows "pieces_of e (upload e' pread fd (build_request e (of_nat i) bg SUB_BLOCK_SIZE) up) down
    = [\<lparr>pt_chunk_idx = of_nat i, pt_begin = bg, pt_peer_slot = ps_slot_id down, pt_data = take 16384 (drop (unat (ce_offset (cs ! i)) + unat bg) data)\<rparr>]"
proof -
  let ?i = "of_nat i :: u32" and ?d = "take 16384 (drop (unat (ce_offset (cs ! i)) + unat bg) data)"
  have "unat ?i = i" "unat SUB_BLOCK_SIZE = 16384" using assms(6) by (simp_all add: SUB_BLOCK_SIZE_def unat_of_nat_u32)
  then have "upload e' pread fd (build_request e ?i bg SUB_BLOCK_SIZE) up = build_piece e' ?i bg ?d"
    using upload_request[OF assms(1,2), of ?i bg SUB_BLOCK_SIZE e' e] assms(5,7,8) by simp
  moreover have "pieces_of e (build_piece e' ?i bg ?d) down = [\<lparr>pt_chunk_idx = ?i, pt_begin = bg, pt_peer_slot = ps_slot_id down, pt_data = ?d\<rparr>]"
    by (rule piece_received[OF assms(3,4)]) simp
  ultimately show ?thesis by simp
qed

text \<open>C5. Uploads are what downloads rely on. Let chunks tile a file, and let a downloader send the request of
  its scheduler, always for 16 KiB, for an aligned place of a chunk, where the chunk has 16 KiB left or ends
  with the file. An uploader that has the file, whatever the byte orders of the two hosts, answers with a
  message from which the downloader takes exactly one piece, and this piece is genuine: the part of the file
  that belongs at its place.\<close>

theorem served_piece_genuine:
  assumes "tiled 0 (length data) cs" "length data < 2 ^ 64" "i < length cs" "i < 2 ^ 32"
    and "uploader cs up" "preads pread fd data" "ps_has_io_pool down" "ps_events down = []"
    and "i < length asms" "base (asms ! i) \<noteq> None" "chunk_size (asms ! i) = ce_length (cs ! i)" "sub_block_size (asms ! i) = SUB_BLOCK_SIZE"
    and "unat bg mod 16384 = 0" "unat bg < unat (ce_length (cs ! i))" "unat bg + 16384 \<le> unat (ce_length (cs ! i)) \<or> Suc i = length cs"
  shows "\<exists>piece. pieces_of e (upload e' pread fd (build_request e (of_nat i) bg SUB_BLOCK_SIZE) up) down = [piece]
    \<and> pt_chunk_idx piece = of_nat i \<and> pt_begin piece = bg \<and> honest_task (\<lambda>j. chunk_bytes data (cs ! j)) asms piece"
proof -
  let ?c = "cs ! i" and ?d = "take 16384 (drop (unat (ce_offset (cs ! i)) + unat bg) data)"
  have i: "unat (of_nat i :: u32) = i" using assms(4) by (rule unat_of_nat_u32)
  have r: "unat (ce_offset ?c) + unat (ce_length ?c) \<le> length data" using tiled_range[OF assms(1)] assms(3) by simp
  then have got: "unat (ce_offset ?c) + unat bg < length data" using assms(14) by simp
  note got = served_piece[OF assms(5-8,3,4) got assms(2), of e e']
  have "unat bg + 16384 \<le> unat (ce_length ?c) \<or> unat (ce_offset ?c) + unat (ce_length ?c) = length data"
    using assms(15) tiled_last[OF assms(1)] assms(3) by (metis diff_Suc_1 last_conv_nth list.size(3) not_less_zero)
  then have "?d = take 16384 (drop (unat bg) (chunk_bytes data ?c))"
    using assms(14) by (auto simp: chunk_bytes_def drop_take min_def ac_simps)
  moreover have "length (chunk_bytes data ?c) = unat (ce_length ?c)" using r by (simp add: chunk_bytes_def)
  ultimately show ?thesis using assms(9-14) i got
    by (simp add: honest_task_def genuine_piece_def SUB_BLOCK_SIZE_def)
qed

definition example_uploader :: PeerSession where
  "example_uploader = (new_session [] 0 0 False 0)\<lparr>ps_choking_peer := False, ps_has_file := True, ps_chunk_offsets := Some (map ce_offset example_chunks)\<rparr>"

definition example_pread :: "int \<Rightarrow> u64 \<Rightarrow> nat \<Rightarrow> int \<times> bytes" where
  "example_pread fd off n = (let got = take n (drop (unat off) [1, 2, 3]) in (int (length got), got @ replicate (n - length got) 0))"

theorem served_piece_genuine_witness:
  "\<exists>piece. pieces_of Little (upload Big example_pread 7 (build_request Little (of_nat 0) 0 SUB_BLOCK_SIZE) example_uploader)
       ((new_session [] 0 0 False 0)\<lparr>ps_has_io_pool := True\<rparr>) = [piece]
     \<and> pt_chunk_idx piece = of_nat 0 \<and> pt_begin piece = 0 \<and> honest_task (\<lambda>j. chunk_bytes [1, 2, 3] (example_chunks ! j)) example_assemblers piece"
  by (rule served_piece_genuine)
    (simp_all add: example_pread_def example_chunks_def example_assemblers_def assembler_init_def SUB_BLOCK_SIZE_def uploader_def example_uploader_def new_session_def preads_def Let_def)

section \<open>Where the fixed request length is wrong\<close>

lemma tiled_after:
  assumes "tiled start stop cs" "Suc i < length cs"
  shows "unat (ce_offset (cs ! i)) + unat (ce_length (cs ! i)) < stop"
  using assms
proof (induction cs arbitrary: start i)
  case (Cons c cs)
  show ?case
  proof (cases i)
    case 0
    then show ?thesis using Cons.prems tiled_range[of "start + unat (ce_length c)" stop cs "hd cs"] by (cases cs) auto
  next
    case (Suc k)
    then show ?thesis using Cons by auto
  qed
qed simp

text \<open>C30. A chunk whose length is not a multiple of 16 KiB and that is not the last of its file cannot be
  downloaded: the answer to the request for its last sub-block reaches into the next chunk, and the
  assembler refuses it without taking note of anything.\<close>

theorem short_subblock_refused:
  assumes "tiled 0 (length data) cs" "length data < 2 ^ 64" "Suc i < length cs" "i < 2 ^ 32"
    and "uploader cs up" "preads pread fd data" "ps_has_io_pool down" "ps_events down = []"
    and "sub_block_size a = SUB_BLOCK_SIZE" "base a \<noteq> None" "chunk_size a = ce_length (cs ! i)" "unat (ce_length (cs ! i)) < 2 ^ 31"
    and "unat bg < unat (ce_length (cs ! i))" "unat (ce_length (cs ! i)) < unat bg + 16384"
  shows "\<exists>piece. pieces_of e (upload e' pread fd (build_request e (of_nat i) bg SUB_BLOCK_SIZE) up) down = [piece]
    \<and> on_piece a m (pt_begin piece) (pt_data piece) = Some (False, a, m)"
proof -
  let ?c = "cs ! i" and ?d = "take 16384 (drop (unat (ce_offset (cs ! i)) + unat bg) data)"
  have r: "unat (ce_offset ?c) + unat (ce_length ?c) < length data" by (rule tiled_after[OF assms(1,3)])
  then have got: "i < length cs" "unat (ce_offset ?c) + unat bg < length data" using assms(3,13) by simp_all
  note got = served_piece[OF assms(5-8) got(1) assms(4) got(2) assms(2), of e e']
  have l: "unat (ce_length ?c) < unat bg + length ?d" "length ?d \<le> 16384" using r assms(13,14) by simp_all
  have "unat (of_nat (length ?d) :: u32) = length ?d" using l(2) by (intro unat_of_nat_u32) simp
  then have "unat (bg + of_nat (length ?d)) = unat bg + length ?d"
    using l assms(12,13) by (simp add: unat_word_ariths)
  then have "piece_rejected a bg ?d" using l(1) assms(10,11) by (simp add: piece_rejected_def word_less_nat_alt)
  then show ?thesis using got assms(9) by (simp add: on_piece_def SUB_BLOCK_SIZE_def)
qed

theorem short_subblock_refused_witness:
  "\<exists>piece. pieces_of Little (upload Little example_pread 7 (build_request Little (of_nat 0) 0 SUB_BLOCK_SIZE)
         (example_uploader\<lparr>ps_chunk_offsets := Some (map ce_offset example_entries)\<rparr>)) ((new_session [] 0 0 False 0)\<lparr>ps_has_io_pool := True\<rparr>) = [piece]
     \<and> on_piece (the (assembler_init (Some 100) 2 SUB_BLOCK_SIZE)) (\<lambda>_. 0) (pt_begin piece) (pt_data piece)
       = Some (False, the (assembler_init (Some 100) 2 SUB_BLOCK_SIZE), \<lambda>_. 0)"
  by (rule short_subblock_refused[where data = "[1, 2, 3]" and cs = example_entries])
    (simp_all add: example_entries_def assembler_init_def SUB_BLOCK_SIZE_def uploader_def example_uploader_def new_session_def example_pread_def preads_def Let_def)

text \<open>A zero-copy upload that reaches the end of the file announces more bytes than it sends: the receiver
  takes the bytes of the next message for the rest of the piece.\<close>

lemma zero_copy_short_desyncs:
  assumes "length body < unat len" "unat len \<le> 65528" "unat len - length body \<le> length next_msg"
  shows "hd (read_frames e' (sendfile_header e len i bg @ body @ next_msg))
    = (msg_id_byte PIECE, be_bytes 4 i @ be_bytes 4 bg @ body @ take (unat len - length body) next_msg)"
proof -
  let ?d = "body @ take (unat len - length body) next_msg"
  have "length ?d = unat len" using assms by simp
  then have "sendfile_header e len i bg @ ?d = build_message e PIECE (be_bytes 4 i @ be_bytes 4 bg @ ?d)"
    by (simp only: sendfile_header_piece build_piece_message)
  then have "sendfile_header e len i bg @ body @ next_msg
      = build_message e PIECE (be_bytes 4 i @ be_bytes 4 bg @ ?d) @ drop (unat len - length body) next_msg"
    by (metis append.assoc append_take_drop_id)
  then show ?thesis using read_frames_built[of "be_bytes 4 i @ be_bytes 4 bg @ ?d"] assms(1,2) by simp
qed

end
