(* ===== verification/File_Util.thy ===== *)
theory File_Util
  imports ThinBT_Prelude "HOL-Library.Multiset"
begin

text \<open>
  The mapped files and the zero-copy call of \<open>src/src/common/file_util.cpp\<close>, as compiled for Linux. What the
  kernel answers is an argument of each operation; the descriptors and mappings that an operation acquires
  and releases are recorded in a trace. The lemmas replay the trace and show that objects which are created,
  opened, moved and destroyed give back what they acquired, exactly once.
\<close>

section \<open>The operations\<close>

datatype map_ptr = Null | Map_failed | Mapped nat

record MappedFile =
  mf_fd :: int
  mf_data :: map_ptr
  mf_size :: u64

definition new_mapped_file :: MappedFile where
  "new_mapped_file = \<lparr>mf_fd = -1, mf_data = Null, mf_size = 0\<rparr>"

datatype sys_call = Sys_open int | Sys_close int | Sys_mmap nat u64 | Sys_munmap nat u64

definition mapping_call :: "map_ptr \<Rightarrow> u64 \<Rightarrow> sys_call list" where
  "mapping_call p n = (case p of Mapped a \<Rightarrow> [Sys_mmap a n] | _ \<Rightarrow> [])"

definition create_and_map :: "int \<Rightarrow> bool \<Rightarrow> map_ptr \<Rightarrow> u64 \<Rightarrow> MappedFile \<Rightarrow> bool \<times> MappedFile \<times> sys_call list" where
  "create_and_map opened fallocate_ok mapped file_size mf =
     (if opened < 0 then (False, mf\<lparr>mf_fd := opened\<rparr>, [])
      else if \<not> fallocate_ok then (False, mf\<lparr>mf_fd := -1\<rparr>, [Sys_open opened, Sys_close opened])
      else (mapped \<noteq> Map_failed \<and> mapped \<noteq> Null, mf\<lparr>mf_fd := opened, mf_data := mapped, mf_size := file_size\<rparr>,
            Sys_open opened # mapping_call mapped file_size))"

definition open_and_map :: "int \<Rightarrow> u64 \<Rightarrow> map_ptr \<Rightarrow> MappedFile \<Rightarrow> bool \<times> MappedFile \<times> sys_call list" where
  "open_and_map opened st_size mapped mf =
     (if opened < 0 then (False, mf\<lparr>mf_fd := opened\<rparr>, [])
      else (mapped \<noteq> Map_failed \<and> mapped \<noteq> Null, mf\<lparr>mf_fd := opened, mf_size := st_size, mf_data := mapped\<rparr>,
            Sys_open opened # mapping_call mapped st_size))"

text \<open>A failed mapping is not given back and its marker stays; the size stays in every case.\<close>

definition unmap :: "MappedFile \<Rightarrow> MappedFile \<times> sys_call list" where
  "unmap mf =
     (if mf_data mf = Null then (mf, [])
      else let (mf1, calls) = (case mf_data mf of Mapped a \<Rightarrow> (mf\<lparr>mf_data := Null\<rparr>, [Sys_munmap a (mf_size mf)]) | _ \<Rightarrow> (mf, []))
           in if mf_fd mf1 \<ge> 0 then (mf1\<lparr>mf_fd := -1\<rparr>, calls @ [Sys_close (mf_fd mf1)]) else (mf1, calls))"

text \<open>Construction by moving: the new object and what is left of the other.\<close>

definition move_construct :: "MappedFile \<Rightarrow> MappedFile \<times> MappedFile" where
  "move_construct other = (\<lparr>mf_fd = mf_fd other, mf_data = mf_data other, mf_size = mf_size other\<rparr>, other\<lparr>mf_fd := -1, mf_data := Null, mf_size := 0\<rparr>)"

text \<open>Assignment by moving from another object.\<close>

definition move_assign :: "MappedFile \<Rightarrow> MappedFile \<Rightarrow> (MappedFile \<times> MappedFile) \<times> sys_call list" where
  "move_assign this other =
     (case unmap this of
        (this1, calls) \<Rightarrow> ((this1\<lparr>mf_fd := mf_fd other, mf_data := mf_data other, mf_size := mf_size other\<rparr>,
                           other\<lparr>mf_fd := -1, mf_data := Null, mf_size := 0\<rparr>), calls))"

text \<open>The calls on the descriptor or the mapping. Sizes and offsets are passed as \<open>off_t\<close>, which is signed.\<close>

definition preallocate :: "(int \<Rightarrow> int \<Rightarrow> int \<Rightarrow> int \<Rightarrow> int) \<Rightarrow> MappedFile \<Rightarrow> u64 \<Rightarrow> bool" where
  "preallocate fallocate mf n = (fallocate (mf_fd mf) 0 0 (sint n) = 0)"

definition advise_sequential :: "(map_ptr \<Rightarrow> u64 \<Rightarrow> u64 \<Rightarrow> int) \<Rightarrow> MappedFile \<Rightarrow> u64 \<Rightarrow> u64 \<Rightarrow> bool" where
  "advise_sequential madvise mf offset len = (madvise (mf_data mf) offset len = 0)"

definition punch_hole :: "(int \<Rightarrow> int \<Rightarrow> int \<Rightarrow> int \<Rightarrow> int) \<Rightarrow> MappedFile \<Rightarrow> u64 \<Rightarrow> u64 \<Rightarrow> bool" where
  "punch_hole fallocate mf offset len = (fallocate (mf_fd mf) 3 (sint offset) (sint len) = 0)"

definition truncate :: "(int \<Rightarrow> int \<Rightarrow> int) \<Rightarrow> u64 \<Rightarrow> MappedFile \<Rightarrow> bool \<times> MappedFile" where
  "truncate ftruncate new_size mf =
     (if ftruncate (mf_fd mf) (sint new_size) \<noteq> 0 then (False, mf) else (True, mf\<lparr>mf_size := new_size\<rparr>))"

definition sync :: "(map_ptr \<Rightarrow> u64 \<Rightarrow> int) \<Rightarrow> MappedFile \<Rightarrow> bool" where
  "sync msync mf = (msync (mf_data mf) (mf_size mf) = 0)"

definition sendfile_zero_copy :: "(int \<Rightarrow> int \<Rightarrow> int \<Rightarrow> u64 \<Rightarrow> int \<times> int) \<Rightarrow> int \<Rightarrow> int \<Rightarrow> u64 \<Rightarrow> u64 \<Rightarrow> int \<times> u64" where
  "sendfile_zero_copy sendfile socket_fd file_fd offset n =
     (case sendfile socket_fd file_fd (sint offset) n of (sent, off) \<Rightarrow> (sent, if sent > 0 then of_int off else offset))"

section \<open>What is held\<close>

text \<open>Replaying a trace: the open descriptors and the mappings, \<open>None\<close> once something is given back that is not held.\<close>

type_synonym resources = "int multiset \<times> (nat \<times> u64) multiset"

fun replay_call :: "sys_call \<Rightarrow> resources option \<Rightarrow> resources option" where
  "replay_call _ None = None"
| "replay_call (Sys_open f) (Some (fds, maps)) = Some (add_mset f fds, maps)"
| "replay_call (Sys_close f) (Some (fds, maps)) = (if f \<in># fds then Some (fds - {#f#}, maps) else None)"
| "replay_call (Sys_mmap a n) (Some (fds, maps)) = Some (fds, add_mset (a, n) maps)"
| "replay_call (Sys_munmap a n) (Some (fds, maps)) = (if (a, n) \<in># maps then Some (fds, maps - {#(a, n)#}) else None)"

definition replay :: "sys_call list \<Rightarrow> resources option \<Rightarrow> resources option" where
  "replay calls r = fold replay_call calls r"

lemma replay_simps [simp]: "replay [] r = r" "replay (c # cs) r = replay cs (replay_call c r)" "replay (cs @ ds) r = replay ds (replay cs r)"
  by (simp_all add: replay_def)

definition own_fds :: "MappedFile \<Rightarrow> int multiset" where
  "own_fds mf = (if mf_fd mf \<ge> 0 then {#mf_fd mf#} else {#})"

definition own_maps :: "MappedFile \<Rightarrow> (nat \<times> u64) multiset" where
  "own_maps mf = (case mf_data mf of Mapped a \<Rightarrow> {#(a, mf_size mf)#} | _ \<Rightarrow> {#})"

text \<open>What an object owns on top of the rest, and that a descriptor is only kept with a mapping or its marker.\<close>

definition owns :: "resources \<Rightarrow> MappedFile \<Rightarrow> resources option" where
  "owns r mf = Some (fst r + own_fds mf, snd r + own_maps mf)"

definition mf_ok :: "MappedFile \<Rightarrow> bool" where
  "mf_ok mf \<longleftrightarrow> (mf_data mf = Null \<longrightarrow> mf_fd mf < 0)"

definition mf_empty :: "MappedFile \<Rightarrow> bool" where
  "mf_empty mf \<longleftrightarrow> mf_fd mf < 0 \<and> (case mf_data mf of Mapped _ \<Rightarrow> False | _ \<Rightarrow> True)"

lemmas own_defs = owns_def own_fds_def own_maps_def mf_ok_def mf_empty_def

lemma create_owns:
  assumes "mf_empty mf" "mf_ok mf" "mapped \<noteq> Null" "create_and_map opened falloc mapped n mf = (ok, mf', calls)"
  shows "replay calls (owns r mf) = owns r mf' \<and> mf_ok mf'"
  using assms by (cases r) (auto simp: own_defs create_and_map_def mapping_call_def split: if_splits map_ptr.splits)

lemma open_owns:
  assumes "mf_empty mf" "mf_ok mf" "mapped \<noteq> Null" "open_and_map opened n mapped mf = (ok, mf', calls)"
  shows "replay calls (owns r mf) = owns r mf' \<and> mf_ok mf'"
  using assms by (cases r) (auto simp: own_defs open_and_map_def mapping_call_def split: if_splits map_ptr.splits)

lemma unmap_owns:
  assumes "mf_ok mf" "unmap mf = (mf', calls)"
  shows "replay calls (owns r mf) = Some r \<and> mf_empty mf' \<and> mf_ok mf'"
  using assms by (cases r; cases mf) (auto simp: own_defs unmap_def split: if_splits map_ptr.splits)

lemma move_owns:
  "fst (move_construct mf) = mf" "mf_empty (snd (move_construct mf))" "mf_ok (snd (move_construct mf))"
  "unmap mf1 = (mf1', calls) \<Longrightarrow> move_assign mf1 mf = ((mf, snd (move_construct mf)), calls)"
  by (simp_all add: move_construct_def move_assign_def own_defs)

section \<open>Runs over several objects\<close>

text \<open>\<open>None\<close> when an object is mapped again before it was unmapped, or when there is no such object. The address
  that the kernel answers is never null. Destruction is \<open>Mf_unmap\<close>.\<close>

datatype mf_op =
    Mf_new
  | Mf_create nat int bool map_ptr u64
  | Mf_open nat int u64 map_ptr
  | Mf_unmap nat
  | Mf_move_new nat
  | Mf_move nat nat

fun exec_mf :: "mf_op \<Rightarrow> MappedFile list \<times> sys_call list \<Rightarrow> (MappedFile list \<times> sys_call list) option" where
  "exec_mf Mf_new (objs, tr) = Some (objs @ [new_mapped_file], tr)"
| "exec_mf (Mf_create i opened falloc mapped n) (objs, tr) =
     (if i < length objs \<and> mf_empty (objs ! i) \<and> mapped \<noteq> Null
      then case create_and_map opened falloc mapped n (objs ! i) of (_, mf, calls) \<Rightarrow> Some (objs[i := mf], tr @ calls) else None)"
| "exec_mf (Mf_open i opened n mapped) (objs, tr) =
     (if i < length objs \<and> mf_empty (objs ! i) \<and> mapped \<noteq> Null
      then case open_and_map opened n mapped (objs ! i) of (_, mf, calls) \<Rightarrow> Some (objs[i := mf], tr @ calls) else None)"
| "exec_mf (Mf_unmap i) (objs, tr) =
     (if i < length objs then case unmap (objs ! i) of (mf, calls) \<Rightarrow> Some (objs[i := mf], tr @ calls) else None)"
| "exec_mf (Mf_move_new j) (objs, tr) =
     (if j < length objs then case move_construct (objs ! j) of (mf, rest) \<Rightarrow> Some (objs[j := rest] @ [mf], tr) else None)"
| "exec_mf (Mf_move i j) (objs, tr) =
     (if i < length objs \<and> j < length objs
      then if i = j then Some (objs, tr)
           else case move_assign (objs ! i) (objs ! j) of ((mf, rest), calls) \<Rightarrow> Some (objs[i := mf, j := rest], tr @ calls)
      else None)"

fun run_mf :: "mf_op list \<Rightarrow> MappedFile list \<times> sys_call list \<Rightarrow> (MappedFile list \<times> sys_call list) option" where
  "run_mf [] s = Some s"
| "run_mf (op # ops) s = Option.bind (exec_mf op s) (run_mf ops)"

definition held :: "MappedFile list \<Rightarrow> resources" where
  "held objs = (sum_list (map own_fds objs), sum_list (map own_maps objs))"

lemma held_split:
  assumes "i < length objs"
  obtains r where "\<And>mf. Some (held (objs[i := mf])) = owns r mf" "Some (held objs) = owns r (objs ! i)"
proof
  let ?r = "held (take i objs @ drop (Suc i) objs)"
  show u: "Some (held (objs[i := mf])) = owns ?r mf" for mf
    using assms by (simp add: held_def owns_def upd_conv_take_nth_drop)
  show "Some (held objs) = owns ?r (objs ! i)" using u[of "objs ! i"] by simp
qed

lemma held_append: "held (objs @ [mf]) = the (owns (held objs) mf)"
  by (simp add: held_def owns_def)

lemma mf_empty_owns: "mf_empty mf \<Longrightarrow> owns r mf = Some r"
  by (auto simp: own_defs split: map_ptr.splits)

lemma unmap_kept:
  assumes "mf_ok mf" "unmap mf = (mf', calls)"
  shows "replay calls (owns r mf) = owns r mf' \<and> mf_ok mf'"
  using unmap_owns[OF assms] mf_empty_owns by metis

definition mf_inv :: "MappedFile list \<times> sys_call list \<Rightarrow> bool" where
  "mf_inv s \<longleftrightarrow> (\<forall>mf \<in> set (fst s). mf_ok mf) \<and> replay (snd s) (Some ({#}, {#})) = Some (held (fst s))"

lemma mf_inv_update:
  assumes "mf_inv (objs, tr)" "i < length objs" "mf_ok mf" "\<And>r. replay calls (owns r (objs ! i)) = owns r mf"
  shows "mf_inv (objs[i := mf], tr @ calls)"
proof -
  obtain r where r: "Some (held (objs[i := mf])) = owns r mf" "Some (held objs) = owns r (objs ! i)"
    using held_split[OF assms(2)] by metis
  then show ?thesis using assms set_update_subset_insert[of objs i mf] by (fastforce simp: mf_inv_def)
qed

lemma held_empty_slot:
  assumes "i < length objs" "mf_empty (objs ! i)"
  shows "Some (held (objs[i := mf])) = owns (held objs) mf"
proof -
  obtain r where r: "Some (held (objs[i := mf])) = owns r mf" "Some (held objs) = owns r (objs ! i)"
    using held_split[OF assms(1)] by metis
  then show ?thesis using mf_empty_owns[OF assms(2)] by simp
qed

lemma held_emptied:
  assumes "j < length objs" "mf_empty e"
  shows "owns (held (objs[j := e])) (objs ! j) = Some (held objs)"
  using held_empty_slot[of j "objs[j := e]" "objs ! j"] assms by simp

lemma held_transfer:
  assumes "i < length objs" "j < length objs" "i \<noteq> j" "mf_empty (objs ! i)" "mf_empty e"
  shows "held (objs[i := objs ! j, j := e]) = held objs"
proof -
  have "Some (held (objs[j := e, i := objs ! j])) = owns (held (objs[j := e])) (objs ! j)"
    using assms by (intro held_empty_slot) simp_all
  then show ?thesis using held_emptied[OF assms(2,5)] assms(3) by (simp add: list_update_swap)
qed

lemma exec_mf_inv:
  assumes "mf_inv s" "exec_mf op s = Some s'"
  shows "mf_inv s'"
proof -
  obtain objs tr where s: "s = (objs, tr)" by fastforce
  note inv = assms(1)[unfolded s]
  have ok: "i < length objs \<Longrightarrow> mf_ok (objs ! i)" for i using inv by (auto simp: mf_inv_def)
  show ?thesis
  proof (cases op)
    case Mf_new
    then show ?thesis using assms s by (auto simp: mf_inv_def held_append new_mapped_file_def own_defs)
  next
    case (Mf_create i opened falloc mapped n)
    then show ?thesis using assms s ok create_owns mf_inv_update[OF inv] by (auto split: if_splits prod.splits)
  next
    case (Mf_open i opened n mapped)
    then show ?thesis using assms s ok open_owns mf_inv_update[OF inv] by (auto split: if_splits prod.splits)
  next
    case (Mf_unmap i)
    obtain mf calls where u: "unmap (objs ! i) = (mf, calls)" by fastforce
    then have i: "i < length objs" and s': "s' = (objs[i := mf], tr @ calls)" using assms(2) s Mf_unmap by (auto split: if_splits)
    show ?thesis unfolding s' using mf_inv_update[OF inv i] unmap_kept[OF ok[OF i] u] by blast
  next
    case (Mf_move_new j)
    then have j: "j < length objs" and s': "s' = (objs[j := snd (move_construct (objs ! j))] @ [objs ! j], tr)"
      using assms(2) s move_owns(1)[of "objs ! j"] by (auto split: if_splits prod.splits)
    have "held (fst s') = held objs" using held_emptied[OF j move_owns(2)] by (simp add: s' held_append)
    moreover have "\<forall>mf \<in> set (fst s'). mf_ok mf"
      using inv ok[OF j] move_owns(3) set_update_subset_insert[of objs j "snd (move_construct (objs ! j))"] by (auto simp: s' mf_inv_def)
    ultimately show ?thesis using inv by (simp add: mf_inv_def s')
  next
    case (Mf_move i j)
    show ?thesis
    proof (cases "i = j")
      case False
      obtain mf calls where u: "unmap (objs ! i) = (mf, calls)" by fastforce
      have ij: "i < length objs" "j < length objs"
        and s': "s' = (objs[i := objs ! j, j := snd (move_construct (objs ! j))], tr @ calls)"
        using assms(2) s Mf_move False move_owns(4)[OF u, of "objs ! j"] by (auto split: if_splits prod.splits)
      have e: "mf_empty mf" "mf_ok mf" using unmap_owns[OF ok[OF ij(1)] u] by blast+
      have inv1: "mf_inv (objs[i := mf], tr @ calls)"
        by (rule mf_inv_update[OF inv ij(1) e(2)]) (use unmap_kept[OF ok[OF ij(1)] u] in blast)
      have "held (objs[i := mf, i := objs[i := mf] ! j, j := snd (move_construct (objs ! j))]) = held (objs[i := mf])"
        by (rule held_transfer) (use ij False e move_owns(2) in simp_all)
      then have "held (fst s') = held (objs[i := mf])" using False by (simp add: s')
      moreover have "\<forall>x \<in> set (fst s'). mf_ok x"
        using inv ok[OF ij(2)] move_owns(3)[of "objs ! j"]
        by (auto simp: s' mf_inv_def dest!: subsetD[OF set_update_subset_insert])
      ultimately show ?thesis using inv1 by (simp add: mf_inv_def s')
    qed (use assms s Mf_move in \<open>auto split: if_splits\<close>)
  qed
qed

lemma run_mf_inv: "mf_inv s \<Longrightarrow> run_mf ops s = Some s' \<Longrightarrow> mf_inv s'"
  by (induction ops arbitrary: s) (auto simp: bind_eq_Some_conv intro: exec_mf_inv)

lemma destroy_all:
  assumes "\<forall>mf \<in> set objs. mf_ok mf" "set is \<subseteq> {..<length objs}"
  shows "\<exists>objs' tr'. run_mf (map Mf_unmap is) (objs, tr) = Some (objs', tr') \<and> length objs' = length objs
    \<and> (\<forall>i < length objs. i \<in> set is \<or> mf_empty (objs ! i) \<longrightarrow> mf_empty (objs' ! i))"
  using assms
proof (induction "is" arbitrary: objs tr)
  case (Cons i "is")
  obtain mf calls where u: "unmap (objs ! i) = (mf, calls)" by fastforce
  have i: "i < length objs" using Cons.prems(2) by simp
  have e: "mf_empty mf" "mf_ok mf" using unmap_owns[OF _ u] Cons.prems(1) i by auto
  then have "\<forall>x \<in> set (objs[i := mf]). mf_ok x" using Cons.prems(1) by (auto dest!: subsetD[OF set_update_subset_insert])
  then obtain objs' tr' where "run_mf (map Mf_unmap is) (objs[i := mf], tr @ calls) = Some (objs', tr')" "length objs' = length objs"
      "\<forall>k < length objs. k \<in> set is \<or> mf_empty (objs[i := mf] ! k) \<longrightarrow> mf_empty (objs' ! k)"
    using Cons.IH[of "objs[i := mf]" "tr @ calls"] Cons.prems(2) by auto
  then show ?case using i e(1) u by (auto simp: nth_list_update)
qed simp



text \<open>Truncating a mapped file changes the length that is later unmapped: the mapping is not released as a whole.\<close>

lemma truncate_mislays_mapping:
  fixes fd :: int and a :: nat
  assumes "fd \<ge> 0" "n \<noteq> m"
  defines "mf \<equiv> fst (snd (open_and_map fd n (Mapped a) new_mapped_file))"
  shows "replay (snd (unmap (snd (truncate (\<lambda>_ _. 0) m mf)))) (owns ({#}, {#}) mf) = None"
  using assms(1,2) by (simp add: mf_def open_and_map_def unmap_def truncate_def new_mapped_file_def own_defs)

end
